(* ===== verification/N9e_Prelude.thy ===== *)
theory N9e_Prelude
  imports
    Complex_Main
    "HOL-Library.AList"
    "HOL-Library.Char_ord"
    "HOL-Library.List_Lexorder"
    "HOL-Library.Monad_Syntax"
    "HOL-Library.Multiset"
    "HOL-Library.Word"
begin

text \<open>
  Shared vocabulary of the development: Go values the components have in common (maps, strings,
  clock times, 64-bit integers), and the generic lemmas on them.

  \<^item> A Go \<^verbatim>\<open>string\<close> is a byte sequence, here \<^typ>\<open>string\<close> (a list of 8-bit characters); \<^verbatim>\<open><\<close> on
    strings is the bytewise lexicographic order of \<open>List_Lexorder\<close>.
  \<^item> A Go \<^verbatim>\<open>map\<close> is an association list with distinct keys. Go leaves the order in which
    \<^verbatim>\<open>range\<close> visits a map unspecified, so an operation that ranges over a map takes the order
    as an argument, a function that permutes the entries.
  \<^item> A Go \<^verbatim>\<open>error\<close> is its message, the left summand of a sum; a value of type \<open>'a option\<close> that
    models a computation which can panic is \<^const>\<open>None\<close> on the panic.
\<close>

named_theorems go_map \<open>laws of the operations on Go maps\<close>

section \<open>Maps\<close>

type_synonym ('k, 'v) gomap = "('k \<times> 'v) list"

abbreviation mget :: "('k, 'v) gomap \<Rightarrow> 'k \<Rightarrow> 'v option" where
  "mget m k \<equiv> map_of m k"

definition mput :: "'k \<Rightarrow> 'v \<Rightarrow> ('k, 'v) gomap \<Rightarrow> ('k, 'v) gomap" where
  "mput k v m = AList.update k v m"

definition mdel :: "'k \<Rightarrow> ('k, 'v) gomap \<Rightarrow> ('k, 'v) gomap" where
  "mdel k m = AList.delete k m"

definition mwf :: "('k, 'v) gomap \<Rightarrow> bool" where
  "mwf m \<longleftrightarrow> distinct (map fst m)"

text \<open>The orders in which a \<^verbatim>\<open>range\<close> loop may visit a map.\<close>

definition range_order :: "('a list \<Rightarrow> 'a list) \<Rightarrow> bool" where
  "range_order ord \<longleftrightarrow> (\<forall>xs. mset (ord xs) = mset xs)"

lemma mget_mput [simp, go_map]: "mget (mput k v m) j = (if j = k then Some v else mget m j)"
  by (simp add: mput_def update_conv')

lemma mget_mdel [simp, go_map]: "mget (mdel k m) j = (if j = k then None else mget m j)"
  by (simp add: mdel_def AList.delete_conv')

lemma mwf_Nil [simp, go_map]: "mwf []"
  by (simp add: mwf_def)

lemma mwf_mput [simp, go_map]: "mwf m \<Longrightarrow> mwf (mput k v m)"
  by (simp add: mwf_def mput_def distinct_update)

lemma mwf_mdel [simp, go_map]: "mwf m \<Longrightarrow> mwf (mdel k m)"
  by (simp add: mwf_def mdel_def distinct_delete)

lemma mwf_filter [simp, go_map]: "mwf m \<Longrightarrow> mwf (filter P m)"
  by (simp add: mwf_def distinct_map_filter)

lemma mget_iff_mem [go_map]: "mwf m \<Longrightarrow> mget m k = Some v \<longleftrightarrow> (k, v) \<in> set m"
  by (simp add: mwf_def)

lemma mget_filter [go_map]:
  "mwf m \<Longrightarrow> mget (filter P m) k =
     (case mget m k of None \<Rightarrow> None | Some v \<Rightarrow> if P (k, v) then Some v else None)"
  by (induction m) (auto simp: mwf_def image_iff split: option.splits)

lemma length_mdel_le: "length (mdel k m) \<le> length m"
  by (simp add: mdel_def AList.length_delete_le)

lemma mem_mdel: "(j, v) \<in> set (mdel k m) \<longleftrightarrow> (j, v) \<in> set m \<and> j \<noteq> k"
  by (induction m) (auto simp: mdel_def)

lemma mem_mput_D: "(j, w) \<in> set (mput k v m) \<Longrightarrow> (j, w) \<in> set m \<or> (j, w) = (k, v)"
  by (induction m) (auto simp: mput_def split: if_splits)

lemma range_order_set: "range_order ord \<Longrightarrow> set (ord xs) = set xs"
  by (metis range_order_def set_mset_mset)

lemma range_order_id [simp]: "range_order (\<lambda>xs. xs)"
  by (simp add: range_order_def)

lemma range_order_rev [simp]: "range_order rev"
  by (simp add: range_order_def)

section \<open>Strings\<close>

text \<open>\<^verbatim>\<open>unicode.IsSpace\<close> on the UTF-8 bytes at the head of a string: the length in bytes of the
  white-space rune the string starts with, 0 when it starts with none. A white-space rune starts
  with a byte that continues no other rune, so looking at the bytes alone decides it.\<close>

fun space_len :: "nat list \<Rightarrow> nat" where
  "space_len [] = 0"
| "space_len (a # bs) =
     (if 9 \<le> a \<and> a \<le> 13 \<or> a = 32 then 1
      else case bs of
        [] \<Rightarrow> 0
      | b # cs \<Rightarrow>
          if a = 194 \<and> (b = 133 \<or> b = 160) then 2
          else case cs of
            [] \<Rightarrow> 0
          | c # _ \<Rightarrow>
              if a = 225 \<and> b = 154 \<and> c = 128
                \<or> a = 226 \<and> b = 128 \<and> (128 \<le> c \<and> c \<le> 138 \<or> c = 168 \<or> c = 169 \<or> c = 175)
                \<or> a = 226 \<and> b = 129 \<and> c = 159
                \<or> a = 227 \<and> b = 128 \<and> c = 128 then 3 else 0)"

definition lead_space :: "string \<Rightarrow> nat" where
  "lead_space s = space_len (map of_char (take 3 s))"

lemma space_len_le: "space_len bs \<le> length bs"
  by (cases bs rule: space_len.cases) (auto split: list.splits)

lemma lead_space_le: "lead_space s \<le> length s"
  using space_len_le [of "map of_char (take 3 s)"] by (auto simp: lead_space_def)

lemma lead_space_Nil [simp]: "lead_space [] = 0"
  by (simp add: lead_space_def)

lemma lead_space_pos: "0 < lead_space s \<Longrightarrow> length s - lead_space s < length s"
  by (cases s) auto

text \<open>\<^verbatim>\<open>strings.TrimSpace\<close>: white space is dropped from the left, then from the right. The last rune
  is white space when the last three, two or one bytes spell one.\<close>

function trim_left :: "string \<Rightarrow> string" where
  "trim_left s = (if lead_space s = 0 then s else trim_left (drop (lead_space s) s))"
  by pat_completeness auto
termination
  by (relation "measure length") (auto dest: lead_space_pos)

declare trim_left.simps [simp del]

definition trail_space :: "string \<Rightarrow> nat" where
  "trail_space s =
     (if length s \<ge> 1 \<and> lead_space (drop (length s - 1) s) = 1 then 1
      else if length s \<ge> 2 \<and> lead_space (drop (length s - 2) s) = 2 then 2
      else if length s \<ge> 3 \<and> lead_space (drop (length s - 3) s) = 3 then 3 else 0)"

function trim_right :: "string \<Rightarrow> string" where
  "trim_right s = (if trail_space s = 0 then s else trim_right (take (length s - trail_space s) s))"
  by pat_completeness auto
termination
  by (relation "measure length") (auto simp: trail_space_def split: if_splits)

declare trim_right.simps [simp del]

definition TrimSpace :: "string \<Rightarrow> string" where
  "TrimSpace s = trim_right (trim_left s)"

text \<open>\<^verbatim>\<open>strings.Fields\<close>: the maximal runs of bytes between white-space runes.\<close>

function fields_from :: "string \<Rightarrow> string \<Rightarrow> string list" where
  "fields_from acc [] = (if acc = [] then [] else [acc])"
| "fields_from acc (c # cs) =
     (let n = lead_space (c # cs) in
      if n = 0 then fields_from (acc @ [c]) cs
      else (if acc = [] then [] else [acc]) @ fields_from [] (drop n (c # cs)))"
  by pat_completeness auto
termination
  by (relation "measure (\<lambda>(acc, s). length s)") auto

definition Fields :: "string \<Rightarrow> string list" where
  "Fields s = fields_from [] s"

text \<open>\<^verbatim>\<open>strings.Contains\<close>, \<^verbatim>\<open>strings.Split\<close> on a one-byte separator, \<^verbatim>\<open>strings.SplitN(s, sep, 2)\<close>,
  \<^verbatim>\<open>strings.Join\<close> and \<^verbatim>\<open>strings.Replace(s, old, new, 1)\<close> on single bytes.\<close>

fun Contains :: "string \<Rightarrow> string \<Rightarrow> bool" where
  "Contains [] sub = (sub = [])"
| "Contains (c # cs) sub = (take (length sub) (c # cs) = sub \<or> Contains cs sub)"

fun Split :: "char \<Rightarrow> string \<Rightarrow> string list" where
  "Split sep [] = [[]]"
| "Split sep (c # cs) =
     (if c = sep then [] # Split sep cs
      else case Split sep cs of [] \<Rightarrow> [[c]] | w # ws \<Rightarrow> (c # w) # ws)"

definition SplitN2 :: "char \<Rightarrow> string \<Rightarrow> string list" where
  "SplitN2 sep s =
     (if sep \<in> set s then [takeWhile (\<lambda>c. c \<noteq> sep) s, tl (dropWhile (\<lambda>c. c \<noteq> sep) s)] else [s])"

fun Join :: "string \<Rightarrow> string list \<Rightarrow> string" where
  "Join sep [] = []"
| "Join sep [x] = x"
| "Join sep (x # y # xs) = x @ sep @ Join sep (y # xs)"

fun replace_first :: "char \<Rightarrow> char \<Rightarrow> string \<Rightarrow> string" where
  "replace_first a b [] = []"
| "replace_first a b (c # cs) = (if c = a then b # cs else c # replace_first a b cs)"

text \<open>\<^verbatim>\<open>strings.Split\<close> on a separator of several bytes: cuts at the leftmost occurrences that do not
  overlap.\<close>

function split_from :: "string \<Rightarrow> string \<Rightarrow> string \<Rightarrow> string list" where
  "split_from sep acc [] = [acc]"
| "split_from sep acc (c # cs) =
     (if sep \<noteq> [] \<and> take (length sep) (c # cs) = sep
      then acc # split_from sep [] (drop (length sep) (c # cs))
      else split_from sep (acc @ [c]) cs)"
  by pat_completeness auto
termination
  by (relation "measure (\<lambda>(sep, acc, s). length s)") auto

definition SplitStr :: "string \<Rightarrow> string \<Rightarrow> string list" where
  "SplitStr sep s = split_from sep [] s"

lemma Split_not_Nil [simp]: "Split sep s \<noteq> []"
  by (induction s) (auto split: list.splits)

lemma Join_Split [simp]: "Join [sep] (Split sep s) = s"
proof (induction s)
  case (Cons c cs)
  obtain w ws where w: "Split sep cs = w # ws"
    by (cases "Split sep cs") auto
  with Cons.IH show ?case
    by (cases ws) auto
qed simp

lemma take_Cons_neq: "c \<noteq> d \<Longrightarrow> take (Suc n) (c # cs) \<noteq> d # ds"
  by simp

text \<open>Splitting a join gives the parts back when no part holds the first byte of the separator.\<close>

lemma split_from_part:
  "d \<notin> set w \<Longrightarrow> split_from (d # ds) acc (w @ s) = split_from (d # ds) (acc @ w) s"
  by (induction w arbitrary: acc) auto

lemma split_from_sep:
  "split_from (d # ds) acc ((d # ds) @ s) = acc # split_from (d # ds) [] s"
  by simp

lemma SplitStr_Join:
  assumes "ws \<noteq> []" and "\<forall>w \<in> set ws. d \<notin> set w"
  shows "SplitStr (d # ds) (Join (d # ds) ws) = ws"
  using assms
proof (induction "d # ds" ws rule: Join.induct)
  case (2 x)
  then show ?case
    using split_from_part [of d x ds "[]" "[]"] by (simp add: SplitStr_def)
next
  case (3 x y xs)
  then show ?case
    using split_from_part [of d x ds "[]" "(d # ds) @ Join (d # ds) (y # xs)"]
    by (simp add: SplitStr_def split_from_sep del: append.simps)
qed simp

lemma SplitN2_pair: "sep \<notin> set k \<Longrightarrow> SplitN2 sep (k @ sep # v) = [k, v]"
  by (simp add: SplitN2_def takeWhile_append dropWhile_append)

lemma Contains_single: "Contains s [c] \<longleftrightarrow> c \<in> set s"
  by (induction s) auto

section \<open>Decimal numbers\<close>

definition digit_char :: "nat \<Rightarrow> char" where
  "digit_char d = char_of (48 + d)"

definition digit_val :: "char \<Rightarrow> nat option" where
  "digit_val c = (let n = of_char c in if 48 \<le> n \<and> n \<le> (57::nat) then Some (n - 48) else None)"

fun dec_nat :: "nat \<Rightarrow> string" where
  "dec_nat n = (if n < 10 then [digit_char n] else dec_nat (n div 10) @ [digit_char (n mod 10)])"

declare dec_nat.simps [simp del]

text \<open>\<^verbatim>\<open>strconv.Itoa\<close>, and \<^verbatim>\<open>%d\<close> on an integer.\<close>

definition Itoa :: "int \<Rightarrow> string" where
  "Itoa i = (if i < 0 then CHR ''-'' # dec_nat (nat (- i)) else dec_nat (nat i))"

fun digits_val :: "nat \<Rightarrow> string \<Rightarrow> nat option" where
  "digits_val acc [] = Some acc"
| "digits_val acc (c # cs) =
     (case digit_val c of None \<Rightarrow> None | Some d \<Rightarrow> digits_val (10 * acc + d) cs)"

definition int64_min :: int where "int64_min = - (2 ^ 63)"
definition int64_max :: int where "int64_max = 2 ^ 63 - 1"

definition is_int64 :: "int \<Rightarrow> bool" where
  "is_int64 i \<longleftrightarrow> int64_min \<le> i \<and> i \<le> int64_max"

text \<open>\<^verbatim>\<open>strconv.ParseInt(s, 10, 64)\<close>, and \<^verbatim>\<open>strconv.Atoi\<close> on a 64-bit platform: an optional sign and at
  least one decimal digit, in the range of an \<^verbatim>\<open>int64\<close>.\<close>

definition ParseInt :: "string \<Rightarrow> int option" where
  "ParseInt s =
     (let (neg, ds) = (case s of [] \<Rightarrow> (False, [])
                       | c # cs \<Rightarrow> if c = CHR ''-'' then (True, cs)
                                   else if c = CHR ''+'' then (False, cs) else (False, c # cs))
      in if ds = [] then None
         else case digits_val 0 ds of
           None \<Rightarrow> None
         | Some n \<Rightarrow> let i = (if neg then - int n else int n) in if is_int64 i then Some i else None)"

lemma digit_val_digit_char: "d < 10 \<Longrightarrow> digit_val (digit_char d) = Some d"
  by (simp add: digit_val_def digit_char_def Let_def)

lemma digits_val_append:
  "digits_val acc (xs @ ys) = (case digits_val acc xs of None \<Rightarrow> None | Some a \<Rightarrow> digits_val a ys)"
  by (induction xs arbitrary: acc) (auto split: option.splits)

lemma digits_val_dec_nat: "digits_val 0 (dec_nat n) = Some n"
proof (induction n rule: dec_nat.induct)
  case (1 n)
  show ?case
  proof (cases "n < 10")
    case True
    then show ?thesis by (simp add: dec_nat.simps [of n] digit_val_digit_char)
  next
    case False
    with "1.IH" show ?thesis
      by (simp add: dec_nat.simps [of n] digits_val_append digit_val_digit_char)
  qed
qed

lemma dec_nat_chars: "\<forall>c \<in> set (dec_nat n). \<exists>d < 10. c = digit_char d"
proof (induction n rule: dec_nat.induct)
  case (1 n)
  have last: "\<exists>d < 10. digit_char (n mod 10) = digit_char d"
    by (rule exI [of _ "n mod 10"]) simp
  show ?case
  proof (cases "n < 10")
    case False
    with "1.IH" last show ?thesis by (simp add: dec_nat.simps [of n])
  qed (auto simp: dec_nat.simps [of n])
qed

lemma dec_nat_not_Nil [simp]: "dec_nat n \<noteq> []"
  by (subst dec_nat.simps) simp

lemma digit_char_neq: "d < 10 \<Longrightarrow> of_char c < (48::nat) \<or> 57 < (of_char c :: nat) \<Longrightarrow> digit_char d \<noteq> c"
  by (auto simp: digit_char_def)

lemma dec_nat_avoids:
  "of_char c < (48::nat) \<or> 57 < (of_char c :: nat) \<Longrightarrow> c \<notin> set (dec_nat n)"
  using dec_nat_chars [of n] by (auto dest: digit_char_neq)

lemma ParseInt_Itoa: "is_int64 i \<Longrightarrow> ParseInt (Itoa i) = Some i"
proof -
  assume i: "is_int64 i"
  show ?thesis
  proof (cases "i < 0")
    case True
    with i show ?thesis
      by (simp add: ParseInt_def Itoa_def digits_val_dec_nat)
  next
    case False
    then obtain c cs where c: "dec_nat (nat i) = c # cs"
      by (cases "dec_nat (nat i)") auto
    then have "c \<noteq> CHR ''-''" "c \<noteq> CHR ''+''"
      using dec_nat_avoids [of "CHR ''-''" "nat i"] dec_nat_avoids [of "CHR ''+''" "nat i"] by auto
    with False i c digits_val_dec_nat [of "nat i"] show ?thesis
      by (simp add: ParseInt_def Itoa_def)
  qed
qed

section \<open>64-bit arithmetic\<close>

text \<open>The value an \<^verbatim>\<open>int64\<close> operation leaves when the mathematical result is \<open>i\<close>: the two's-complement
  reading of its low 64 bits.\<close>

definition wrap64 :: "int \<Rightarrow> int" where
  "wrap64 i = sint (word_of_int i :: 64 word)"

lemma wrap64_id: "is_int64 i \<Longrightarrow> wrap64 i = i"
  by (simp add: wrap64_def is_int64_def int64_min_def int64_max_def sint_sbintrunc'
      signed_take_bit_int_eq_self)

section \<open>Clock times\<close>

text \<open>The location of a \<^verbatim>\<open>time.Time\<close>: the offset from UTC, in seconds, at every instant. The time-zone
  data base is not part of the repository.\<close>

type_synonym zone = "int \<Rightarrow> int"

definition local_secs :: "zone \<Rightarrow> int \<Rightarrow> int" where
  "local_secs z t = t + z t"

definition two_digits :: "int \<Rightarrow> string" where
  "two_digits n = [digit_char (nat (n div 10)), digit_char (nat (n mod 10))]"

text \<open>\<^verbatim>\<open>time.Unix(t, 0).Format("15:04")\<close> and \<^verbatim>\<open>.Weekday()\<close> (0 is Sunday; 1970-01-01 was a Thursday).\<close>

definition hh_mm :: "int \<Rightarrow> string" where
  "hh_mm m = two_digits (m div 60) @ '':'' @ two_digits (m mod 60)"

definition minute_of_day :: "zone \<Rightarrow> int \<Rightarrow> int" where
  "minute_of_day z t = (local_secs z t mod 86400) div 60"

definition Format_hm :: "zone \<Rightarrow> int \<Rightarrow> string" where
  "Format_hm z t = hh_mm (minute_of_day z t)"

definition Weekday :: "zone \<Rightarrow> int \<Rightarrow> int" where
  "Weekday z t = (local_secs z t div 86400 + 4) mod 7"

text \<open>Times of day in the form HH:MM compare as the minutes they stand for.\<close>

lemma digit_char_less: "a < 10 \<Longrightarrow> b < 10 \<Longrightarrow> digit_char a < digit_char b \<longleftrightarrow> a < b"
  by (simp add: digit_char_def less_char_def)

lemma digit_char_inj: "a < 10 \<Longrightarrow> b < 10 \<Longrightarrow> digit_char a = digit_char b \<longleftrightarrow> a = b"
  using digit_char_less [of a b] digit_char_less [of b a] by (metis less_irrefl linorder_neqE)

lemma two_digits_less:
  assumes "0 \<le> a" "a < 100" "0 \<le> b" "b < 100"
  shows "two_digits a @ x < two_digits b @ y \<longleftrightarrow> a < b \<or> a = b \<and> x < y"
proof -
  define a1 a0 b1 b0 where "a1 = nat (a div 10)" "a0 = nat (a mod 10)"
    and "b1 = nat (b div 10)" "b0 = nat (b mod 10)"
  note defs = this
  have bounds: "a1 < 10" "a0 < 10" "b1 < 10" "b0 < 10"
    using assms by (simp_all add: defs)
  have ab: "a = int (10 * a1 + a0)" "b = int (10 * b1 + b0)"
    using assms by (simp_all add: defs pos_imp_zdiv_nonneg_iff)
  have "two_digits a @ x < two_digits b @ y \<longleftrightarrow> a1 < b1 \<or> a1 = b1 \<and> (a0 < b0 \<or> a0 = b0 \<and> x < y)"
    using bounds by (simp add: two_digits_def digit_char_less digit_char_inj flip: defs)
  also have "\<dots> \<longleftrightarrow> a < b \<or> a = b \<and> x < y"
    using bounds unfolding ab of_nat_less_iff of_nat_eq_iff by arith
  finally show ?thesis .
qed

lemma div_mod_less_60:
  "(m :: int) div 60 < n div 60 \<or> m div 60 = n div 60 \<and> m mod 60 < n mod 60 \<longleftrightarrow> m < n"
proof -
  have "m = 60 * (m div 60) + m mod 60" "n = 60 * (n div 60) + n mod 60"
    "0 \<le> m mod 60" "m mod 60 < 60" "0 \<le> n mod 60" "n mod 60 < 60" by simp_all
  then show ?thesis by linarith
qed

lemma hh_mm_less:
  assumes "0 \<le> m" "m < 6000" "0 \<le> n" "n < 6000"
  shows "hh_mm m < hh_mm n \<longleftrightarrow> m < n"
proof -
  have h: "0 \<le> m div 60" "m div 60 < 100" "0 \<le> n div 60" "n div 60 < 100"
    and d: "0 \<le> m mod 60" "m mod 60 < 100" "0 \<le> n mod 60" "n mod 60 < 100"
    using assms pos_mod_bound [of 60 m] pos_mod_bound [of 60 n]
    by (simp_all add: pos_imp_zdiv_nonneg_iff)
  have "hh_mm m < hh_mm n \<longleftrightarrow>
      m div 60 < n div 60 \<or> m div 60 = n div 60 \<and> m mod 60 < n mod 60"
    using two_digits_less [OF h, of "'':'' @ two_digits (m mod 60)" "'':'' @ two_digits (n mod 60)"]
      two_digits_less [OF d, of "[]" "[]"]
    by (simp add: hh_mm_def)
  also have "\<dots> \<longleftrightarrow> m < n" by (rule div_mod_less_60)
  finally show ?thesis .
qed

lemma hh_mm_eq:
  "0 \<le> m \<Longrightarrow> m < 6000 \<Longrightarrow> 0 \<le> n \<Longrightarrow> n < 6000 \<Longrightarrow> hh_mm m = hh_mm n \<longleftrightarrow> m = n"
  using hh_mm_less [of m n] hh_mm_less [of n m] by (metis less_irrefl linorder_neqE)

lemma minute_of_day_bounds: "0 \<le> minute_of_day z t" "minute_of_day z t < 1440"
proof -
  have "local_secs z t mod 86400 < 86400" "0 \<le> local_secs z t mod 86400" by simp_all
  then show "0 \<le> minute_of_day z t" "minute_of_day z t < 1440"
    by (auto simp: minute_of_day_def)
qed

section \<open>Slices\<close>

text \<open>An index expression \<^verbatim>\<open>xs[i]\<close> panics out of range.\<close>

definition at_idx :: "'a list \<Rightarrow> nat \<Rightarrow> 'a option" where
  "at_idx xs i = (if i < length xs then Some (xs ! i) else None)"

text \<open>The scope test the mute, inhibition and aggregation rules share: a list of ids that is not empty
  and does not start with 0 excludes an event whose id is set and not listed.\<close>

definition scope_excludes :: "int list \<Rightarrow> int \<Rightarrow> bool" where
  "scope_excludes ids x \<longleftrightarrow> ids \<noteq> [] \<and> hd ids \<noteq> 0 \<and> x \<noteq> 0 \<and> x \<notin> set ids"

lemma scope_excludes_iff:
  "scope_excludes ids x \<longleftrightarrow> (case ids of [] \<Rightarrow> False | i # _ \<Rightarrow> i \<noteq> 0 \<and> x \<noteq> 0 \<and> x \<notin> set ids)"
  by (cases ids) (auto simp: scope_excludes_def)

section \<open>Formatting\<close>

text \<open>\<^verbatim>\<open>%q\<close> on a string: the escapes of \<^verbatim>\<open>strconv.Quote\<close> for the bytes below 128. Bytes from 128 on are
  taken as parts of printable characters and kept.\<close>

definition hex_digit :: "nat \<Rightarrow> char" where
  "hex_digit d = (if d < 10 then char_of (48 + d) else char_of (87 + d))"

definition quote_char :: "char \<Rightarrow> string" where
  "quote_char c = (let n = of_char c :: nat in
     if n = 34 then [char_of (92::nat), c]
     else if n = 92 then [c, c]
     else if n = 7 then [char_of (92::nat), CHR ''a'']
     else if n = 8 then [char_of (92::nat), CHR ''b'']
     else if n = 9 then [char_of (92::nat), CHR ''t'']
     else if n = 10 then [char_of (92::nat), CHR ''n'']
     else if n = 11 then [char_of (92::nat), CHR ''v'']
     else if n = 12 then [char_of (92::nat), CHR ''f'']
     else if n = 13 then [char_of (92::nat), CHR ''r'']
     else if n < 32 \<or> n = 127 then [char_of (92::nat), CHR ''x'', hex_digit (n div 16), hex_digit (n mod 16)]
     else [c])"

definition Quote :: "string \<Rightarrow> string" where
  "Quote s = char_of (34::nat) # concat (map quote_char s) @ [char_of (34::nat)]"

section \<open>Instants\<close>

text \<open>A \<^verbatim>\<open>time.Time\<close> is the number of nanoseconds since the epoch, \<^verbatim>\<open>Unix\<close> rounds it to seconds.\<close>

definition Second :: int where "Second = 10 ^ 9"
definition Unix :: "int \<Rightarrow> int" where "Unix t = t div Second"

end
