(* ===== verification/Tag_Filter.thy ===== *)
theory Tag_Filter
  imports N9e_Prelude
begin

text \<open>
  Tag filters: the type \<^verbatim>\<open>models.TagFilter\<close> with its verification and compilation
  (\<^verbatim>\<open>models/alert_mute.go\<close>), and the native matcher of \<^verbatim>\<open>alert/common\<close> that mute rules, notification
  rules and pipelines share.

  A JSON number decoded into an \<^verbatim>\<open>interface{}\<close> is a finite \<^verbatim>\<open>float64\<close>, kept as its rational value.
  A compiled \<^verbatim>\<open>*regexp.Regexp\<close> is nil or an object of which only \<^verbatim>\<open>MatchString\<close> is used.
\<close>

section \<open>Values and filters\<close>

datatype gval =
    VNil
  | VBool bool
  | VString string
  | VInt int
  | VFloat rat
  | VInts "int list"
  | VStrings "string list"
  | VList "gval list"
  | VMap "(string \<times> gval) list"

record TagFilter =
  tf_Key :: string
  tf_Func :: string
  tf_Op :: string
  tf_Value :: gval
  tf_Regexp :: "(string \<Rightarrow> bool) option"
  tf_Vset :: "string list"

text \<open>The library functions the filters call and which stay parameters of the model: the regular
  expression compiler, the JSON decoders into a string-keyed object, into a list of filters and into
  a list of strings, the JSON encoder, and the shortest decimal form of a \<^verbatim>\<open>float64\<close>.\<close>

record stdlib =
  regexp_Compile :: "string \<Rightarrow> string + (string \<Rightarrow> bool)"
  json_object :: "string \<Rightarrow> string + (string \<times> gval) list"
  json_filters :: "string \<Rightarrow> string + TagFilter list"
  json_strings :: "string \<Rightarrow> string + string list"
  json_marshal :: "gval \<Rightarrow> string"
  fmt_float :: "rat \<Rightarrow> string"

text \<open>\<^verbatim>\<open>fmt.Sprintf("%v", v)\<close> and \<^verbatim>\<open>fmt.Sprintf("%T", v)\<close>.\<close>

fun sprint_v :: "stdlib \<Rightarrow> gval \<Rightarrow> string" where
  "sprint_v L VNil = ''<nil>''"
| "sprint_v L (VBool b) = (if b then ''true'' else ''false'')"
| "sprint_v L (VString s) = s"
| "sprint_v L (VInt i) = Itoa i"
| "sprint_v L (VFloat r) = fmt_float L r"
| "sprint_v L (VInts xs) = ''['' @ Join '' '' (map Itoa xs) @ '']''"
| "sprint_v L (VStrings xs) = ''['' @ Join '' '' xs @ '']''"
| "sprint_v L (VList xs) = ''['' @ Join '' '' (map (sprint_v L) xs) @ '']''"
| "sprint_v L (VMap kvs) =
     ''map['' @ Join '' '' (map (\<lambda>(k, s). k @ '':'' @ s)
                 (sort_key fst (map (\<lambda>(k, v). (k, sprint_v L v)) kvs))) @ '']''"

fun type_T :: "gval \<Rightarrow> string" where
  "type_T VNil = ''<nil>''"
| "type_T (VBool b) = ''bool''"
| "type_T (VString s) = ''string''"
| "type_T (VInt i) = ''int''"
| "type_T (VFloat r) = ''float64''"
| "type_T (VInts xs) = ''[]int''"
| "type_T (VStrings xs) = ''[]string''"
| "type_T (VList xs) = ''[]interface {}''"
| "type_T (VMap kvs) = ''map[string]interface {}''"

text \<open>The conversion \<^verbatim>\<open>int(x)\<close> of a \<^verbatim>\<open>float64\<close> drops the fraction.\<close>

definition float_to_int :: "rat \<Rightarrow> int" where
  "float_to_int r = (if r < 0 then \<lceil>r\<rceil> else \<lfloor>r\<rfloor>)"

section \<open>Verification and compilation (models/alert\_mute.go)\<close>

definition filter_funcs :: "string list" where
  "filter_funcs = [''=='', ''!='', ''in'', ''not in'', ''=~'', ''!~'']"

text \<open>\<^verbatim>\<open>TagFilter.Verify\<close> writes \<^verbatim>\<open>Func\<close> through the receiver before the operator is checked, so the
  filter it leaves is returned on both branches.\<close>

definition TagFilter_Verify :: "TagFilter \<Rightarrow> TagFilter \<times> string option" where
  "TagFilter_Verify t =
     (if tf_Key t = [] then (t, Some ''tag key cannot be empty'')
      else let t' = (if tf_Func t = [] then t\<lparr>tf_Func := tf_Op t\<rparr> else t) in
        if tf_Func t' \<notin> set filter_funcs then (t', Some ''invalid operation'') else (t', None))"

definition filter_regexp :: "stdlib \<Rightarrow> gval \<Rightarrow> string + (string \<Rightarrow> bool)" where
  "filter_regexp L v =
     (case v of
        VString s \<Rightarrow> regexp_Compile L s
      | VInt i \<Rightarrow> regexp_Compile L (Itoa i)
      | _ \<Rightarrow> Inl (''unsupported value type for regex: '' @ type_T v))"

fun vset_item :: "gval \<Rightarrow> string list" where
  "vset_item (VString s) = [s]"
| "vset_item (VInt i) = [Itoa i]"
| "vset_item (VFloat r) = [Itoa (float_to_int r)]"
| "vset_item _ = []"

definition filter_vset :: "stdlib \<Rightarrow> gval \<Rightarrow> string list" where
  "filter_vset L v =
     (case v of
        VString s \<Rightarrow> Fields s
      | VInts xs \<Rightarrow> map Itoa xs
      | VStrings xs \<Rightarrow> xs
      | VList xs \<Rightarrow> concat (map vset_item xs)
      | _ \<Rightarrow> Fields (sprint_v L v))"

text \<open>The body of the loops of \<^verbatim>\<open>ParseTagFilter\<close> and \<^verbatim>\<open>GetTagFilters\<close>, which differ in how the set is
  filled only.\<close>

definition compile_one :: "stdlib \<Rightarrow> (gval \<Rightarrow> string list) \<Rightarrow> TagFilter \<Rightarrow> string + TagFilter" where
  "compile_one L vset f =
     (if tf_Func f = ''=~'' \<or> tf_Func f = ''!~'' then
        (case filter_regexp L (tf_Value f) of
           Inl e \<Rightarrow> Inl e | Inr r \<Rightarrow> Inr (f\<lparr>tf_Regexp := Some r\<rparr>))
      else if tf_Func f = ''in'' \<or> tf_Func f = ''not in'' then
        Inr (f\<lparr>tf_Vset := vset (tf_Value f)\<rparr>)
      else Inr f)"

fun compile_all :: "stdlib \<Rightarrow> (gval \<Rightarrow> string list) \<Rightarrow> TagFilter list \<Rightarrow> string + TagFilter list" where
  "compile_all L vset [] = Inr []"
| "compile_all L vset (f # fs) =
     (case compile_one L vset f of
        Inl e \<Rightarrow> Inl e
      | Inr g \<Rightarrow> (case compile_all L vset fs of Inl e \<Rightarrow> Inl e | Inr gs \<Rightarrow> Inr (g # gs)))"

definition ParseTagFilter :: "stdlib \<Rightarrow> TagFilter list \<Rightarrow> string + TagFilter list" where
  "ParseTagFilter L fs = compile_all L (filter_vset L) fs"

text \<open>\<^verbatim>\<open>GetTagFilters\<close> decodes a JSON column and compiles it with a copy of the same loop, which has no
  case for \<^verbatim>\<open>[]string\<close>.\<close>

definition get_vset :: "stdlib \<Rightarrow> gval \<Rightarrow> string list" where
  "get_vset L v =
     (case v of
        VString s \<Rightarrow> Fields s
      | VInts xs \<Rightarrow> map Itoa xs
      | VList xs \<Rightarrow> concat (map vset_item xs)
      | _ \<Rightarrow> Fields (sprint_v L v))"

definition GetTagFilters :: "stdlib \<Rightarrow> string \<Rightarrow> string + TagFilter list" where
  "GetTagFilters L jsonArr =
     (if jsonArr = [] then Inr []
      else case json_filters L jsonArr of Inl e \<Rightarrow> Inl e | Inr fs \<Rightarrow> compile_all L (get_vset L) fs)"

section \<open>The native matcher (alert/common)\<close>

type_synonym tags = "(string, string) gomap"

text \<open>Every type assertion without a check and every call of a method on a nil \<^verbatim>\<open>*regexp.Regexp\<close>
  panics: the result is then \<^const>\<open>None\<close>.\<close>

definition matchTag :: "stdlib \<Rightarrow> string \<Rightarrow> TagFilter \<Rightarrow> bool option" where
  "matchTag L val f =
     (if tf_Func f = ''=='' then Some (TrimSpace (sprint_v L (tf_Value f)) = TrimSpace val)
      else if tf_Func f = ''!='' then Some (TrimSpace (sprint_v L (tf_Value f)) \<noteq> TrimSpace val)
      else if tf_Func f = ''in'' then Some (val \<in> set (tf_Vset f))
      else if tf_Func f = ''not in'' then Some (val \<notin> set (tf_Vset f))
      else if tf_Func f = ''=~'' then map_option (\<lambda>re. re val) (tf_Regexp f)
      else if tf_Func f = ''!~'' then map_option (\<lambda>re. \<not> re val) (tf_Regexp f)
      else Some False)"

fun float_ids :: "gval list \<Rightarrow> rat list option" where
  "float_ids [] = Some []"
| "float_ids (VFloat r # vs) = map_option ((#) r) (float_ids vs)"
| "float_ids (_ # vs) = None"

fun any_float_in :: "rat list \<Rightarrow> gval list \<Rightarrow> bool option" where
  "any_float_in ids [] = Some False"
| "any_float_in ids (VFloat r # vs) = (if r \<in> set ids then Some True else any_float_in ids vs)"
| "any_float_in ids (_ # vs) = None"

fun any_name_matches :: "stdlib \<Rightarrow> (string \<Rightarrow> bool) option \<Rightarrow> gval list \<Rightarrow> bool option" where
  "any_name_matches L re [] = Some False"
| "any_name_matches L None (v # vs) = None"
| "any_name_matches L (Some r) (v # vs) =
     (if r (sprint_v L v) then Some True else any_name_matches L (Some r) vs)"

definition targetGroupMatch :: "stdlib \<Rightarrow> string \<Rightarrow> TagFilter \<Rightarrow> bool option" where
  "targetGroupMatch L val f =
     (case json_object L val of
        Inl e \<Rightarrow> Some False
      | Inr valueMap \<Rightarrow>
          if tf_Func f = ''in'' \<or> tf_Func f = ''not in'' then
            (case tf_Value f of
               VList ids \<Rightarrow> do {
                 filterIds \<leftarrow> float_ids ids;
                 (case map_of valueMap ''group_ids'' of
                    Some (VList groupIds) \<Rightarrow> do {
                      found \<leftarrow> any_float_in filterIds groupIds;
                      Some (if tf_Func f = ''in'' then found else \<not> found)
                    }
                  | _ \<Rightarrow> Some False)
               }
             | _ \<Rightarrow> Some False)
          else if tf_Func f = ''=~'' \<or> tf_Func f = ''!~'' then
            (case map_of valueMap ''group_names'' of
               Some (VList names) \<Rightarrow> do {
                 matched \<leftarrow> any_name_matches L (tf_Regexp f) names;
                 Some (if tf_Func f = ''=~'' then matched else \<not> matched)
               }
             | _ \<Rightarrow> Some False)
          else Some False)"

definition match_one :: "stdlib \<Rightarrow> tags \<Rightarrow> TagFilter \<Rightarrow> bool option" where
  "match_one L m f =
     (if tf_Key f = ''target_group'' then
        (case mget m ''target'' of None \<Rightarrow> Some False | Some v \<Rightarrow> targetGroupMatch L v f)
      else
        (case mget m (tf_Key f) of None \<Rightarrow> Some False | Some v \<Rightarrow> matchTag L v f))"

fun MatchTags :: "stdlib \<Rightarrow> tags \<Rightarrow> TagFilter list \<Rightarrow> bool option" where
  "MatchTags L m [] = Some True"
| "MatchTags L m (f # fs) = do {
     ok \<leftarrow> match_one L m f;
     if ok then MatchTags L m fs else Some False
   }"

fun MatchGroupsName :: "stdlib \<Rightarrow> string \<Rightarrow> TagFilter list \<Rightarrow> bool option" where
  "MatchGroupsName L g [] = Some True"
| "MatchGroupsName L g (f # fs) = do {
     ok \<leftarrow> matchTag L g f;
     if ok then MatchGroupsName L g fs else Some False
   }"

section \<open>What compilation establishes\<close>

text \<open>A filter is compiled when the fields its operator reads are there.\<close>

definition compiled :: "TagFilter \<Rightarrow> bool" where
  "compiled f \<longleftrightarrow> (tf_Func f = ''=~'' \<or> tf_Func f = ''!~'' \<longrightarrow> tf_Regexp f \<noteq> None)"

definition raw_eq :: "TagFilter \<Rightarrow> TagFilter \<Rightarrow> bool" where
  "raw_eq f g \<longleftrightarrow> tf_Key f = tf_Key g \<and> tf_Func f = tf_Func g \<and> tf_Op f = tf_Op g \<and> tf_Value f = tf_Value g"

definition compiled_by :: "(gval \<Rightarrow> string list) \<Rightarrow> TagFilter \<Rightarrow> TagFilter \<Rightarrow> bool" where
  "compiled_by vset f g \<longleftrightarrow> raw_eq f g \<and> compiled g
     \<and> (tf_Func f = ''in'' \<or> tf_Func f = ''not in'' \<longrightarrow> tf_Vset g = vset (tf_Value f))"

lemma compile_one_compiled: "compile_one L vset f = Inr g \<Longrightarrow> compiled_by vset f g"
  by (auto simp: compile_one_def compiled_by_def raw_eq_def compiled_def split: if_splits sum.splits)

lemma compile_all_compiled: "compile_all L vset fs = Inr gs \<Longrightarrow> list_all2 (compiled_by vset) fs gs"
  by (induction fs arbitrary: gs) (auto split: sum.splits dest: compile_one_compiled)

lemma compile_all_cong:
  "(\<And>f. f \<in> set fs \<Longrightarrow> vs (tf_Value f) = ws (tf_Value f)) \<Longrightarrow> compile_all L vs fs = compile_all L ws fs"
  by (induction fs) (auto simp: compile_one_def split: sum.splits)

lemma list_all2_compiled: "list_all2 (compiled_by vset) fs gs \<Longrightarrow> list_all compiled gs"
  by (induction rule: list_all2_induct) (auto simp: compiled_by_def)

lemma matchTag_compiled: "compiled f \<Longrightarrow> matchTag L v f \<noteq> None"
  by (auto simp: matchTag_def compiled_def)

lemma match_one_compiled:
  "compiled f \<Longrightarrow> tf_Key f \<noteq> ''target_group'' \<Longrightarrow> match_one L m f \<noteq> None"
  using matchTag_compiled by (auto simp: match_one_def split: option.splits)

lemma MatchTags_append:
  "MatchTags L m (fs @ gs) = do { ok \<leftarrow> MatchTags L m fs; if ok then MatchTags L m gs else Some False }"
  by (induction fs) (auto split: option.splits Option.bind_splits)

lemma MatchTags_total:
  "list_all (\<lambda>f. match_one L m f \<noteq> None) fs \<Longrightarrow>
   MatchTags L m fs = Some (list_all (\<lambda>f. match_one L m f = Some True) fs)"
  by (induction fs) auto

lemma MatchTags_Some_True_iff:
  "MatchTags L m fs = Some True \<longleftrightarrow> list_all (\<lambda>f. match_one L m f = Some True) fs"
  by (induction fs) (auto split: Option.bind_splits)

section \<open>A concrete library\<close>

text \<open>A library for concrete inputs: patterns without metacharacters, for which \<^verbatim>\<open>MatchString\<close> is the
  substring test, and decoders that know no input.\<close>

definition literal_lib :: stdlib where
  "literal_lib = \<lparr>regexp_Compile = (\<lambda>p. Inr (\<lambda>s. Contains s p)), json_object = (\<lambda>_. Inl ''json''),
     json_filters = (\<lambda>_. Inl ''json''), json_strings = (\<lambda>_. Inl ''json''),
     json_marshal = (\<lambda>_. ''{}''), fmt_float = (\<lambda>r. Itoa \<lfloor>r\<rfloor>)\<rparr>"

definition raw_filter :: "string \<Rightarrow> string \<Rightarrow> gval \<Rightarrow> TagFilter" where
  "raw_filter k op v =
     \<lparr>tf_Key = k, tf_Func = op, tf_Op = [], tf_Value = v, tf_Regexp = None, tf_Vset = []\<rparr>"

end
