(* ===== verification/Relabel.thy ===== *)
theory Relabel
  imports N9e_Prelude "HOL-Library.Word"
begin

unbundle bit_operations_syntax

text \<open>
  Relabelling of label sets (\<^verbatim>\<open>pushgw/writer/relabel.go\<close>), used by the gateway for incoming series and by the
  alert engine for the labels of an event.

  A compiled regular expression is a record of the three operations the code calls: \<^verbatim>\<open>MatchString\<close>, the pair
  \<^verbatim>\<open>FindStringSubmatchIndex\<close>/\<^verbatim>\<open>ExpandString\<close> (\<open>None\<close> when there is no match) and \<^verbatim>\<open>ReplaceAllString\<close>. Together
  with \<^verbatim>\<open>md5.Sum\<close>, the case conversions and \<^verbatim>\<open>LabelName.IsValid\<close> they are the argument \<open>R\<close>. A nil slice of
  labels is \<open>None\<close>; a division by a modulus of zero, which panics, is an outer \<open>None\<close>.
\<close>

record regexp =
  re_MatchString :: "string \<Rightarrow> bool"
  re_FindExpand :: "string \<Rightarrow> string \<Rightarrow> string option"
  re_ReplaceAllString :: "string \<Rightarrow> string \<Rightarrow> string"

record relabel_lib =
  rl_Compile :: "string \<Rightarrow> regexp option"
  rl_md5Sum :: "string \<Rightarrow> 8 word list"
  rl_ToLower :: "string \<Rightarrow> string"
  rl_ToUpper :: "string \<Rightarrow> string"
  rl_IsValid :: "string \<Rightarrow> bool"

type_synonym label = "string \<times> string"

record RelabelConfig =
  rc_SourceLabels :: "string list"
  rc_Separator :: string
  rc_Regex :: string
  rc_RegexCompiled :: "regexp option"
  rc_If :: string
  rc_IfRegex :: "regexp option"
  rc_Modulus :: "64 word"
  rc_TargetLabel :: string
  rc_Replacement :: string
  rc_Action :: string

definition Replace :: string where "Replace = ''replace''"
definition Keep :: string where "Keep = ''keep''"
definition Drop :: string where "Drop = ''drop''"
definition HashMod :: string where "HashMod = ''hashmod''"
definition LabelMap :: string where "LabelMap = ''labelmap''"
definition LabelDrop :: string where "LabelDrop = ''labeldrop''"
definition LabelKeep :: string where "LabelKeep = ''labelkeep''"
definition Lowercase :: string where "Lowercase = ''lowercase''"
definition Uppercase :: string where "Uppercase = ''uppercase''"
definition DropIfEqual :: string where "DropIfEqual = ''drop_if_equal''"

lemmas actions = Replace_def Keep_def Drop_def HashMod_def LabelMap_def LabelDrop_def LabelKeep_def
  Lowercase_def Uppercase_def DropIfEqual_def

section \<open>Label sets\<close>

fun getValue :: "label list \<Rightarrow> string \<Rightarrow> string" where
  "getValue [] name = []"
| "getValue (l # ls) name = (if fst l = name then snd l else getValue ls name)"

type_synonym LabelBuilder = "(string, string) gomap"

fun builder_loop :: "LabelBuilder \<Rightarrow> label list \<Rightarrow> LabelBuilder" where
  "builder_loop lset [] = lset"
| "builder_loop lset (l # ls) = builder_loop (mput (fst l) (snd l) lset) ls"

definition newBuilder :: "label list \<Rightarrow> LabelBuilder" where
  "newBuilder ls = builder_loop [] ls"

definition lb_set :: "string \<Rightarrow> string \<Rightarrow> LabelBuilder \<Rightarrow> LabelBuilder" where
  "lb_set k v l = mput k v l"

fun lb_del :: "string list \<Rightarrow> LabelBuilder \<Rightarrow> LabelBuilder" where
  "lb_del [] l = l"
| "lb_del (n # ns) l = lb_del ns (mdel n l)"

text \<open>The names of a builder differ, so that every sort by decreasing name gives the same slice.\<close>

definition lb_labels :: "LabelBuilder \<Rightarrow> label list" where
  "lb_labels l = rev (sort_key fst l)"

section \<open>One rule\<close>

definition compileRegex :: "relabel_lib \<Rightarrow> string \<Rightarrow> regexp option" where
  "compileRegex R expr = rl_Compile R expr"

fun sum64_loop :: "nat \<Rightarrow> 8 word list \<Rightarrow> 64 word \<Rightarrow> 64 word" where
  "sum64_loop i [] s = s"
| "sum64_loop i (b # bs) s = sum64_loop (Suc i) bs (s OR push_bit ((16 - i - 1) * 8) (ucast b))"

definition sum64 :: "8 word list \<Rightarrow> 64 word" where
  "sum64 hash = sum64_loop 0 hash 0"

definition handleReplace :: "relabel_lib \<Rightarrow> LabelBuilder \<Rightarrow> regexp option \<Rightarrow> RelabelConfig \<Rightarrow> string \<Rightarrow> label list \<Rightarrow> label list" where
  "handleReplace R lb regx cfg val lset =
     (if length (rc_TargetLabel cfg) = 0 then lb_labels lb
      else if length (rc_SourceLabels cfg) = 0 then lb_labels (lb_set (rc_TargetLabel cfg) (rc_Replacement cfg) lb)
      else if rc_Replacement cfg = [] \<and> length (rc_SourceLabels cfg) > 1 then lb_labels (lb_set (rc_TargetLabel cfg) val lb)
      else case regx of
        Some re \<Rightarrow>
          (case re_FindExpand re val (rc_Replacement cfg) of
             None \<Rightarrow> lb_labels lb
           | Some res \<Rightarrow>
               if \<not> rl_IsValid R (rc_TargetLabel cfg) then lb_labels (lb_del [rc_TargetLabel cfg] lb)
               else if length res = 0 then lb_labels (lb_del [rc_TargetLabel cfg] lb)
               else lb_labels (lb_set (rc_TargetLabel cfg) res lb))
      | None \<Rightarrow> lb_labels (lb_set (rc_TargetLabel cfg) (rc_Replacement cfg) lb))"

fun all_values_equal :: "label list \<Rightarrow> string \<Rightarrow> string list \<Rightarrow> bool" where
  "all_values_equal lset firstVal [] = True"
| "all_values_equal lset firstVal (l # ls) =
     (if getValue lset l \<noteq> firstVal then False else all_values_equal lset firstVal ls)"

definition handleDropIfEqual :: "LabelBuilder \<Rightarrow> RelabelConfig \<Rightarrow> label list \<Rightarrow> label list option" where
  "handleDropIfEqual lb cfg lset =
     (case rc_SourceLabels cfg of
        first # second # rest \<Rightarrow>
          if all_values_equal lset (getValue lset first) (second # rest) then None else Some (lb_labels lb)
      | _ \<Rightarrow> Some (lb_labels lb))"

fun label_map_loop :: "regexp \<Rightarrow> string \<Rightarrow> label list \<Rightarrow> LabelBuilder \<Rightarrow> LabelBuilder" where
  "label_map_loop re replacement [] lb = lb"
| "label_map_loop re replacement (l # ls) lb =
     label_map_loop re replacement ls
       (if re_MatchString re (fst l) then lb_set (re_ReplaceAllString re (fst l) replacement) (snd l) lb else lb)"

fun label_drop_loop :: "regexp \<Rightarrow> label list \<Rightarrow> LabelBuilder \<Rightarrow> LabelBuilder" where
  "label_drop_loop re [] lb = lb"
| "label_drop_loop re (l # ls) lb = label_drop_loop re ls (if re_MatchString re (fst l) then lb_del [fst l] lb else lb)"

fun label_keep_loop :: "regexp \<Rightarrow> label list \<Rightarrow> LabelBuilder \<Rightarrow> LabelBuilder" where
  "label_keep_loop re [] lb = lb"
| "label_keep_loop re (l # ls) lb = label_keep_loop re ls (if \<not> re_MatchString re (fst l) then lb_del [fst l] lb else lb)"

definition relabel :: "relabel_lib \<Rightarrow> label list \<Rightarrow> RelabelConfig \<Rightarrow> label list option option" where
  "relabel R lset cfg =
     (let values = map (getValue lset) (rc_SourceLabels cfg);
          regx = (case rc_RegexCompiled cfg of None \<Rightarrow> compileRegex R (rc_Regex cfg) | Some re \<Rightarrow> Some re)
      in case regx of
           None \<Rightarrow> Some (Some lset)
         | Some re \<Rightarrow>
             (let val = Join (rc_Separator cfg) values; lb = newBuilder lset in
              if rc_Action cfg = Drop then Some (if re_MatchString re val then None else Some (lb_labels lb))
              else if rc_Action cfg = Keep then Some (if \<not> re_MatchString re val then None else Some (lb_labels lb))
              else if rc_Action cfg = Replace then Some (Some (handleReplace R lb regx cfg val lset))
              else if rc_Action cfg = Lowercase then Some (Some (lb_labels (lb_set (rc_TargetLabel cfg) (rl_ToLower R val) lb)))
              else if rc_Action cfg = Uppercase then Some (Some (lb_labels (lb_set (rc_TargetLabel cfg) (rl_ToUpper R val) lb)))
              else if rc_Action cfg = HashMod then
                (if rc_Modulus cfg = 0 then None
                 else Some (Some (lb_labels (lb_set (rc_TargetLabel cfg) (Itoa (uint (sum64 (rl_md5Sum R val) mod rc_Modulus cfg))) lb))))
              else if rc_Action cfg = LabelMap then Some (Some (lb_labels (label_map_loop re (rc_Replacement cfg) lset lb)))
              else if rc_Action cfg = LabelDrop then Some (Some (lb_labels (label_drop_loop re lset lb)))
              else if rc_Action cfg = LabelKeep then Some (Some (lb_labels (label_keep_loop re lset lb)))
              else if rc_Action cfg = DropIfEqual then Some (handleDropIfEqual lb cfg lset)
              else Some (Some (lb_labels lb))))"

section \<open>All rules, all series\<close>

fun Process :: "relabel_lib \<Rightarrow> label list \<Rightarrow> RelabelConfig list \<Rightarrow> label list option option" where
  "Process R labels [] = Some (Some labels)"
| "Process R labels (cfg # cfgs) =
     (case relabel R labels cfg of
        None \<Rightarrow> None
      | Some None \<Rightarrow> Some None
      | Some (Some ls) \<Rightarrow> Process R ls cfgs)"

record 'sample TimeSeries =
  ts_Labels :: "label list"
  ts_Samples :: 'sample

fun relabel_series :: "relabel_lib \<Rightarrow> RelabelConfig list \<Rightarrow> 'sample TimeSeries list \<Rightarrow> 'sample TimeSeries list option" where
  "relabel_series R rc [] = Some []"
| "relabel_series R rc (item # items) =
     (case Process R (ts_Labels item) rc of
        None \<Rightarrow> None
      | Some lbls \<Rightarrow>
          (case relabel_series R rc items of
             None \<Rightarrow> None
           | Some ritems \<Rightarrow>
               (case lbls of
                  Some (l # ls) \<Rightarrow> Some (item\<lparr>ts_Labels := l # ls\<rparr> # ritems)
                | _ \<Rightarrow> Some ritems)))"

section \<open>Builders\<close>

lemma builder_loop_mwf: "mwf m \<Longrightarrow> mwf (builder_loop m ls)"
  by (induction m ls rule: builder_loop.induct) simp_all

lemma newBuilder_mwf [simp]: "mwf (newBuilder ls)"
  by (simp add: newBuilder_def builder_loop_mwf)

lemma lb_set_mwf [simp]: "mwf l \<Longrightarrow> mwf (lb_set k v l)"
  by (simp add: lb_set_def)

lemma lb_del_mwf [simp]: "mwf l \<Longrightarrow> mwf (lb_del ns l)"
  by (induction ns l rule: lb_del.induct) simp_all

lemma label_map_loop_mwf [simp]: "mwf lb \<Longrightarrow> mwf (label_map_loop re rep ls lb)"
  by (induction ls arbitrary: lb) simp_all

lemma label_drop_loop_mwf [simp]: "mwf lb \<Longrightarrow> mwf (label_drop_loop re ls lb)"
  by (induction ls arbitrary: lb) simp_all

lemma label_keep_loop_mwf [simp]: "mwf lb \<Longrightarrow> mwf (label_keep_loop re ls lb)"
  by (induction ls arbitrary: lb) simp_all

text \<open>Label slices as the functions return them: names strictly decreasing.\<close>

definition canonical :: "label list \<Rightarrow> bool" where
  "canonical ls \<longleftrightarrow> sorted_wrt (\<lambda>a b. fst a > fst b) ls"

lemma canonical_distinct: "canonical ls \<Longrightarrow> distinct (map fst ls)"
  unfolding canonical_def by (induction ls) auto

lemma lb_labels_canonical: "mwf l \<Longrightarrow> canonical (lb_labels l)"
proof -
  assume wf: "mwf l"
  let ?s = "sort_key fst l"
  have "distinct (map fst ?s)"
    using wf unfolding mwf_def by (metis distinct_map distinct_sort set_sort)
  moreover have "sorted (map fst ?s)" by (rule sorted_sort_key)
  ultimately have "sorted_wrt (<) (map fst ?s)" by (simp add: strict_sorted_iff)
  then show ?thesis by (simp add: canonical_def lb_labels_def sorted_wrt_rev sorted_wrt_map)
qed

lemma set_lb_labels [simp]: "set (lb_labels l) = set l"
  by (simp add: lb_labels_def)

lemma mget_lb_labels:
  assumes "mwf l"
  shows "mget (lb_labels l) = mget l"
  by (rule map_of_eqI)
    (use assms canonical_distinct [OF lb_labels_canonical [OF assms]] in \<open>auto simp: mwf_def map_of_eq_Some_iff\<close>)

lemma label_drop_loop_get:
  "mget (label_drop_loop re ls lb) k = (if k \<in> fst ` set ls \<and> re_MatchString re k then None else mget lb k)"
  by (induction re ls lb rule: label_drop_loop.induct) auto

lemma label_keep_loop_get:
  "mget (label_keep_loop re ls lb) k = (if k \<in> fst ` set ls \<and> \<not> re_MatchString re k then None else mget lb k)"
  by (induction re ls lb rule: label_keep_loop.induct) auto

lemma builder_loop_dom: "dom (mget (builder_loop m ls)) = dom (mget m) \<union> fst ` set ls"
  by (induction m ls rule: builder_loop.induct) (auto split: if_splits)

lemma newBuilder_dom: "dom (mget (newBuilder ls)) = fst ` set ls"
  by (simp add: newBuilder_def builder_loop_dom)

section \<open>Correctness\<close>

definition regexp_of :: "relabel_lib \<Rightarrow> RelabelConfig \<Rightarrow> regexp option" where
  "regexp_of R cfg = (case rc_RegexCompiled cfg of None \<Rightarrow> rl_Compile R (rc_Regex cfg) | Some re \<Rightarrow> Some re)"

lemma handleReplace_canonical: "mwf lb \<Longrightarrow> canonical (handleReplace R lb regx cfg val lset)"
  by (simp add: handleReplace_def lb_labels_canonical split: option.split)

lemma handleDropIfEqual_canonical: "mwf lb \<Longrightarrow> handleDropIfEqual lb cfg lset = Some ls \<Longrightarrow> canonical ls"
  by (auto simp: handleDropIfEqual_def lb_labels_canonical split: list.splits if_splits)


text \<open>Relabelling panics in one situation only: a \<open>hashmod\<close> rule whose modulus is zero (the zero value of the field)
  and whose regular expression compiles divides by zero; every other rule returns.\<close>

theorem relabel_panics_iff:
  "relabel R lset cfg = None \<longleftrightarrow> rc_Action cfg = HashMod \<and> rc_Modulus cfg = 0 \<and> regexp_of R cfg \<noteq> None"
proof (cases "regexp_of R cfg")
  case None
  then show ?thesis by (simp add: relabel_def regexp_of_def compileRegex_def Let_def split: option.splits)
next
  case (Some re)
  then show ?thesis
    by (auto simp: relabel_def regexp_of_def compileRegex_def Let_def actions split: option.splits)
qed

text \<open>The actions \<open>labeldrop\<close> and \<open>labelkeep\<close> remove exactly the labels whose name matches, respectively does not match, and keep
  the values of all others.\<close>

theorem label_filter_correct:
  assumes "regexp_of R cfg = Some re" "distinct (map fst lset)"
  shows "(rc_Action cfg = LabelDrop \<longrightarrow> (\<exists>ls. relabel R lset cfg = Some (Some ls) \<and>
             (\<forall>k v. (k, v) \<in> set ls \<longleftrightarrow> (k, v) \<in> set lset \<and> \<not> re_MatchString re k)))
       \<and> (rc_Action cfg = LabelKeep \<longrightarrow> (\<exists>ls. relabel R lset cfg = Some (Some ls) \<and>
             (\<forall>k v. (k, v) \<in> set ls \<longleftrightarrow> (k, v) \<in> set lset \<and> re_MatchString re k)))"
proof -
  have get: "mget (newBuilder lset) = map_of lset"
  proof -
    have "mget (builder_loop m ls) k = (case map_of ls k of None \<Rightarrow> mget m k | Some v \<Rightarrow> Some v)"
      if "distinct (map fst ls)" for m ls k
      using that
    proof (induction m ls rule: builder_loop.induct)
      case (2 m l ls)
      then have "fst l = k \<Longrightarrow> map_of ls k = None" by (auto simp: map_of_eq_None_iff)
      with 2 show ?case by (cases l) (auto split: option.splits)
    qed simp
    then show ?thesis using assms(2) by (auto simp: newBuilder_def fun_eq_iff split: option.splits)
  qed
  have mem: "(k, v) \<in> set l \<longleftrightarrow> mget l k = Some v" if "mwf l" for l and k v :: string
    using that by (simp add: mwf_def map_of_eq_Some_iff)
  have lmem: "(k, v) \<in> set lset \<longleftrightarrow> mget (newBuilder lset) k = Some v" for k v
    using assms(2) by (simp add: get map_of_eq_Some_iff)
  have dom: "mget (newBuilder lset) k = Some v \<Longrightarrow> k \<in> fst ` set lset" for k v
    using newBuilder_dom [of lset] by blast
  show ?thesis
    using assms(1) dom
    by (auto simp: relabel_def regexp_of_def compileRegex_def Let_def actions mem lmem label_drop_loop_get label_keep_loop_get
        split: option.splits)
qed

definition prefix_re :: "string \<Rightarrow> regexp" where
  "prefix_re p = \<lparr>re_MatchString = (\<lambda>s. take (length p) s = p),
     re_FindExpand = (\<lambda>v rep. if take (length p) v = p then Some rep else None),
     re_ReplaceAllString = (\<lambda>s rep. if take (length p) s = p then rep @ drop (length p) s else s)\<rparr>"

definition small_relabel_lib :: relabel_lib where
  "small_relabel_lib = \<lparr>rl_Compile = (\<lambda>p. Some (prefix_re p)), rl_md5Sum = (\<lambda>s. map (\<lambda>i. of_nat i) [0..<16]),
     rl_ToLower = (\<lambda>s. s), rl_ToUpper = (\<lambda>s. s), rl_IsValid = (\<lambda>s. s \<noteq> [])\<rparr>"

definition drop_tmp :: RelabelConfig where
  "drop_tmp = \<lparr>rc_SourceLabels = [], rc_Separator = '';'', rc_Regex = ''tmp_'', rc_RegexCompiled = None, rc_If = [],
     rc_IfRegex = None, rc_Modulus = 0, rc_TargetLabel = [], rc_Replacement = ''$1'', rc_Action = LabelDrop\<rparr>"

definition some_labels :: "label list" where
  "some_labels = [(''a'', ''1''), (''tmp_x'', ''2''), (''b'', ''3'')]"


theorem label_filter_correct_witness:
  "\<exists>ls. relabel small_relabel_lib some_labels drop_tmp = Some (Some ls)
     \<and> (''a'', ''1'') \<in> set ls \<and> (''tmp_x'', ''2'') \<notin> set ls"
proof -
  have "regexp_of small_relabel_lib drop_tmp = Some (prefix_re ''tmp_'')"
    by (simp add: regexp_of_def drop_tmp_def small_relabel_lib_def)
  moreover have "distinct (map fst some_labels)" by (simp add: some_labels_def)
  moreover have "rc_Action drop_tmp = LabelDrop" by (simp add: drop_tmp_def)
  ultimately obtain ls where "relabel small_relabel_lib some_labels drop_tmp = Some (Some ls)"
    "\<forall>k v. (k, v) \<in> set ls \<longleftrightarrow> (k, v) \<in> set some_labels \<and> \<not> re_MatchString (prefix_re ''tmp_'') k"
    using label_filter_correct by blast
  then show ?thesis by (intro exI [of _ ls]) (simp add: some_labels_def prefix_re_def)
qed

end
