(* ===== verification/Alert_Event.thy ===== *)
theory Alert_Event
  imports Tag_Filter Relabel
begin

text \<open>
  The data every component works on: an alert event (\<^verbatim>\<open>models.AlertCurEvent\<close>), an alert rule
  (\<^verbatim>\<open>models.AlertRule\<close>) and a monitored target (\<^verbatim>\<open>models.Target\<close>), with the operations that copy a
  rule into an event and that move the labels of an event between its list, map and text forms.
  The record of an event has all fields of the Go struct; \<^verbatim>\<open>RecoverConfig\<close> is given by its two fields, and
  values that the code only passes on (of type \<^verbatim>\<open>interface{}\<close>, and the objects for the front end) are of
  type \<open>gval\<close>. The records of a rule and of a target have the fields the modelled operations read or write.
\<close>

section \<open>Events, rules, targets\<close>

record Target =
  tg_Ident :: string
  tg_Note :: string
  tg_GroupIds :: "int list"
  tg_GroupNames :: "string list"
  tg_EngineName :: string

record PipelineConfig =
  pc_PipelineId :: int
  pc_Enable :: bool

record AlertCurEvent =
  ev_Id :: int
  ev_Cate :: string
  ev_Cluster :: string
  ev_DatasourceId :: int
  ev_GroupId :: int
  ev_GroupName :: string
  ev_Hash :: string
  ev_RuleId :: int
  ev_RuleName :: string
  ev_RuleNote :: string
  ev_RuleProd :: string
  ev_RuleAlgo :: string
  ev_Severity :: int
  ev_PromForDuration :: int
  ev_PromQl :: string
  ev_RuleConfig :: string
  ev_RuleConfigJson :: gval
  ev_PromEvalInterval :: int
  ev_Callbacks :: string
  ev_CallbacksJSON :: "string list"
  ev_RunbookUrl :: string
  ev_NotifyRecovered :: int
  ev_NotifyChannels :: string
  ev_NotifyChannelsJSON :: "string list"
  ev_NotifyGroups :: string
  ev_NotifyGroupsJSON :: "string list"
  ev_TargetIdent :: string
  ev_TargetNote :: string
  ev_TriggerTime :: int
  ev_TriggerValue :: string
  ev_TriggerValues :: string
  ev_Tags :: string
  ev_TagsJSON :: "string list"
  ev_TagsMap :: tags
  ev_OriginalTags :: string
  ev_OriginalTagsJSON :: "string list"
  ev_Annotations :: string
  ev_AnnotationsJSON :: tags
  ev_IsRecovered :: bool
  ev_LastEvalTime :: int
  ev_LastSentTime :: int
  ev_FirstEvalTime :: int
  ev_NotifyCurNumber :: int
  ev_FirstTriggerTime :: int
  ev_JudgeType :: int
  ev_RuleHash :: string
  ev_NotifyRuleIds :: "int list"
  ev_NotifyRuleId :: int
  ev_NotifyRuleName :: string
  ev_ExtraConfig :: gval
  ev_Target :: "Target option"
  ev_SubRuleId :: int
  ev_NotifyGroupsObj :: gval
  ev_TriggerValuesJson :: gval
  ev_NotifyUsersObj :: gval
  ev_Status :: int
  ev_Claimant :: string
  ev_ExtraInfo :: "string list"
  ev_RecoverExp :: string
  ev_ExtraInfoMap :: gval
  ev_NotifyVersion :: int
  ev_NotifyRules :: gval
  ev_RecoverTime :: int

definition zero_event :: AlertCurEvent where
  "zero_event = \<lparr>ev_Id = 0, ev_Cate = [], ev_Cluster = [], ev_DatasourceId = 0, ev_GroupId = 0,
     ev_GroupName = [], ev_Hash = [], ev_RuleId = 0, ev_RuleName = [], ev_RuleNote = [],
     ev_RuleProd = [], ev_RuleAlgo = [], ev_Severity = 0, ev_PromForDuration = 0, ev_PromQl = [],
     ev_RuleConfig = [], ev_RuleConfigJson = VNil, ev_PromEvalInterval = 0, ev_Callbacks = [],
     ev_CallbacksJSON = [], ev_RunbookUrl = [], ev_NotifyRecovered = 0, ev_NotifyChannels = [],
     ev_NotifyChannelsJSON = [], ev_NotifyGroups = [], ev_NotifyGroupsJSON = [],
     ev_TargetIdent = [], ev_TargetNote = [], ev_TriggerTime = 0, ev_TriggerValue = [],
     ev_TriggerValues = [], ev_Tags = [], ev_TagsJSON = [], ev_TagsMap = [],
     ev_OriginalTags = [], ev_OriginalTagsJSON = [], ev_Annotations = [], ev_AnnotationsJSON = [],
     ev_IsRecovered = False, ev_LastEvalTime = 0, ev_LastSentTime = 0, ev_FirstEvalTime = 0,
     ev_NotifyCurNumber = 0, ev_FirstTriggerTime = 0, ev_JudgeType = 0, ev_RuleHash = [],
     ev_NotifyRuleIds = [], ev_NotifyRuleId = 0, ev_NotifyRuleName = [], ev_ExtraConfig = VNil, ev_Target = None,
     ev_SubRuleId = 0, ev_NotifyGroupsObj = VNil, ev_TriggerValuesJson = VNil, ev_NotifyUsersObj = VNil, ev_Status = 0,
     ev_Claimant = [], ev_ExtraInfo = [], ev_RecoverExp = [], ev_ExtraInfoMap = VNil, ev_NotifyVersion = 0,
     ev_NotifyRules = VNil, ev_RecoverTime = 0\<rparr>"

record AlertRule =
  ar_Id :: int
  ar_GroupId :: int
  ar_Cate :: string
  ar_Name :: string
  ar_Note :: string
  ar_Prod :: string
  ar_Algorithm :: string
  ar_Disabled :: int
  ar_PromForDuration :: int
  ar_PromQl :: string
  ar_RuleConfig :: string
  ar_EnableStime :: string
  ar_EnableEtime :: string
  ar_EnableDaysOfWeek :: string
  ar_EnableInBG :: int
  ar_NotifyRecovered :: int
  ar_NotifyChannels :: string
  ar_NotifyChannelsJSON :: "string list"
  ar_NotifyGroups :: string
  ar_NotifyGroupsJSON :: "string list"
  ar_NotifyRepeatStep :: int
  ar_NotifyMaxNumber :: int
  ar_RecoverDuration :: int
  ar_Callbacks :: string
  ar_CallbacksJSON :: "string list"
  ar_RunbookUrl :: string
  ar_AppendTagsJSON :: "string list"
  ar_CronPattern :: string
  ar_NotifyRuleIds :: "int list"
  ar_Annotations :: string
  ar_RuleConfigJson :: gval
  ar_ExtraConfigJSON :: gval
  ar_EventRelabelConfig :: "RelabelConfig list"
  ar_PipelineConfigs :: "PipelineConfig list"
  ar_DatasourceIds :: string

definition zero_rule :: AlertRule where
  "zero_rule = \<lparr>ar_Id = 0, ar_GroupId = 0, ar_Cate = [], ar_Name = [], ar_Note = [], ar_Prod = [],
     ar_Algorithm = [], ar_Disabled = 0, ar_PromForDuration = 0, ar_PromQl = [], ar_RuleConfig = [],
     ar_EnableStime = [], ar_EnableEtime = [], ar_EnableDaysOfWeek = [], ar_EnableInBG = 0,
     ar_NotifyRecovered = 0, ar_NotifyChannels = [], ar_NotifyChannelsJSON = [],
     ar_NotifyGroups = [], ar_NotifyGroupsJSON = [], ar_NotifyRepeatStep = 0,
     ar_NotifyMaxNumber = 0, ar_RecoverDuration = 0, ar_Callbacks = [], ar_CallbacksJSON = [],
     ar_RunbookUrl = [], ar_AppendTagsJSON = [], ar_CronPattern = [], ar_NotifyRuleIds = [],
     ar_Annotations = [], ar_RuleConfigJson = VNil, ar_ExtraConfigJSON = VNil, ar_EventRelabelConfig = [],
     ar_PipelineConfigs = [], ar_DatasourceIds = []\<rparr>"

text \<open>Severities (\<^verbatim>\<open>models/alert_rule.go\<close>): a smaller number is more severe.\<close>

text \<open>\<^verbatim>\<open>dispatch.EventMuteHookFunc\<close>: a hook drops an event or lets it pass, and may update the state of
  the modules behind it. A nil event is \<open>None\<close>.\<close>

type_synonym 's EventMuteHookFunc = "AlertCurEvent option \<Rightarrow> 's \<Rightarrow> bool \<times> 's"

definition SeverityEmergency :: int where "SeverityEmergency = 1"
definition SeverityWarning :: int where "SeverityWarning = 2"
definition SeverityNotice :: int where "SeverityNotice = 3"
definition SeverityLowest :: int where "SeverityLowest = 4"

text \<open>\<^verbatim>\<open>RecoverJudge\<close>.\<close>

definition Origin :: int where "Origin = 0"
definition NotRecoverWhenNoData :: int where "NotRecoverWhenNoData = 1"
definition RecoverOnCondition :: int where "RecoverOnCondition = 2"

section \<open>From a rule to an event\<close>

definition UpdateEvent :: "AlertRule \<Rightarrow> AlertCurEvent \<Rightarrow> AlertCurEvent" where
  "UpdateEvent ar e = e\<lparr>
     ev_GroupId := ar_GroupId ar, ev_Cate := ar_Cate ar, ev_RuleId := ar_Id ar,
     ev_RuleName := ar_Name ar, ev_RuleNote := ar_Note ar, ev_RuleProd := ar_Prod ar,
     ev_RuleAlgo := ar_Algorithm ar, ev_PromForDuration := ar_PromForDuration ar,
     ev_Callbacks := ar_Callbacks ar, ev_CallbacksJSON := ar_CallbacksJSON ar,
     ev_RunbookUrl := ar_RunbookUrl ar, ev_NotifyRecovered := ar_NotifyRecovered ar,
     ev_NotifyChannels := ar_NotifyChannels ar, ev_NotifyChannelsJSON := ar_NotifyChannelsJSON ar,
     ev_NotifyGroups := ar_NotifyGroups ar, ev_NotifyGroupsJSON := ar_NotifyGroupsJSON ar\<rparr>"

definition GenerateNewEvent :: "AlertRule \<Rightarrow> AlertCurEvent" where
  "GenerateNewEvent ar = UpdateEvent ar zero_event"

fun any_eq :: "int \<Rightarrow> int list \<Rightarrow> bool" where
  "any_eq tgId [] = False"
| "any_eq tgId (i # is) = (if tgId = i then True else any_eq tgId is)"

fun match_group_ids :: "int list \<Rightarrow> int list \<Rightarrow> bool" where
  "match_group_ids [] gid = False"
| "match_group_ids (tgId # ts) gid = (if any_eq tgId gid then True else match_group_ids ts gid)"

definition MatchGroupId :: "Target \<Rightarrow> int list \<Rightarrow> bool" where
  "MatchGroupId t gid = match_group_ids (tg_GroupIds t) gid"

section \<open>The labels of an event\<close>

fun tags_of_pairs :: "tags \<Rightarrow> string list \<Rightarrow> tags" where
  "tags_of_pairs m [] = m"
| "tags_of_pairs m (p # ps) =
     (let pair = TrimSpace p in
      if pair = [] then tags_of_pairs m ps
      else case SplitN2 CHR ''='' pair of
             [k, v] \<Rightarrow> tags_of_pairs (mput k v m) ps
           | _ \<Rightarrow> tags_of_pairs m ps)"

definition SetTagsMap :: "AlertCurEvent \<Rightarrow> AlertCurEvent" where
  "SetTagsMap e = e\<lparr>ev_TagsMap := tags_of_pairs [] (ev_TagsJSON e)\<rparr>"

definition FillTagsMap :: "AlertCurEvent \<Rightarrow> AlertCurEvent" where
  "FillTagsMap e = e\<lparr>ev_TagsMap := tags_of_pairs [] (ev_TagsJSON e)\<rparr>"

definition ev_FE2DB :: "stdlib \<Rightarrow> AlertCurEvent \<Rightarrow> AlertCurEvent" where
  "ev_FE2DB L e = e\<lparr>
     ev_NotifyChannels := Join '' '' (ev_NotifyChannelsJSON e),
     ev_NotifyGroups := Join '' '' (ev_NotifyGroupsJSON e),
     ev_Callbacks := Join '' '' (ev_CallbacksJSON e),
     ev_Tags := Join '',,'' (ev_TagsJSON e),
     ev_OriginalTags := Join '',,'' (ev_OriginalTagsJSON e),
     ev_Annotations := json_marshal L (VMap (map (\<lambda>(k, v). (k, VString v)) (ev_AnnotationsJSON e))),
     ev_RuleConfig := json_marshal L (ev_RuleConfigJson e)\<rparr>"

definition DB2Mem :: "AlertCurEvent \<Rightarrow> AlertCurEvent" where
  "DB2Mem e =
     (let e1 = e\<lparr>ev_IsRecovered := False,
                 ev_NotifyGroupsJSON := Fields (ev_NotifyGroups e),
                 ev_CallbacksJSON := Fields (ev_Callbacks e),
                 ev_NotifyChannelsJSON := Fields (ev_NotifyChannels e),
                 ev_TagsJSON := SplitStr '',,'' (ev_Tags e)\<rparr>;
          e2 = e1\<lparr>ev_TagsMap := tags_of_pairs [] (ev_TagsJSON e1)\<rparr>
      in if ev_FirstTriggerTime e2 = 0 then e2\<lparr>ev_FirstTriggerTime := ev_TriggerTime e2\<rparr> else e2)"

lemma any_eq_iff: "any_eq x is \<longleftrightarrow> x \<in> set is"
  by (induction "is") auto

lemma MatchGroupId_iff: "MatchGroupId t gid \<longleftrightarrow> set (tg_GroupIds t) \<inter> set gid \<noteq> {}"
proof -
  have "match_group_ids ts gid \<longleftrightarrow> set ts \<inter> set gid \<noteq> {}" for ts
    by (induction ts) (auto simp: any_eq_iff)
  then show ?thesis by (simp add: MatchGroupId_def)
qed

text \<open>The fields a rule writes into an event are the only ones \<^verbatim>\<open>UpdateEvent\<close> touches.\<close>

lemma UpdateEvent_frame [simp]:
  "ev_Hash (UpdateEvent ar e) = ev_Hash e" "ev_Severity (UpdateEvent ar e) = ev_Severity e"
  "ev_TagsMap (UpdateEvent ar e) = ev_TagsMap e" "ev_Tags (UpdateEvent ar e) = ev_Tags e"
  "ev_LastEvalTime (UpdateEvent ar e) = ev_LastEvalTime e"
  "ev_LastSentTime (UpdateEvent ar e) = ev_LastSentTime e"
  "ev_IsRecovered (UpdateEvent ar e) = ev_IsRecovered e"
  "ev_NotifyCurNumber (UpdateEvent ar e) = ev_NotifyCurNumber e"
  "ev_FirstTriggerTime (UpdateEvent ar e) = ev_FirstTriggerTime e"
  by (simp_all add: UpdateEvent_def)



end
