(* ===== verification/Tag_Matchers.thy ===== *)
theory Tag_Matchers
  imports Tag_Filter
begin

text \<open>
  The tag matcher of the custom modules. The packages \<^verbatim>\<open>internal/custom/mute\<close>, \<^verbatim>\<open>.../suppress\<close> and
  \<^verbatim>\<open>.../denoise\<close> each hold a copy of it (\<^verbatim>\<open>tagfilter.go\<close>); the locale \<open>tag_matcher\<close> is the contract the
  three copies share and under which their clients use them. The last section compares the custom
  matcher with the native one of \<open>Tag_Filter\<close>.
\<close>

section \<open>The three copies\<close>

definition mute_matchSingleTagFilter :: "tags \<Rightarrow> TagFilter \<Rightarrow> bool" where
  "mute_matchSingleTagFilter tags f =
     (let val = mget tags (tf_Key f) in
      if tf_Func f = ''=='' then
        (case val of None \<Rightarrow> False | Some v \<Rightarrow> (case tf_Value f of VString s \<Rightarrow> v = s | _ \<Rightarrow> False))
      else if tf_Func f = ''!='' then
        (case val of None \<Rightarrow> True | Some v \<Rightarrow> (case tf_Value f of VString s \<Rightarrow> v \<noteq> s | _ \<Rightarrow> True))
      else if tf_Func f = ''=~'' then
        (case val of None \<Rightarrow> False | Some v \<Rightarrow> (case tf_Regexp f of None \<Rightarrow> False | Some re \<Rightarrow> re v))
      else if tf_Func f = ''!~'' then
        (case val of None \<Rightarrow> True | Some v \<Rightarrow> (case tf_Regexp f of None \<Rightarrow> True | Some re \<Rightarrow> \<not> re v))
      else if tf_Func f = ''in'' then
        (case val of None \<Rightarrow> False | Some v \<Rightarrow> v \<in> set (tf_Vset f))
      else if tf_Func f = ''not in'' then
        (case val of None \<Rightarrow> True | Some v \<Rightarrow> v \<notin> set (tf_Vset f))
      else False)"

fun mute_matchAllTagFilters :: "tags \<Rightarrow> TagFilter list \<Rightarrow> bool" where
  "mute_matchAllTagFilters tags [] = True"
| "mute_matchAllTagFilters tags (f # fs) =
     (if \<not> mute_matchSingleTagFilter tags f then False else mute_matchAllTagFilters tags fs)"

definition suppress_matchSingleTagFilter :: "tags \<Rightarrow> TagFilter \<Rightarrow> bool" where
  "suppress_matchSingleTagFilter tags f =
     (let val = mget tags (tf_Key f) in
      if tf_Func f = ''=='' then
        (case val of None \<Rightarrow> False | Some v \<Rightarrow> (case tf_Value f of VString s \<Rightarrow> v = s | _ \<Rightarrow> False))
      else if tf_Func f = ''!='' then
        (case val of None \<Rightarrow> True | Some v \<Rightarrow> (case tf_Value f of VString s \<Rightarrow> v \<noteq> s | _ \<Rightarrow> True))
      else if tf_Func f = ''=~'' then
        (case val of None \<Rightarrow> False | Some v \<Rightarrow> (case tf_Regexp f of None \<Rightarrow> False | Some re \<Rightarrow> re v))
      else if tf_Func f = ''!~'' then
        (case val of None \<Rightarrow> True | Some v \<Rightarrow> (case tf_Regexp f of None \<Rightarrow> True | Some re \<Rightarrow> \<not> re v))
      else if tf_Func f = ''in'' then
        (case val of None \<Rightarrow> False | Some v \<Rightarrow> v \<in> set (tf_Vset f))
      else if tf_Func f = ''not in'' then
        (case val of None \<Rightarrow> True | Some v \<Rightarrow> v \<notin> set (tf_Vset f))
      else False)"

fun suppress_matchAllTagFilters :: "tags \<Rightarrow> TagFilter list \<Rightarrow> bool" where
  "suppress_matchAllTagFilters tags [] = True"
| "suppress_matchAllTagFilters tags (f # fs) =
     (if \<not> suppress_matchSingleTagFilter tags f then False else suppress_matchAllTagFilters tags fs)"

definition denoise_matchSingleTagFilter :: "tags \<Rightarrow> TagFilter \<Rightarrow> bool" where
  "denoise_matchSingleTagFilter tags f =
     (let val = mget tags (tf_Key f) in
      if tf_Func f = ''=='' then
        (case val of None \<Rightarrow> False | Some v \<Rightarrow> (case tf_Value f of VString s \<Rightarrow> v = s | _ \<Rightarrow> False))
      else if tf_Func f = ''!='' then
        (case val of None \<Rightarrow> True | Some v \<Rightarrow> (case tf_Value f of VString s \<Rightarrow> v \<noteq> s | _ \<Rightarrow> True))
      else if tf_Func f = ''=~'' then
        (case val of None \<Rightarrow> False | Some v \<Rightarrow> (case tf_Regexp f of None \<Rightarrow> False | Some re \<Rightarrow> re v))
      else if tf_Func f = ''!~'' then
        (case val of None \<Rightarrow> True | Some v \<Rightarrow> (case tf_Regexp f of None \<Rightarrow> True | Some re \<Rightarrow> \<not> re v))
      else if tf_Func f = ''in'' then
        (case val of None \<Rightarrow> False | Some v \<Rightarrow> v \<in> set (tf_Vset f))
      else if tf_Func f = ''not in'' then
        (case val of None \<Rightarrow> True | Some v \<Rightarrow> v \<notin> set (tf_Vset f))
      else False)"

fun denoise_matchAllTagFilters :: "tags \<Rightarrow> TagFilter list \<Rightarrow> bool" where
  "denoise_matchAllTagFilters tags [] = True"
| "denoise_matchAllTagFilters tags (f # fs) =
     (if \<not> denoise_matchSingleTagFilter tags f then False else denoise_matchAllTagFilters tags fs)"

text \<open>\<^verbatim>\<open>decodeTagFilters\<close> of mute and suppress, and \<^verbatim>\<open>parseTagFilters\<close> of denoise.\<close>

definition decodeTagFilters :: "stdlib \<Rightarrow> string \<Rightarrow> string + TagFilter list" where
  "decodeTagFilters L raw =
     (if raw = [] then Inr []
      else case json_filters L raw of Inl e \<Rightarrow> Inl e | Inr fs \<Rightarrow> ParseTagFilter L fs)"

definition parseTagFilters :: "stdlib \<Rightarrow> string \<Rightarrow> string + TagFilter list" where
  "parseTagFilters L raw =
     (if length raw = 0 then Inr []
      else case json_filters L raw of Inl e \<Rightarrow> Inl e | Inr fs \<Rightarrow> ParseTagFilter L fs)"

section \<open>The contract\<close>

text \<open>The operator with the opposite meaning.\<close>

definition negate_func :: "string \<Rightarrow> string" where
  "negate_func op =
     (if op = ''=='' then ''!='' else if op = ''!='' then ''==''
      else if op = ''=~'' then ''!~'' else if op = ''!~'' then ''=~''
      else if op = ''in'' then ''not in'' else if op = ''not in'' then ''in'' else op)"

definition negative_funcs :: "string list" where
  "negative_funcs = [''!='', ''!~'', ''not in'']"

lemmas func_defs = filter_funcs_def negative_funcs_def negate_func_def

locale tag_matcher =
  fixes single :: "tags \<Rightarrow> TagFilter \<Rightarrow> bool"
    and every :: "tags \<Rightarrow> TagFilter list \<Rightarrow> bool"
  assumes every_Nil: "every t []"
    and every_Cons: "every t (f # fs) \<longleftrightarrow> single t f \<and> every t fs"
    and single_absent:
      "mget t (tf_Key f) = None \<Longrightarrow> single t f \<longleftrightarrow> tf_Func f \<in> set negative_funcs"
    and single_local:
      "mget t (tf_Key f) = mget u (tf_Key f) \<Longrightarrow> single t f = single u f"
    and single_negate:
      "tf_Func f \<in> set filter_funcs \<Longrightarrow> single t (f\<lparr>tf_Func := negate_func (tf_Func f)\<rparr>) \<longleftrightarrow> \<not> single t f"
    and single_unknown: "tf_Func f \<notin> set filter_funcs \<Longrightarrow> \<not> single t f"
begin

lemma every_iff: "every t fs \<longleftrightarrow> (\<forall>f \<in> set fs. single t f)"
  by (induction fs) (auto simp: every_Nil every_Cons)

lemma every_append: "every t (fs @ gs) \<longleftrightarrow> every t fs \<and> every t gs"
  by (auto simp: every_iff)

lemma every_antimono: "set fs \<subseteq> set gs \<Longrightarrow> every t gs \<Longrightarrow> every t fs"
  by (auto simp: every_iff)

text \<open>A label no filter mentions does not matter.\<close>

lemma every_frame: "\<forall>f \<in> set fs. tf_Key f \<noteq> k \<Longrightarrow> every (mput k v t) fs = every t fs"
  by (auto simp: every_iff intro!: single_local ball_cong)

lemma every_agree:
  "\<forall>f \<in> set fs. mget t (tf_Key f) = mget u (tf_Key f) \<Longrightarrow> every t fs = every u fs"
  by (auto simp: every_iff dest: single_local)

end

lemmas single_defs =
  mute_matchSingleTagFilter_def suppress_matchSingleTagFilter_def denoise_matchSingleTagFilter_def

interpretation mute_m: tag_matcher mute_matchSingleTagFilter mute_matchAllTagFilters
  by unfold_locales
    (auto simp: single_defs func_defs Let_def split: option.splits gval.splits if_splits)

interpretation suppress_m: tag_matcher suppress_matchSingleTagFilter suppress_matchAllTagFilters
  by unfold_locales
    (auto simp: single_defs func_defs Let_def split: option.splits gval.splits if_splits)

interpretation denoise_m: tag_matcher denoise_matchSingleTagFilter denoise_matchAllTagFilters
  by unfold_locales
    (auto simp: single_defs func_defs Let_def split: option.splits gval.splits if_splits)

section \<open>The copies agree\<close>

lemma single_copies:
  "suppress_matchSingleTagFilter = mute_matchSingleTagFilter"
  "denoise_matchSingleTagFilter = mute_matchSingleTagFilter"
  by (intro ext, simp only: single_defs)+

lemma all_copies:
  "suppress_matchAllTagFilters t fs = mute_matchAllTagFilters t fs"
  "denoise_matchAllTagFilters t fs = mute_matchAllTagFilters t fs"
  by (simp_all add: suppress_m.every_iff mute_m.every_iff denoise_m.every_iff single_copies)

text \<open>The tag matchers that mute, suppress and denoise each carry a copy of give the same answer
  on every tag map and every list of filters, and each is the conjunction of its filters.\<close>

theorem tag_matcher_copies_agree:
  "suppress_matchAllTagFilters t fs = mute_matchAllTagFilters t fs
   \<and> denoise_matchAllTagFilters t fs = mute_matchAllTagFilters t fs
   \<and> mute_matchAllTagFilters t fs = list_all (mute_matchSingleTagFilter t) fs"
  by (simp add: all_copies mute_m.every_iff list_all_iff)

section \<open>Against the native matcher\<close>

text \<open>On the set and regular-expression operators, for a label the event carries, the custom and the
  native matcher agree.\<close>

lemma native_agrees_present:
  assumes "compiled f" and "tf_Key f \<noteq> ''target_group''" and "mget m (tf_Key f) = Some v"
    and "tf_Func f \<in> {''in'', ''not in'', ''=~'', ''!~''}"
  shows "match_one L m f = Some (mute_matchSingleTagFilter m f)"
  using assms
  by (auto simp: match_one_def matchTag_def mute_matchSingleTagFilter_def compiled_def Let_def)

text \<open>The equality operators agree when neither side carries surrounding white space and the value
  of the filter is a string.\<close>

lemma native_agrees_equal:
  assumes "tf_Key f \<noteq> ''target_group''" and "mget m (tf_Key f) = Some v"
    and "tf_Value f = VString s" "TrimSpace s = s" "TrimSpace v = v"
    and "tf_Func f \<in> {''=='', ''!=''}"
  shows "match_one L m f = Some (mute_matchSingleTagFilter m f)"
  using assms
  by (auto simp: match_one_def matchTag_def mute_matchSingleTagFilter_def Let_def)

definition trimmed :: "tags \<Rightarrow> TagFilter \<Rightarrow> bool" where
  "trimmed m f \<longleftrightarrow>
     (tf_Func f \<in> {''=='', ''!=''} \<longrightarrow>
       (\<exists>s v. tf_Value f = VString s \<and> mget m (tf_Key f) = Some v \<and> TrimSpace s = s \<and> TrimSpace v = v))"

lemma native_agrees_one:
  assumes "compiled f" "tf_Key f \<noteq> ''target_group''" "mget m (tf_Key f) \<noteq> None" "trimmed m f"
    "tf_Func f \<in> set filter_funcs"
  shows "match_one L m f = Some (mute_matchSingleTagFilter m f)"
proof (cases "tf_Func f \<in> {''=='', ''!=''}")
  case True
  with assms show ?thesis
    by (auto simp: trimmed_def intro!: native_agrees_equal)
next
  case False
  with assms show ?thesis
    by (auto simp: filter_funcs_def intro!: native_agrees_present)
qed

text \<open>Where every filter names a label the event has, is compiled, is not on the special key
  target_group and, for the equality operators, compares strings without surrounding white space,
  the native matcher does not panic and decides exactly as the custom one.\<close>

theorem native_custom_agree:
  assumes "\<forall>f \<in> set fs. compiled f \<and> tf_Key f \<noteq> ''target_group'' \<and> mget m (tf_Key f) \<noteq> None
             \<and> trimmed m f \<and> tf_Func f \<in> set filter_funcs"
  shows "MatchTags L m fs = Some (mute_matchAllTagFilters m fs)"
  using assms
  by (induction fs) (auto simp: native_agrees_one)

theorem native_custom_agree_witness:
  "MatchTags literal_lib [(''host'', ''db01'')]
     [(raw_filter ''host'' ''in'' (VString ''db01''))\<lparr>tf_Vset := [''db01'']\<rparr>,
      raw_filter ''host'' ''=='' (VString ''db01'')] = Some True"
proof -
  have "TrimSpace ''db01'' = ''db01''" by code_simp
  then show ?thesis
    using native_custom_agree [of "[(raw_filter ''host'' ''in'' (VString ''db01''))\<lparr>tf_Vset := [''db01'']\<rparr>,
      raw_filter ''host'' ''=='' (VString ''db01'')]" "[(''host'', ''db01'')]" literal_lib]
    by (simp add: raw_filter_def compiled_def trimmed_def filter_funcs_def mute_matchSingleTagFilter_def)
qed

text \<open>The two matchers part on an absent label: for a negative operator the native matcher
  rejects the event while the custom one accepts it, although the comment above the custom matcher
  says a missing key is treated as upstream does.\<close>

theorem absent_label_diverges:
  assumes "tf_Key f \<noteq> ''target_group''" and "mget m (tf_Key f) = None"
    and "tf_Func f \<in> set negative_funcs"
  shows "MatchTags L m (f # fs) = Some False \<and> denoise_matchAllTagFilters m [f]"
proof
  show "MatchTags L m (f # fs) = Some False"
    using assms by (simp add: match_one_def)
  show "denoise_matchAllTagFilters m [f]"
    using assms by (simp add: denoise_m.single_absent)
qed

theorem absent_label_diverges_witness:
  "MatchTags literal_lib [(''host'', ''db01'')] [raw_filter ''env'' ''!='' (VString ''test'')] = Some False
   \<and> denoise_matchAllTagFilters [(''host'', ''db01'')] [raw_filter ''env'' ''!='' (VString ''test'')]"
  by (rule absent_label_diverges) (simp_all add: raw_filter_def negative_funcs_def)

text \<open>The native matcher never panics on filters that \<^verbatim>\<open>ParseTagFilter\<close> has compiled, as long
  as none of them is on the key target_group.\<close>

lemma parsed_filters_never_panic:
  assumes "ParseTagFilter L fs = Inr gs" and "\<forall>f \<in> set fs. tf_Key f \<noteq> ''target_group''"
  shows "\<exists>b. MatchTags L m gs = Some b"
proof -
  from assms(1) have l: "list_all2 (compiled_by (filter_vset L)) fs gs"
    by (simp add: ParseTagFilter_def compile_all_compiled)
  then have "list_all (\<lambda>g. tf_Key g \<noteq> ''target_group'') gs"
    using assms(2) by (induction rule: list_all2_induct) (auto simp: compiled_by_def raw_eq_def)
  with list_all2_compiled [OF l] have "list_all (\<lambda>g. match_one L m g \<noteq> None) gs"
    using match_one_compiled by (auto simp: list_all_iff)
  then show ?thesis
    by (blast dest: MatchTags_total)
qed

end
