(* ===== verification/Ttl_Index.thy ===== *)
theory Ttl_Index
  imports N9e_Prelude
begin

text \<open>
  The contract of the two in-memory indexes of the custom modules, the root causes of
  \<^verbatim>\<open>suppress/index.go\<close> and the active incidents of \<^verbatim>\<open>denoise/index.go\<close>: a map whose entries are in
  force for a fixed number of seconds after they were written, from which entries can be removed one
  by one or, once they are too old, by a sweep. The locale \<open>ttl_index\<close> states the laws and derives
  what a client sees after any sequence of operations.
\<close>

datatype ('k, 'v) index_op = Put int 'k 'v | Forget 'k | Sweep int

fun run_ops ::
  "(int \<Rightarrow> 'k \<Rightarrow> 'v \<Rightarrow> 'i \<Rightarrow> 'i) \<Rightarrow> ('k \<Rightarrow> 'i \<Rightarrow> 'i) \<Rightarrow> (int \<Rightarrow> 'i \<Rightarrow> 'i) \<Rightarrow> ('k, 'v) index_op list \<Rightarrow> 'i \<Rightarrow> 'i" where
  "run_ops put forget sweep [] i = i"
| "run_ops put forget sweep (Put t k v # ops) i = run_ops put forget sweep ops (put t k v i)"
| "run_ops put forget sweep (Forget k # ops) i = run_ops put forget sweep ops (forget k i)"
| "run_ops put forget sweep (Sweep t # ops) i = run_ops put forget sweep ops (sweep t i)"

text \<open>The operations that leave key \<open>k\<close> alone for a reader at time \<open>now\<close>.\<close>

fun spares :: "'k \<Rightarrow> int \<Rightarrow> ('k, 'v) index_op \<Rightarrow> bool" where
  "spares k now (Put t k' v) \<longleftrightarrow> k' \<noteq> k"
| "spares k now (Forget k') \<longleftrightarrow> k' \<noteq> k"
| "spares k now (Sweep t) \<longleftrightarrow> t \<le> now"

locale ttl_index =
  fixes inv :: "'i \<Rightarrow> bool"
    and ttl :: int
    and look :: "int \<Rightarrow> 'k \<Rightarrow> 'i \<Rightarrow> 'v option"
    and put :: "int \<Rightarrow> 'k \<Rightarrow> 'v \<Rightarrow> 'i \<Rightarrow> 'i"
    and forget :: "'k \<Rightarrow> 'i \<Rightarrow> 'i"
    and sweep :: "int \<Rightarrow> 'i \<Rightarrow> 'i"
  assumes inv_put: "inv i \<Longrightarrow> inv (put t k v i)"
    and inv_forget: "inv i \<Longrightarrow> inv (forget k i)"
    and inv_sweep: "inv i \<Longrightarrow> inv (sweep t i)"
    and look_put: "inv i \<Longrightarrow> 0 \<le> t \<Longrightarrow> look now k (put t k v i) = (if now \<le> t + ttl then Some v else None)"
    and look_put_other: "inv i \<Longrightarrow> k' \<noteq> k \<Longrightarrow> look now k (put t k' v i) = look now k i"
    and look_forget: "inv i \<Longrightarrow> look now k (forget k' i) = (if k' = k then None else look now k i)"
    and look_sweep: "inv i \<Longrightarrow> t \<le> now \<Longrightarrow> look now k (sweep t i) = look now k i"
begin

lemma inv_run: "inv i \<Longrightarrow> inv (run_ops put forget sweep ops i)"
proof (induction ops arbitrary: i)
  case (Cons op ops)
  then show ?case by (cases op) (simp_all add: inv_put inv_forget inv_sweep)
qed simp

lemma run_frame:
  "inv i \<Longrightarrow> \<forall>op \<in> set ops. spares k now op \<Longrightarrow> look now k (run_ops put forget sweep ops i) = look now k i"
proof (induction ops arbitrary: i)
  case (Cons op ops)
  then show ?case
    by (cases op) (simp_all add: inv_put inv_forget inv_sweep look_put_other look_forget look_sweep)
qed simp

lemma run_put:
  "inv i \<Longrightarrow> 0 \<le> t \<Longrightarrow> \<forall>op \<in> set ops. spares k now op \<Longrightarrow>
   look now k (run_ops put forget sweep ops (put t k v i)) = (if now \<le> t + ttl then Some v else None)"
  by (simp add: run_frame inv_put look_put)

lemma run_forget:
  "inv i \<Longrightarrow> \<forall>op \<in> set ops. spares k now op \<Longrightarrow>
   look now k (run_ops put forget sweep ops (forget k i)) = None"
  by (simp add: run_frame inv_forget look_forget)

end

end
