(* ===== verification/Denoise.thy ===== *)
theory Denoise
  imports Alert_Event Tag_Matchers Ttl_Index
begin

text \<open>
  The parts of the noise reduction, \<^verbatim>\<open>internal/custom/denoise\<close>, that do not touch the data base: the
  incident key (\<^verbatim>\<open>key.go\<close>), the choice of the aggregation rule (\<^verbatim>\<open>match.go\<close>), the cache of active
  incidents (\<^verbatim>\<open>index.go\<close>) and the detection of alert storms (\<^verbatim>\<open>storm.go\<close>). The aggregator that puts them
  together is in \<open>Aggregator\<close>.
\<close>

section \<open>Incident keys\<close>

definition keyPairSep :: string where "keyPairSep = ''|''"
definition keyKVSep :: string where "keyKVSep = ''=''"
definition keyMissingValue :: string where "keyMissingValue = ''<absent>''"

fun build_loop :: "tags \<Rightarrow> nat \<Rightarrow> string list \<Rightarrow> string \<Rightarrow> string" where
  "build_loop tags i [] b = b"
| "build_loop tags i (dm # dims) b =
     build_loop tags (Suc i) dims
       (b @ (if i > 0 then keyPairSep else []) @ dm @ keyKVSep
          @ (case mget tags dm of
               Some v \<Rightarrow> if v \<noteq> [] then v else keyMissingValue
             | None \<Rightarrow> keyMissingValue))"

definition BuildIncidentKey :: "AlertCurEvent option \<Rightarrow> string list \<Rightarrow> string" where
  "BuildIncidentKey event dimensions =
     (case event of
        None \<Rightarrow> []
      | Some ev \<Rightarrow> if length dimensions = 0 then [] else build_loop (ev_TagsMap ev) 0 (sort dimensions) [])"

fun dim_values_loop :: "tags \<Rightarrow> string list \<Rightarrow> tags \<Rightarrow> tags" where
  "dim_values_loop tags [] out = out"
| "dim_values_loop tags (dm # dims) out =
     dim_values_loop tags dims
       (case mget tags dm of Some v \<Rightarrow> mput dm v out | None \<Rightarrow> mput dm keyMissingValue out)"

definition DimensionValuesMap :: "AlertCurEvent option \<Rightarrow> string list \<Rightarrow> tags" where
  "DimensionValuesMap event dimensions =
     (case event of None \<Rightarrow> [] | Some ev \<Rightarrow> dim_values_loop (ev_TagsMap ev) dimensions [])"

section \<open>Aggregation rules\<close>

record CustomAggregateRule =
  gr_Id :: int
  gr_GroupId :: int
  gr_Name :: string
  gr_Note :: string
  gr_Dimensions :: string
  gr_WindowSec :: int
  gr_Filters :: string
  gr_DatasourceIds :: string
  gr_DatasourceIdsJson :: "int list"
  gr_StormThreshold :: int
  gr_StormWindowSec :: int
  gr_Severities :: string
  gr_SeveritiesJson :: "int list"
  gr_Disabled :: int
  gr_Priority :: int
  gr_CreateBy :: string
  gr_UpdateBy :: string
  gr_CreateAt :: int
  gr_UpdateAt :: int

definition MatchRule :: "stdlib \<Rightarrow> AlertCurEvent option \<Rightarrow> CustomAggregateRule option \<Rightarrow> bool" where
  "MatchRule L event rule =
     (case (rule, event) of
        (Some r, Some ev) \<Rightarrow>
          if gr_Disabled r = 1 then False
          else if gr_GroupId r \<noteq> 0 \<and> gr_GroupId r \<noteq> ev_GroupId ev then False
          else if scope_excludes (gr_DatasourceIdsJson r) (ev_DatasourceId ev) then False
          else if gr_SeveritiesJson r \<noteq> [] \<and> ev_Severity ev \<notin> set (gr_SeveritiesJson r) then False
          else if length (gr_Filters r) > 0 then
            (case parseTagFilters L (gr_Filters r) of
               Inl err \<Rightarrow> False
             | Inr filters \<Rightarrow>
                 if length filters > 0 \<and> \<not> denoise_matchAllTagFilters (ev_TagsMap ev) filters then False else True)
          else True
      | _ \<Rightarrow> False)"

fun best_loop :: "stdlib \<Rightarrow> AlertCurEvent option \<Rightarrow> CustomAggregateRule list \<Rightarrow> CustomAggregateRule option \<Rightarrow> CustomAggregateRule option" where
  "best_loop L event [] best = best"
| "best_loop L event (r # rs) best =
     (if \<not> MatchRule L event (Some r) then best_loop L event rs best
      else case best of
        None \<Rightarrow> best_loop L event rs (Some r)
      | Some b \<Rightarrow>
          if gr_Priority r > gr_Priority b \<or> gr_Priority r = gr_Priority b \<and> gr_Id r < gr_Id b
          then best_loop L event rs (Some r) else best_loop L event rs best)"

definition SelectBestRule :: "stdlib \<Rightarrow> AlertCurEvent option \<Rightarrow> CustomAggregateRule list \<Rightarrow> CustomAggregateRule option" where
  "SelectBestRule L event rules = best_loop L event rules None"

section \<open>The cache of active incidents\<close>

record activeIncidentEntry =
  ai_incidentId :: int
  ai_lastEventAt :: int

type_synonym indexKey = "int \<times> string"

type_synonym ActiveIncidentIndex = "(indexKey, activeIncidentEntry) gomap"

definition NewActiveIncidentIndex :: ActiveIncidentIndex where
  "NewActiveIncidentIndex = []"

definition aii_Get :: "int \<Rightarrow> ActiveIncidentIndex \<Rightarrow> int \<Rightarrow> string \<Rightarrow> int \<Rightarrow> int \<times> bool" where
  "aii_Get now m ruleId key windowSec =
     (case mget m (ruleId, key) of
        None \<Rightarrow> (0, False)
      | Some e \<Rightarrow> if now - ai_lastEventAt e > windowSec then (0, False) else (ai_incidentId e, True))"

definition aii_Put :: "int \<Rightarrow> ActiveIncidentIndex \<Rightarrow> int \<Rightarrow> string \<Rightarrow> int \<Rightarrow> ActiveIncidentIndex" where
  "aii_Put now m ruleId key incidentId =
     mput (ruleId, key) \<lparr>ai_incidentId = incidentId, ai_lastEventAt = now\<rparr> m"

definition aii_Forget :: "ActiveIncidentIndex \<Rightarrow> int \<Rightarrow> string \<Rightarrow> ActiveIncidentIndex" where
  "aii_Forget m ruleId key = mdel (ruleId, key) m"

fun aii_sweep_loop :: "int \<Rightarrow> (indexKey \<times> activeIncidentEntry) list \<Rightarrow> ActiveIncidentIndex \<Rightarrow> nat \<Rightarrow> ActiveIncidentIndex \<times> nat" where
  "aii_sweep_loop cutoff [] m evicted = (m, evicted)"
| "aii_sweep_loop cutoff ((k, e) # rest) m evicted =
     (if ai_lastEventAt e < cutoff then aii_sweep_loop cutoff rest (mdel k m) (Suc evicted)
      else aii_sweep_loop cutoff rest m evicted)"

definition aii_Sweep :: "int \<Rightarrow> ActiveIncidentIndex \<Rightarrow> int \<Rightarrow> ActiveIncidentIndex \<times> nat" where
  "aii_Sweep now m maxAgeSec = aii_sweep_loop (now - maxAgeSec) m m 0"

definition aii_Len :: "ActiveIncidentIndex \<Rightarrow> nat" where
  "aii_Len m = length m"

section \<open>Storms\<close>

text \<open>The counter of an incident is its list of time stamps, oldest first.\<close>

type_synonym stormCounter = "int list"
type_synonym StormDetector = "(int, stormCounter) gomap"

definition NewStormDetector :: StormDetector where
  "NewStormDetector = []"

definition Observe :: "int \<Rightarrow> StormDetector \<Rightarrow> int \<Rightarrow> int \<Rightarrow> int \<Rightarrow> bool \<times> StormDetector" where
  "Observe now s incidentId threshold windowSec =
     (if threshold \<le> 0 then (False, s)
      else
        let cutoff = now - windowSec;
            c = (case mget s incidentId of None \<Rightarrow> [] | Some c \<Rightarrow> c);
            ts = dropWhile (\<lambda>t. t < cutoff) c @ [now]
        in if int (length ts) = threshold then (True, mput incidentId [] s) else (False, mput incidentId ts s))"

definition storm_Forget :: "StormDetector \<Rightarrow> int \<Rightarrow> StormDetector" where
  "storm_Forget s incidentId = mdel incidentId s"

section \<open>Keys identify the values of the dimensions\<close>

definition dim_value :: "tags \<Rightarrow> string \<Rightarrow> string" where
  "dim_value tags d = (case mget tags d of Some v \<Rightarrow> if v \<noteq> [] then v else keyMissingValue | None \<Rightarrow> keyMissingValue)"

lemma build_loop_acc: "build_loop tags i dims b = b @ build_loop tags i dims []"
proof (induction dims arbitrary: i b)
  case (Cons d ds)
  show ?case
    by (simp only: build_loop.simps) (subst Cons.IH, subst (2) Cons.IH, simp)
qed simp

lemma build_loop_Join:
  "build_loop tags i dims [] =
     (if dims = [] then [] else (if i > 0 then ''|'' else []) @ Join ''|'' (map (\<lambda>d. d @ ''='' @ dim_value tags d) dims))"
proof (induction dims arbitrary: i)
  case (Cons d ds)
  have "build_loop tags i (d # ds) [] =
      ((if i > 0 then keyPairSep else []) @ d @ keyKVSep @ dim_value tags d) @ build_loop tags (Suc i) ds []"
    by (simp add: build_loop_acc [of _ _ ds "_ @ _"] dim_value_def)
  also have "\<dots> = (if i > 0 then ''|'' else []) @ Join ''|'' (map (\<lambda>d. d @ ''='' @ dim_value tags d) (d # ds))"
    using Cons.IH [of "Suc i"] by (cases ds) (simp_all add: keyPairSep_def keyKVSep_def del: build_loop.simps(2))
  finally show ?case by simp
qed simp

lemma BuildIncidentKey_Join:
  "dims \<noteq> [] \<Longrightarrow> BuildIncidentKey (Some e) dims =
     Join ''|'' (map (\<lambda>d. d @ ''='' @ dim_value (ev_TagsMap e) d) (sort dims))"
  by (simp add: BuildIncidentKey_def build_loop_Join)

lemma Join_inject:
  assumes "xs \<noteq> []" "ys \<noteq> []" "\<forall>w \<in> set xs. CHR ''|'' \<notin> set w" "\<forall>w \<in> set ys. CHR ''|'' \<notin> set w"
  shows "Join ''|'' xs = Join ''|'' ys \<longleftrightarrow> xs = ys"
  using SplitStr_Join [OF assms(1,3), of "[]"] SplitStr_Join [OF assms(2,4), of "[]"] by metis


definition tagged :: "tags \<Rightarrow> AlertCurEvent" where
  "tagged ts = zero_event\<lparr>ev_TagsMap := ts\<rparr>"


section \<open>The rule of an event\<close>

definition beats :: "CustomAggregateRule \<Rightarrow> CustomAggregateRule \<Rightarrow> bool" where
  "beats r s \<longleftrightarrow> gr_Priority s < gr_Priority r \<or> gr_Priority r = gr_Priority s \<and> gr_Id r \<le> gr_Id s"

lemma beats_trans: "beats r s \<Longrightarrow> beats s t \<Longrightarrow> beats r t"
  by (auto simp: beats_def)

lemma beats_refl [simp]: "beats r r"
  by (simp add: beats_def)

definition pick :: "CustomAggregateRule \<Rightarrow> CustomAggregateRule option \<Rightarrow> CustomAggregateRule" where
  "pick r best = (case best of None \<Rightarrow> r
     | Some b \<Rightarrow> if gr_Priority r > gr_Priority b \<or> gr_Priority r = gr_Priority b \<and> gr_Id r < gr_Id b then r else b)"

lemma best_loop_Cons:
  "best_loop L ev (r # rs) best =
     (if MatchRule L ev (Some r) then best_loop L ev rs (Some (pick r best)) else best_loop L ev rs best)"
  by (cases best) (simp_all add: pick_def)

lemma pick_mem: "Some (pick r best) = best \<or> pick r best = r"
  by (cases best) (simp_all add: pick_def)

lemma pick_beats: "beats (pick r best) r" "best = Some c \<Longrightarrow> beats (pick r best) c"
  by (cases best; auto simp: pick_def beats_def)+

lemma best_loop_None:
  "best_loop L ev rs best = None \<longleftrightarrow> best = None \<and> (\<forall>r \<in> set rs. \<not> MatchRule L ev (Some r))"
  by (induction rs arbitrary: best) (simp_all add: best_loop_Cons del: best_loop.simps(2))

lemma best_loop_mem:
  "best_loop L ev rs best = Some b \<Longrightarrow> best = Some b \<or> b \<in> set rs \<and> MatchRule L ev (Some b)"
proof (induction rs arbitrary: best)
  case (Cons r rs)
  show ?case
  proof (cases "MatchRule L ev (Some r)")
    case True
    with Cons.prems Cons.IH [of "Some (pick r best)"] have "pick r best = b \<or> b \<in> set rs \<and> MatchRule L ev (Some b)"
      by (simp add: best_loop_Cons del: best_loop.simps(2))
    with True pick_mem [of r best] show ?thesis by auto
  next
    case False
    with Cons.prems Cons.IH [of best] show ?thesis by (simp add: best_loop_Cons del: best_loop.simps(2)) blast
  qed
qed simp

lemma best_loop_beats:
  "best_loop L ev rs best = Some b \<Longrightarrow> (best = Some c \<longrightarrow> beats b c) \<and> (r \<in> set rs \<and> MatchRule L ev (Some r) \<longrightarrow> beats b r)"
proof (induction rs arbitrary: best c)
  case (Cons q rs)
  show ?case
  proof (cases "MatchRule L ev (Some q)")
    case True
    with Cons.prems Cons.IH [of "Some (pick q best)" "pick q best"]
    have "beats b (pick q best)" "r \<in> set rs \<and> MatchRule L ev (Some r) \<longrightarrow> beats b r"
      by (simp_all add: best_loop_Cons del: best_loop.simps(2))
    then show ?thesis
      using pick_beats(1) [of q best] pick_beats(2) [of best c q] beats_trans [of b "pick q best"] by auto
  next
    case False
    with Cons.prems Cons.IH [of best c] show ?thesis by (auto simp add: best_loop_Cons simp del: best_loop.simps(2))
  qed
qed simp

text \<open>(C36) The rule that aggregates an event is the best of those that match: none is chosen only when none
  matches, and the chosen one matches and beats every other that does, by higher priority first and
  by smaller id second, whatever the order of the list.\<close>

theorem SelectBestRule_optimal:
  "case SelectBestRule L ev rules of
     None \<Rightarrow> \<forall>r \<in> set rules. \<not> MatchRule L ev (Some r)
   | Some b \<Rightarrow> b \<in> set rules \<and> MatchRule L ev (Some b)
       \<and> (\<forall>r \<in> set rules. MatchRule L ev (Some r) \<longrightarrow> beats b r)"
proof (cases "best_loop L ev rules None")
  case None
  then have "\<forall>r \<in> set rules. \<not> MatchRule L ev (Some r)" by (simp add: best_loop_None)
  with None show ?thesis by (simp only: SelectBestRule_def option.case)
next
  case (Some b)
  with best_loop_mem [OF Some] best_loop_beats [OF Some] show ?thesis by (simp only: SelectBestRule_def option.case) blast
qed

definition plain_rule :: "int \<Rightarrow> int \<Rightarrow> CustomAggregateRule" where
  "plain_rule i p = \<lparr>gr_Id = i, gr_GroupId = 0, gr_Name = [], gr_Note = [], gr_Dimensions = ''dims'', gr_WindowSec = 300,
     gr_Filters = [], gr_DatasourceIds = [], gr_DatasourceIdsJson = [], gr_StormThreshold = 2, gr_StormWindowSec = 60,
     gr_Severities = [], gr_SeveritiesJson = [], gr_Disabled = 0, gr_Priority = p, gr_CreateBy = [], gr_UpdateBy = [],
     gr_CreateAt = 0, gr_UpdateAt = 0\<rparr>"

lemma plain_rule_matches: "MatchRule literal_lib (Some (tagged [])) (Some (plain_rule i p))"
  by (simp add: MatchRule_def plain_rule_def scope_excludes_def)

theorem SelectBestRule_optimal_witness:
  "SelectBestRule literal_lib (Some (tagged [])) [plain_rule 3 1, plain_rule 9 5, plain_rule 4 5] = Some (plain_rule 4 5)
   \<and> beats (plain_rule 4 5) (plain_rule 3 1) \<and> beats (plain_rule 4 5) (plain_rule 9 5)"
proof -
  have "SelectBestRule literal_lib (Some (tagged [])) [plain_rule 3 1, plain_rule 9 5, plain_rule 4 5] = Some (plain_rule 4 5)"
    by (simp add: SelectBestRule_def plain_rule_matches) (simp add: plain_rule_def)
  then show ?thesis
    using SelectBestRule_optimal [where L = literal_lib and ev = "Some (tagged [])"
        and rules = "[plain_rule 3 1, plain_rule 9 5, plain_rule 4 5]"] plain_rule_matches
    by (simp only: option.case) simp
qed

section \<open>The laws of the cache\<close>

definition cached :: "int \<Rightarrow> int \<Rightarrow> indexKey \<Rightarrow> ActiveIncidentIndex \<Rightarrow> int option" where
  "cached w now k m = (case aii_Get now m (fst k) (snd k) w of (i, hit) \<Rightarrow> if hit then Some i else None)"

lemma aii_sweep_get:
  "mget (fst (aii_sweep_loop cutoff es m n)) k =
     (if \<exists>e. (k, e) \<in> set es \<and> ai_lastEventAt e < cutoff then None else mget m k)"
  by (induction es arbitrary: m n) auto

lemma aii_sweep_mwf: "mwf m \<Longrightarrow> mwf (fst (aii_sweep_loop cutoff es m n))"
  by (induction es arbitrary: m n) auto

lemma aii_Sweep_get:
  assumes "mwf m"
  shows "mget (fst (aii_Sweep now m age)) k =
    (case mget m k of None \<Rightarrow> None | Some e \<Rightarrow> if ai_lastEventAt e < now - age then None else Some e)"
  using assms by (auto simp: aii_Sweep_def aii_sweep_get mget_iff_mem [symmetric] split: option.splits)

interpretation incidents: ttl_index mwf w "cached w" "\<lambda>t k i m. aii_Put t m (fst k) (snd k) i"
  "\<lambda>k m. aii_Forget m (fst k) (snd k)" "\<lambda>t m. fst (aii_Sweep t m (w + int d))"
proof (unfold_locales, goal_cases)
  case (3 i t)
  then show ?case by (simp add: aii_Sweep_def aii_sweep_mwf)
next
  case (5 i k' k now t v)
  then have "(fst k, snd k) \<noteq> (fst k', snd k')" by simp
  then show ?case by (simp add: cached_def aii_Get_def aii_Put_def)
next
  case (6 i now k k')
  then show ?case by (simp add: cached_def aii_Get_def aii_Forget_def prod_eq_iff)
next
  case (7 i t now k)
  then show ?case by (simp add: cached_def aii_Get_def aii_Sweep_get split: option.split)
qed (simp_all add: cached_def aii_Get_def aii_Put_def aii_Forget_def)

section \<open>Storms are counted per window\<close>

text \<open>The intended behaviour: an observation fires when it brings the number of observations since the last
  firing that lie in the window to the threshold.\<close>

fun storm_spec :: "int \<Rightarrow> int \<Rightarrow> int list \<Rightarrow> int list \<Rightarrow> bool list" where
  "storm_spec threshold w past [] = []"
| "storm_spec threshold w past (t # ts) =
     (let p = past @ [t];
          fires = threshold \<le> int (length (filter (\<lambda>x. t - w \<le> x) p))
      in fires # storm_spec threshold w (if fires then [] else p) ts)"

fun observe_all :: "StormDetector \<Rightarrow> int \<Rightarrow> int \<Rightarrow> int \<Rightarrow> int list \<Rightarrow> bool list" where
  "observe_all s i threshold w [] = []"
| "observe_all s i threshold w (t # ts) =
     (let (fires, s') = Observe t s i threshold w in fires # observe_all s' i threshold w ts)"

lemma sorted_dropWhile_less: "sorted (xs :: int list) \<Longrightarrow> dropWhile (\<lambda>x. x < c) xs = filter (\<lambda>x. c \<le> x) xs"
  by (induction xs) (auto intro!: filter_True [symmetric])

lemma filter_ge_twice: "c \<le> d \<Longrightarrow> filter (\<lambda>x. d \<le> x) (filter (\<lambda>x. c \<le> x) xs) = filter (\<lambda>x. (d :: int) \<le> x) xs"
  by (auto intro: filter_cong)

lemma observe_all_spec:
  assumes "0 < threshold" "0 \<le> w" "sorted (past @ ts)"
    and "(case mget s i of None \<Rightarrow> [] | Some c \<Rightarrow> c) = filter (\<lambda>x. c \<le> x) past"
    and "\<forall>t \<in> set ts. c \<le> t - w" "int (length (filter (\<lambda>x. c \<le> x) past)) < threshold"
  shows "observe_all s i threshold w ts = storm_spec threshold w past ts"
  using assms
proof (induction ts arbitrary: s past c)
  case (Cons t ts)
  let ?p = "past @ [t]"
  let ?new = "dropWhile (\<lambda>x. x < t - w) (case mget s i of None \<Rightarrow> [] | Some c \<Rightarrow> c) @ [t]"
  have so: "sorted past" "sorted (?p @ ts)" using Cons.prems(3) by (auto simp: sorted_append)
  have c: "c \<le> t - w" using Cons.prems(5) by simp
  have new: "?new = filter (\<lambda>x. t - w \<le> x) ?p"
    using Cons.prems(2,4) so(1) c
    by (simp add: sorted_dropWhile_less sorted_wrt_filter filter_ge_twice del: filter_filter)
  have "length (filter (\<lambda>x. t - w \<le> x) past) \<le> length (filter (\<lambda>x. c \<le> x) past)"
    by (subst filter_ge_twice [OF c, symmetric]) (rule length_filter_le)
  then have len: "int (length ?new) \<le> threshold" using new Cons.prems(2,6) by simp
  have rest: "\<forall>u \<in> set ts. t - w \<le> u - w" using Cons.prems(3) by (auto simp: sorted_append)
  show ?case
  proof (cases "int (length ?new) = threshold")
    case True
    have "observe_all (mput i [] s) i threshold w ts = storm_spec threshold w [] ts"
      by (rule Cons.IH [where c = "t - w"]) (use so(2) rest Cons.prems(1,2) in \<open>simp_all add: sorted_append\<close>)
    with True new show ?thesis using Cons.prems(1,2) by (simp add: Observe_def Let_def)
  next
    case False
    have "observe_all (mput i ?new s) i threshold w ts = storm_spec threshold w ?p ts"
      by (rule Cons.IH [where c = "t - w"]) (use so(2) rest Cons.prems(1,2) new len False in simp_all)
    with False new len show ?thesis using Cons.prems(1,2) by (simp add: Observe_def Let_def)
  qed
qed simp

text \<open>(C35) Storm detection is right for a rule whose threshold does not change. On observations in the order
  of time, trimming the counter, appending and comparing for equality fires exactly when at least
  \<open>threshold\<close> observations since the last firing lie in the window.\<close>

theorem storm_detection_correct:
  assumes "0 < threshold" "0 \<le> w" "sorted ts" "mget s i = None"
  shows "observe_all s i threshold w ts = storm_spec threshold w [] ts"
proof (cases ts)
  case (Cons t us)
  then have "\<forall>u \<in> set ts. t - w \<le> u - w" using assms(3) by auto
  then show ?thesis using observe_all_spec [of threshold w "[]" ts s i "t - w"] assms by simp
qed simp

theorem storm_detection_correct_witness:
  "observe_all NewStormDetector 1 3 60 [0, 50, 100, 110, 120, 130, 200] = [False, False, False, True, False, False, False]
   \<and> storm_spec 3 60 [] [0, 50, 100, 110, 120, 130, 200] = [False, False, False, True, False, False, False]"
proof -
  have run: "observe_all NewStormDetector 1 3 60 [0, 50, 100, 110, 120, 130, 200] = [False, False, False, True, False, False, False]"
    by code_simp
  have spec: "observe_all NewStormDetector 1 3 60 [0, 50, 100, 110, 120, 130, 200] =
      storm_spec 3 60 [] [0, 50, 100, 110, 120, 130, 200]"
    by (rule storm_detection_correct) (simp_all add: NewStormDetector_def)
  show ?thesis by (rule conjI [OF run trans [OF spec [symmetric] run]])
qed

text \<open>A threshold that is lowered below the number of counted observations delays the storm: with three
  observations counted under a threshold of four, an operator who sets the threshold to two gets no
  storm from the next observation, although four lie in the window.\<close>

theorem storm_lowered_threshold:
  "fst (Observe 4 [(1, [1, 2, 3])] 1 2 60) = False
   \<and> snd (Observe 4 [(1, [1, 2, 3])] 1 2 60) = [(1, [1, 2, 3, 4])]
   \<and> snd (Observe 3 (snd (Observe 2 (snd (Observe 1 NewStormDetector 1 4 60)) 1 4 60)) 1 4 60) = [(1, [1, 2, 3])]"
  by (simp add: Observe_def NewStormDetector_def mput_def Let_def)

end
