(* ===== verification/Workflow.thy ===== *)
theory Workflow
  imports Alert_Event
begin

text \<open>
  The workflow engine of the event pipelines: the data of \<^verbatim>\<open>models/workflow.go\<close>, the view of a stored
  pipeline as a graph (\<^verbatim>\<open>models/event_pipeline.go\<close>), the registry of processors
  (\<^verbatim>\<open>models/event_processor.go\<close>) and the execution of the graph with Kahn's algorithm
  (\<^verbatim>\<open>alert/pipeline/engine/engine.go\<close>).

  A processor gets a pointer to the context. It may change the context in place and it returns the same
  pointer, nil, or another context; the engine keeps its own pointer, so only changes made in place
  reach the next node. A processor may also act on state outside of the context, the type \<open>'s\<close>.
  Time stamps and durations of the results are not part of the model.
\<close>

section \<open>Data\<close>

record WorkflowContext =
  wc_Event :: "AlertCurEvent option"
  wc_Env :: tags
  wc_Vars :: "(string, gval) gomap"
  wc_Metadata :: tags
  wc_Stream :: bool
  wc_StreamChan :: bool

record WorkflowNode =
  wn_ID :: string
  wn_Name :: string
  wn_Type :: string
  wn_Config :: gval
  wn_Disabled :: bool
  wn_ContinueOnFail :: bool
  wn_RetryOnFail :: bool
  wn_MaxRetries :: int
  wn_RetryInterval :: int

record ConnectionTarget =
  ct_Node :: string
  ct_Type :: string
  ct_Index :: int

text \<open>The connections of a node: for each output port the targets it leads to.\<close>

type_synonym NodeConnections = "ConnectionTarget list list"
type_synonym Connections = "(string, NodeConnections) gomap"

record EnvVariable =
  env_Key :: string
  env_Value :: string
  env_Secret :: bool
  env_Required :: bool

datatype returned = Same | Nil | Other WorkflowContext

record NodeOutput =
  no_WfCtx :: returned
  no_Message :: string
  no_Terminate :: bool
  no_BranchIndex :: "int option"
  no_Stream :: bool
  no_StreamChan :: bool

record NodeExecutionResult =
  nr_NodeID :: string
  nr_NodeName :: string
  nr_NodeType :: string
  nr_Status :: string
  nr_Message :: string
  nr_Error :: string
  nr_BranchIndex :: "int option"

record WorkflowResult =
  wr_Event :: "AlertCurEvent option"
  wr_Status :: string
  wr_Message :: string
  wr_NodeResults :: "NodeExecutionResult list"
  wr_ErrorNode :: string
  wr_Stream :: bool
  wr_StreamChan :: bool

record WorkflowTriggerContext =
  wt_Mode :: string
  wt_TriggerBy :: string
  wt_RequestID :: string
  wt_EnvOverrides :: tags
  wt_Stream :: bool

record ProcessorConfig =
  pc_Typ :: string
  pc_Config :: gval

record EventPipeline =
  ep_ID :: int
  ep_Name :: string
  ep_TriggerMode :: string
  ep_UseCase :: string
  ep_Disabled :: bool
  ep_FilterEnable :: bool
  ep_LabelFilters :: "TagFilter list"
  ep_AttrFilters :: "TagFilter list"
  ep_ProcessorConfigs :: "ProcessorConfig list"
  ep_Nodes :: "WorkflowNode list"
  ep_Connections :: Connections
  ep_EnvVariables :: "EnvVariable list"

section \<open>Processors\<close>

text \<open>What a call does: its result, the context as it leaves it, and the state outside.\<close>

type_synonym 's process = "WorkflowContext \<Rightarrow> 's \<Rightarrow> (string + returned \<times> string) \<times> WorkflowContext \<times> 's"
type_synonym 's branch_process = "WorkflowContext \<Rightarrow> 's \<Rightarrow> (string + NodeOutput option) \<times> WorkflowContext \<times> 's"

datatype 's Processor = Plain "'s process" | BranchProcessor "'s branch_process"

text \<open>\<^verbatim>\<open>processorRegister\<close> maps a type to its \<^verbatim>\<open>Init\<close>.\<close>

type_synonym 's register = "(string, gval \<Rightarrow> string + 's Processor) gomap"

definition RegisterProcessor :: "string \<Rightarrow> (gval \<Rightarrow> string + 's Processor) \<Rightarrow> 's register \<Rightarrow> 's register" where
  "RegisterProcessor typ p reg = (case mget reg typ of Some _ \<Rightarrow> reg | None \<Rightarrow> mput typ p reg)"

definition GetProcessorByType :: "'s register \<Rightarrow> string \<Rightarrow> gval \<Rightarrow> string + 's Processor" where
  "GetProcessorByType reg typ settings =
     (case mget reg (TrimSpace typ) of
        None \<Rightarrow> Inl (''processor type '' @ TrimSpace typ @ '' not found'')
      | Some fn \<Rightarrow> fn settings)"

section \<open>A pipeline as a graph\<close>

definition legacy_node :: "nat \<Rightarrow> ProcessorConfig \<Rightarrow> WorkflowNode" where
  "legacy_node i pc = \<lparr>wn_ID = ''node_'' @ Itoa (int i), wn_Name = pc_Typ pc, wn_Type = pc_Typ pc, wn_Config = pc_Config pc,
     wn_Disabled = False, wn_ContinueOnFail = False, wn_RetryOnFail = False, wn_MaxRetries = 0, wn_RetryInterval = 0\<rparr>"

definition GetWorkflowNodes :: "EventPipeline \<Rightarrow> WorkflowNode list" where
  "GetWorkflowNodes e =
     (if length (ep_Nodes e) > 0 then ep_Nodes e
      else map (\<lambda>(i, pc). legacy_node i pc) (enumerate 0 (ep_ProcessorConfigs e)))"

fun linear_loop :: "WorkflowNode list \<Rightarrow> Connections \<Rightarrow> Connections" where
  "linear_loop (a # b # nodes) conns =
     linear_loop (b # nodes) (mput (wn_ID a) [[\<lparr>ct_Node = wn_ID b, ct_Type = ''main'', ct_Index = 0\<rparr>]] conns)"
| "linear_loop nodes conns = conns"

definition GetWorkflowConnections :: "EventPipeline \<Rightarrow> Connections" where
  "GetWorkflowConnections e =
     (if length (ep_Connections e) > 0 then ep_Connections e else linear_loop (GetWorkflowNodes e) [])"

fun env_loop :: "EnvVariable list \<Rightarrow> tags \<Rightarrow> tags" where
  "env_loop [] m = m"
| "env_loop (v # vs) m = env_loop vs (mput (env_Key v) (env_Value v) m)"

definition GetEnvMap :: "EventPipeline \<Rightarrow> tags" where
  "GetEnvMap e = env_loop (ep_EnvVariables e) []"

fun override_loop :: "(string \<times> string) list \<Rightarrow> tags \<Rightarrow> tags" where
  "override_loop [] env = env"
| "override_loop ((k, v) # kvs) env = override_loop kvs (mput k v env)"

definition initWorkflowContext ::
  "int \<Rightarrow> EventPipeline \<Rightarrow> AlertCurEvent option \<Rightarrow> WorkflowTriggerContext option \<Rightarrow> WorkflowContext" where
  "initWorkflowContext now pipeline event triggerCtx =
     (let env = GetEnvMap pipeline;
          md = [(''start_time'', Itoa now), (''pipeline_id'', Itoa (ep_ID pipeline))]
      in case triggerCtx of
           None \<Rightarrow> \<lparr>wc_Event = event, wc_Env = env, wc_Vars = [], wc_Metadata = md, wc_Stream = False, wc_StreamChan = False\<rparr>
         | Some t \<Rightarrow> \<lparr>wc_Event = event, wc_Env = override_loop (wt_EnvOverrides t) env, wc_Vars = [],
             wc_Metadata = mput ''trigger_by'' (wt_TriggerBy t) (mput ''trigger_mode'' (wt_Mode t)
               (mput ''request_id'' (wt_RequestID t) md)),
             wc_Stream = wt_Stream t, wc_StreamChan = False\<rparr>)"

section \<open>Running one node\<close>

definition new_result :: "WorkflowNode \<Rightarrow> NodeExecutionResult" where
  "new_result node = \<lparr>nr_NodeID = wn_ID node, nr_NodeName = wn_Name node, nr_NodeType = wn_Type node,
     nr_Status = [], nr_Message = [], nr_Error = [], nr_BranchIndex = None\<rparr>"

type_synonym 's ran = "NodeExecutionResult \<times> NodeOutput option \<times> WorkflowContext \<times> 's"

text \<open>The body of the retry loop after a successful call, for the two kinds of processors.\<close>

definition branch_done :: "NodeExecutionResult \<Rightarrow> NodeOutput option \<Rightarrow> NodeExecutionResult" where
  "branch_done r output =
     (case output of
        None \<Rightarrow> r\<lparr>nr_Status := ''success''\<rparr>
      | Some out \<Rightarrow> r\<lparr>nr_Status := (if no_Terminate out then ''terminated'' else ''success''),
          nr_Message := no_Message out, nr_BranchIndex := no_BranchIndex out\<rparr>)"

definition returned_ctx :: "WorkflowContext \<Rightarrow> returned \<Rightarrow> WorkflowContext option" where
  "returned_ctx ctx ret = (case ret of Same \<Rightarrow> Some ctx | Nil \<Rightarrow> None | Other c \<Rightarrow> Some c)"

definition plain_done :: "NodeExecutionResult \<Rightarrow> WorkflowContext \<Rightarrow> returned \<Rightarrow> string \<Rightarrow> NodeExecutionResult \<times> NodeOutput option" where
  "plain_done r ctx ret msg =
     (let new = returned_ctx ctx ret;
          output = (case new of
            Some c \<Rightarrow> if wc_Stream c \<and> wc_StreamChan c
              then Some \<lparr>no_WfCtx = ret, no_Message = msg, no_Terminate = False, no_BranchIndex = None,
                         no_Stream = True, no_StreamChan = wc_StreamChan c\<rparr>
              else None
          | None \<Rightarrow> None);
          dropped = (case new of None \<Rightarrow> True | Some c \<Rightarrow> wc_Event c = None)
      in (r\<lparr>nr_Status := (if dropped then ''terminated'' else ''success''), nr_Message := msg\<rparr>, output))"

text \<open>The loop, by the number of retries that are left.\<close>

fun retry_loop :: "'s Processor \<Rightarrow> nat \<Rightarrow> NodeExecutionResult \<Rightarrow> WorkflowContext \<Rightarrow> 's \<Rightarrow> 's ran" where
  "retry_loop (BranchProcessor p) n r ctx s =
     (case p ctx s of
        (Inl err, ctx', s') \<Rightarrow>
          (case n of
             Suc m \<Rightarrow> retry_loop (BranchProcessor p) m r ctx' s'
           | 0 \<Rightarrow> (r\<lparr>nr_Status := ''failed'', nr_Error := err\<rparr>, None, ctx', s'))
      | (Inr output, ctx', s') \<Rightarrow> (branch_done r output, output, ctx', s'))"
| "retry_loop (Plain p) n r ctx s =
     (case p ctx s of
        (Inl err, ctx', s') \<Rightarrow>
          (case n of
             Suc m \<Rightarrow> retry_loop (Plain p) m r ctx' s'
           | 0 \<Rightarrow> (r\<lparr>nr_Status := ''failed'', nr_Error := err\<rparr>, None, ctx', s'))
      | (Inr (ret, msg), ctx', s') \<Rightarrow> (case plain_done r ctx' ret msg of (r', output) \<Rightarrow> (r', output, ctx', s')))"

definition executeNode :: "'s register \<Rightarrow> WorkflowNode \<Rightarrow> WorkflowContext \<Rightarrow> 's \<Rightarrow> 's ran" where
  "executeNode reg node ctx s =
     (let r = new_result node in
      if wn_Disabled node then (r\<lparr>nr_Status := ''skipped'', nr_Message := ''node is disabled''\<rparr>, None, ctx, s)
      else case GetProcessorByType reg (wn_Type node) (wn_Config node) of
        Inl err \<Rightarrow> (r\<lparr>nr_Status := ''failed'', nr_Error := ''failed to get processor: '' @ err\<rparr>, None, ctx, s)
      | Inr processor \<Rightarrow>
          (let maxRetries = (if \<not> wn_RetryOnFail node then 0 else wn_MaxRetries node) in
           if maxRetries < 0 then (r, None, ctx, s)
           else retry_loop processor (nat maxRetries) r ctx s))"

section \<open>Running the graph\<close>

type_synonym degrees = "(string, int) gomap"

text \<open>Reading a missing key of a map of integers gives 0.\<close>

definition geti :: "degrees \<Rightarrow> string \<Rightarrow> int" where
  "geti m k = (case mget m k of None \<Rightarrow> 0 | Some n \<Rightarrow> n)"

fun zero_loop :: "string list \<Rightarrow> degrees \<Rightarrow> degrees" where
  "zero_loop [] m = m"
| "zero_loop (k # ks) m = zero_loop ks (mput k 0 m)"

fun bump_targets :: "ConnectionTarget list \<Rightarrow> degrees \<Rightarrow> degrees" where
  "bump_targets [] m = m"
| "bump_targets (t # ts) m = bump_targets ts (mput (ct_Node t) (geti m (ct_Node t) + 1) m)"

fun bump_outputs :: "NodeConnections \<Rightarrow> degrees \<Rightarrow> degrees" where
  "bump_outputs [] m = m"
| "bump_outputs (ts # tss) m = bump_outputs tss (bump_targets ts m)"

fun bump_all :: "(string \<times> NodeConnections) list \<Rightarrow> degrees \<Rightarrow> degrees" where
  "bump_all [] m = m"
| "bump_all ((u, tss) # conns) m = bump_all conns (bump_outputs tss m)"

definition in_degrees :: "(string, WorkflowNode) gomap \<Rightarrow> Connections \<Rightarrow> degrees" where
  "in_degrees nodeMap connections = bump_all connections (zero_loop (map fst nodeMap) [])"

definition shouldFollowBranch :: "string \<Rightarrow> int \<Rightarrow> (string, int) gomap \<Rightarrow> bool" where
  "shouldFollowBranch nodeID outputIndex branchResults =
     (case mget branchResults nodeID of
        None \<Rightarrow> outputIndex = 0
      | Some branchIndex \<Rightarrow> outputIndex = branchIndex)"

fun follow_targets :: "ConnectionTarget list \<Rightarrow> degrees \<times> string list \<Rightarrow> degrees \<times> string list" where
  "follow_targets [] dq = dq"
| "follow_targets (t # ts) (m, q) =
     (let d = geti m (ct_Node t) - 1 in
      follow_targets ts (mput (ct_Node t) d m, if d = 0 then q @ [ct_Node t] else q))"

fun follow_outputs :: "string \<Rightarrow> (string, int) gomap \<Rightarrow> nat \<Rightarrow> NodeConnections \<Rightarrow> degrees \<times> string list \<Rightarrow> degrees \<times> string list" where
  "follow_outputs u br i [] dq = dq"
| "follow_outputs u br i (ts # tss) dq =
     follow_outputs u br (Suc i) tss (if \<not> shouldFollowBranch u (int i) br then dq else follow_targets ts dq)"

record 's dag =
  dg_inDegree :: degrees
  dg_queue :: "string list"
  dg_executed :: "string list"
  dg_branch :: "(string, int) gomap"
  dg_ctx :: WorkflowContext
  dg_world :: 's
  dg_results :: "NodeExecutionResult list"

datatype 's outcome = Continue "'s dag" | Stop WorkflowResult "'s dag"

definition ok_result :: "bool \<Rightarrow> NodeExecutionResult list \<Rightarrow> WorkflowResult" where
  "ok_result stream rs = \<lparr>wr_Event = None, wr_Status = ''success'', wr_Message = [], wr_NodeResults = rs,
     wr_ErrorNode = [], wr_Stream = stream, wr_StreamChan = False\<rparr>"

text \<open>The body of the loop for a node of the graph that has not run yet: what happens once it has run, and
  the run itself.\<close>

definition advance :: "Connections \<Rightarrow> bool \<Rightarrow> string \<Rightarrow> WorkflowNode \<Rightarrow> NodeExecutionResult \<Rightarrow> 's dag \<Rightarrow> 's outcome" where
  "advance connections stream nodeID node nr d =
     (let d2 = d\<lparr>dg_executed := nodeID # dg_executed d,
                 dg_branch := (case nr_BranchIndex nr of None \<Rightarrow> dg_branch d | Some b \<Rightarrow> mput nodeID b (dg_branch d))\<rparr>
      in if nr_Status nr = ''failed'' \<and> \<not> wn_ContinueOnFail node
         then Stop ((ok_result stream (dg_results d2))\<lparr>wr_Status := ''failed'', wr_ErrorNode := nodeID,
                wr_Message := ''node '' @ wn_Name node @ '' failed: '' @ nr_Error nr\<rparr>) d2
         else if nr_Status nr = ''terminated''
         then Stop ((ok_result stream (dg_results d2))\<lparr>wr_Message := ''workflow terminated at node '' @ wn_Name node\<rparr>) d2
         else (case mget connections nodeID of
                 None \<Rightarrow> Continue d2
               | Some outs \<Rightarrow>
                   (let (deg, q) = follow_outputs nodeID (dg_branch d2) 0 outs (dg_inDegree d2, dg_queue d2)
                    in Continue (d2\<lparr>dg_inDegree := deg, dg_queue := q\<rparr>))))"

definition is_streaming :: "NodeOutput option \<Rightarrow> bool" where
  "is_streaming output = (case output of None \<Rightarrow> False | Some out \<Rightarrow> no_Stream out \<and> no_StreamChan out)"

definition visit :: "'s register \<Rightarrow> Connections \<Rightarrow> bool \<Rightarrow> string \<Rightarrow> WorkflowNode \<Rightarrow> 's dag \<Rightarrow> 's outcome" where
  "visit reg connections stream nodeID node d =
     (let (nr, output, ctx, s) = executeNode reg node (dg_ctx d) (dg_world d) in
      if is_streaming output
      then (let d1 = d\<lparr>dg_ctx := ctx, dg_world := s,
                  dg_results := dg_results d @ [nr\<lparr>nr_Status := ''streaming'', nr_Message := ''streaming in progress''\<rparr>]\<rparr>
            in Stop ((ok_result True (dg_results d1))\<lparr>wr_Event := wc_Event ctx, wr_Status := ''streaming'',
                 wr_Message := ''streaming output from node: '' @ wn_Name node, wr_StreamChan := True\<rparr>) d1)
      else advance connections stream nodeID node nr
             (d\<lparr>dg_ctx := ctx, dg_world := s, dg_results := dg_results d @ [nr]\<rparr>))"

lemma visit_Continue_executed:
  "visit reg conns stream k node d = Continue d' \<Longrightarrow> dg_executed d' = k # dg_executed d"
  by (auto simp: visit_def advance_def Let_def split: prod.splits if_splits option.splits)

text \<open>The loop ends because every turn removes an entry of the queue or runs a node for the first time.\<close>

function dag_loop :: "'s register \<Rightarrow> (string, WorkflowNode) gomap \<Rightarrow> Connections \<Rightarrow> bool \<Rightarrow> 's dag \<Rightarrow> 's outcome" where
  "dag_loop reg nodeMap connections stream d =
     (case dg_queue d of
        [] \<Rightarrow> Continue d
      | nodeID # rest \<Rightarrow>
          (let d1 = d\<lparr>dg_queue := rest\<rparr> in
           if nodeID \<in> set (dg_executed d1) then dag_loop reg nodeMap connections stream d1
           else case mget nodeMap nodeID of
             None \<Rightarrow> dag_loop reg nodeMap connections stream d1
           | Some node \<Rightarrow>
               (case visit reg connections stream nodeID node d1 of
                  Stop r d' \<Rightarrow> Stop r d'
                | Continue d' \<Rightarrow> dag_loop reg nodeMap connections stream d')))"
  by pat_completeness auto
termination
proof (relation "(\<lambda>(reg, nodeMap, conns, stream, d). card (set (map fst nodeMap) - set (dg_executed d))) <*mlex*>
    measure (\<lambda>(reg, nodeMap, conns, stream, d). length (dg_queue d))", goal_cases)
  case (4 reg nodeMap conns stream d k rest d1 node d')
  then have "k \<in> set (map fst nodeMap) - set (dg_executed d)"
    using map_of_SomeD by (force simp: image_iff)
  then have "card (set (map fst nodeMap) - insert k (set (dg_executed d))) < card (set (map fst nodeMap) - set (dg_executed d))"
    by (intro psubset_card_mono) auto
  with 4 show ?case by (auto simp: mlex_prod_def visit_Continue_executed)
qed (auto simp: mlex_prod_def intro!: wf_mlex)

declare dag_loop.simps [simp del]

lemma dag_loop_Nil: "dg_queue d = [] \<Longrightarrow> dag_loop reg nodeMap conns stream d = Continue d"
  by (simp add: dag_loop.simps)

lemma dag_loop_skip:
  "dg_queue d = k # rest \<Longrightarrow> k \<in> set (dg_executed d) \<or> mget nodeMap k = None \<Longrightarrow>
   dag_loop reg nodeMap conns stream d = dag_loop reg nodeMap conns stream (d\<lparr>dg_queue := rest\<rparr>)"
  by (subst dag_loop.simps) (auto simp: Let_def)

lemma dag_loop_visit:
  "dg_queue d = k # rest \<Longrightarrow> k \<notin> set (dg_executed d) \<Longrightarrow> mget nodeMap k = Some node \<Longrightarrow>
   dag_loop reg nodeMap conns stream d =
     (case visit reg conns stream k node (d\<lparr>dg_queue := rest\<rparr>) of
        Stop r d' \<Rightarrow> Stop r d' | Continue d' \<Rightarrow> dag_loop reg nodeMap conns stream d')"
  by (subst dag_loop.simps) (simp add: Let_def)

text \<open>The order in which the start nodes are queued is the order of a \<^verbatim>\<open>range\<close> loop.\<close>

definition executeDAG ::
  "((string \<times> int) list \<Rightarrow> (string \<times> int) list) \<Rightarrow> 's register \<Rightarrow> (string, WorkflowNode) gomap \<Rightarrow> Connections \<Rightarrow>
   WorkflowContext \<Rightarrow> 's \<Rightarrow> WorkflowResult \<times> 's dag" where
  "executeDAG ord reg nodeMap connections wfCtx s =
     (let inDegree = in_degrees nodeMap connections;
          queue = map fst (filter (\<lambda>(nodeID, degree). degree = 0) (ord inDegree));
          d = \<lparr>dg_inDegree = inDegree, dg_queue = queue, dg_executed = [], dg_branch = [], dg_ctx = wfCtx,
               dg_world = s, dg_results = []\<rparr>
      in if length queue = 0 \<and> length nodeMap > 0
         then ((ok_result (wc_Stream wfCtx) [])\<lparr>wr_Status := ''failed'', wr_Message := ''workflow has circular dependency''\<rparr>, d)
         else case dag_loop reg nodeMap connections (wc_Stream wfCtx) d of
           Stop r d' \<Rightarrow> (r, d')
         | Continue d' \<Rightarrow> (ok_result (wc_Stream wfCtx) (dg_results d'), d'))"

definition retry_defaults :: "WorkflowNode \<Rightarrow> WorkflowNode" where
  "retry_defaults n =
     (let n1 = (if wn_RetryInterval n = 0 then n\<lparr>wn_RetryInterval := 1\<rparr> else n)
      in if wn_MaxRetries n1 = 0 then n1\<lparr>wn_MaxRetries := 1\<rparr> else n1)"

fun node_map_loop :: "WorkflowNode list \<Rightarrow> (string, WorkflowNode) gomap \<Rightarrow> (string, WorkflowNode) gomap" where
  "node_map_loop [] m = m"
| "node_map_loop (n # ns) m = node_map_loop ns (mput (wn_ID n) (retry_defaults n) m)"

text \<open>The record of the execution that is saved for other trigger modes is not part of the model.\<close>

definition Execute ::
  "((string \<times> int) list \<Rightarrow> (string \<times> int) list) \<Rightarrow> int \<Rightarrow> 's register \<Rightarrow> EventPipeline \<Rightarrow> AlertCurEvent option \<Rightarrow>
   WorkflowTriggerContext option \<Rightarrow> 's \<Rightarrow> AlertCurEvent option \<times> WorkflowResult \<times> 's" where
  "Execute ord now reg pipeline event triggerCtx s =
     (let wfCtx = initWorkflowContext now pipeline event triggerCtx;
          nodes = GetWorkflowNodes pipeline;
          connections = GetWorkflowConnections pipeline
      in if length nodes = 0
         then (event, (ok_result False [])\<lparr>wr_Event := event, wr_Message := ''no nodes to execute''\<rparr>, s)
         else
           let (result, d) = executeDAG ord reg (node_map_loop nodes []) connections wfCtx s
           in (wc_Event (dg_ctx d), result\<lparr>wr_Event := wc_Event (dg_ctx d)\<rparr>, dg_world d))"

section \<open>Degrees\<close>

text \<open>The edges of the graph: source, output port, target.\<close>

fun out_edges :: "string \<Rightarrow> nat \<Rightarrow> NodeConnections \<Rightarrow> (string \<times> nat \<times> string) list" where
  "out_edges u i [] = []"
| "out_edges u i (ts # tss) = map (\<lambda>t. (u, i, ct_Node t)) ts @ out_edges u (Suc i) tss"

fun edges :: "(string \<times> NodeConnections) list \<Rightarrow> (string \<times> nat \<times> string) list" where
  "edges [] = []"
| "edges ((u, tss) # conns) = out_edges u 0 tss @ edges conns"

definition into :: "string \<Rightarrow> (string \<times> nat \<times> string) list \<Rightarrow> int" where
  "into v es = int (length (filter (\<lambda>(u, i, w). w = v) es))"

lemma into_simps [simp]:
  "into v [] = 0" "into v ((u, i, w) # es) = (if w = v then 1 else 0) + into v es" "into v (es @ fs) = into v es + into v fs"
  by (simp_all add: into_def)

lemma geti_mput [simp]: "geti (mput k n m) v = (if v = k then n else geti m v)"
  by (simp add: geti_def)

lemma bump_targets_get: "geti (bump_targets ts m) v = geti m v + into v (map (\<lambda>t. (u, i, ct_Node t)) ts)"
  by (induction ts arbitrary: m) auto

lemma bump_outputs_get: "geti (bump_outputs tss m) v = geti m v + into v (out_edges u i tss)"
proof (induction tss arbitrary: m i)
  case (Cons ts tss)
  show ?case
    using Cons.IH [where m = "bump_targets ts m" and i = "Suc i"] bump_targets_get [of ts m v u i] by simp
qed simp

lemma bump_all_get: "geti (bump_all conns m) v = geti m v + into v (edges conns)"
  by (induction conns m rule: bump_all.induct) (simp_all add: bump_outputs_get)

lemma zero_loop_get: "geti (zero_loop ks m) v = (if v \<in> set ks then 0 else geti m v)"
  by (induction ks arbitrary: m) auto

lemma in_degrees_get: "geti (in_degrees nodeMap conns) v = into v (edges conns)"
  by (simp add: in_degrees_def bump_all_get zero_loop_get) (simp add: geti_def)

definition followed :: "(string, int) gomap \<Rightarrow> string \<times> nat \<times> string \<Rightarrow> bool" where
  "followed br e \<longleftrightarrow> (case e of (u, i, v) \<Rightarrow> shouldFollowBranch u (int i) br)"

lemma follow_targets_spec:
  "geti (fst (follow_targets ts (m, q))) v = geti m v - into v (map (\<lambda>t. (u, i, ct_Node t)) ts)
   \<and> (v \<in> set (snd (follow_targets ts (m, q))) \<longrightarrow> v \<in> set q \<or> geti (fst (follow_targets ts (m, q))) v \<le> 0)
   \<and> set q \<subseteq> set (snd (follow_targets ts (m, q)))
   \<and> (geti (fst (follow_targets ts (m, q))) v = 0 \<longrightarrow> geti m v = 0 \<or> v \<in> set (snd (follow_targets ts (m, q))))"
proof (induction ts arbitrary: m q)
  case (Cons t ts)
  let ?n = "geti m (ct_Node t) - 1"
  let ?q = "if ?n = 0 then q @ [ct_Node t] else q"
  have "0 \<le> into v (map (\<lambda>t. (u, i, ct_Node t)) ts)" by (simp add: into_def)
  with Cons.IH [of "mput (ct_Node t) ?n m" ?q] show ?case
    by (auto simp: Let_def split: if_splits)
qed simp

lemma follow_outputs_spec:
  "geti (fst (follow_outputs u br i tss (m, q))) v = geti m v - into v (filter (followed br) (out_edges u i tss))
   \<and> (v \<in> set (snd (follow_outputs u br i tss (m, q))) \<longrightarrow> v \<in> set q \<or> geti (fst (follow_outputs u br i tss (m, q))) v \<le> 0)
   \<and> set q \<subseteq> set (snd (follow_outputs u br i tss (m, q)))
   \<and> (geti (fst (follow_outputs u br i tss (m, q))) v = 0 \<longrightarrow> geti m v = 0 \<or> v \<in> set (snd (follow_outputs u br i tss (m, q))))"
proof (induction tss arbitrary: m q i)
  case (Cons ts tss)
  obtain m' q' where f: "follow_targets ts (m, q) = (m', q')" by fastforce
  have nn: "0 \<le> into v (filter (followed br) (out_edges u (Suc i) tss))" by (simp add: into_def)
  have keep: "filter (followed br) (map (\<lambda>t. (u, i, ct_Node t)) ts) =
      (if shouldFollowBranch u (int i) br then map (\<lambda>t. (u, i, ct_Node t)) ts else [])"
    by (auto simp: followed_def filter_empty_conv)
  show ?case
  proof (cases "shouldFollowBranch u (int i) br")
    case True
    with Cons.IH [where m = m' and q = q' and i = "Suc i"] follow_targets_spec [of ts m q v u i] f nn keep
    show ?thesis by auto
  next
    case False
    with Cons.IH [where m = m and q = q and i = "Suc i"] keep show ?thesis by auto
  qed
qed simp

section \<open>The invariant of the loop\<close>

text \<open>A node is ready when every edge that leads to it comes from a node that has run, on a port that was
  followed.\<close>

definition ready :: "Connections \<Rightarrow> string list \<Rightarrow> (string, int) gomap \<Rightarrow> string \<Rightarrow> bool" where
  "ready conns executed br v \<longleftrightarrow>
     (\<forall>(u, i, w) \<in> set (edges conns). w = v \<longrightarrow> u \<in> set executed \<and> followed br (u, i, w))"

definition arrived :: "Connections \<Rightarrow> string list \<Rightarrow> (string, int) gomap \<Rightarrow> string \<Rightarrow> int" where
  "arrived conns executed br v = into v (filter (\<lambda>e. fst e \<in> set executed \<and> followed br e) (edges conns))"

lemma length_filter_conj:
  assumes "length (filter Q (filter P xs)) = length (filter P xs)" "x \<in> set xs" "P x"
  shows "Q x"
proof (rule ccontr)
  assume "\<not> Q x"
  with assms(2,3) have "length (filter Q (filter P xs)) < length (filter P xs)"
    by (intro length_filter_less [of x]) simp_all
  with assms(1) show False by simp
qed

lemma arrived_all:
  assumes "arrived conns ex br v = into v (edges conns)"
  shows "ready conns ex br v"
proof -
  have "length (filter (\<lambda>e. fst e \<in> set ex \<and> followed br e) (filter (\<lambda>(u, i, w). w = v) (edges conns))) =
      length (filter (\<lambda>(u, i, w). w = v) (edges conns))"
    using assms by (simp add: arrived_def into_def conj_commute conj_left_commute case_prod_unfold)
  note all = length_filter_conj [OF this]
  show ?thesis unfolding ready_def
  proof (clarify, goal_cases)
    case (1 u i)
    from all [OF this] show ?case by simp
  qed
qed

lemma into_filter_le: "into v (filter P es) \<le> into v es"
  by (induction es) (auto simp: into_def)

lemma arrived_le: "arrived conns ex br v \<le> into v (edges conns)"
  by (simp add: arrived_def into_filter_le)

lemma ready_arrived: "ready conns ex br v \<Longrightarrow> arrived conns ex br v = into v (edges conns)"
proof -
  assume "ready conns ex br v"
  then have "filter (\<lambda>(u, i, w). w = v) (filter (\<lambda>e. fst e \<in> set ex \<and> followed br e) (edges conns)) =
      filter (\<lambda>(u, i, w). w = v) (edges conns)"
    by (auto simp: ready_def intro!: filter_cong)
  then show ?thesis by (simp only: arrived_def into_def)
qed

lemma out_edges_fst: "e \<in> set (out_edges u i tss) \<Longrightarrow> fst e = u"
  by (induction tss arbitrary: i) auto

lemma edges_from:
  "mwf conns \<Longrightarrow> filter (\<lambda>e. fst e = w) (edges conns) =
     (case mget conns w of None \<Rightarrow> [] | Some tss \<Rightarrow> out_edges w 0 tss)"
proof (induction conns rule: edges.induct)
  case (2 u tss conns)
  have "u = w \<Longrightarrow> mget conns w = None"
    using 2 by (simp add: mwf_def map_of_eq_None_iff)
  moreover have "filter (\<lambda>e. fst e = w) (out_edges u 0 tss) = (if u = w then out_edges u 0 tss else [])"
    by (auto simp: filter_empty_conv filter_id_conv dest: out_edges_fst)
  ultimately show ?case using 2 by (auto simp: mwf_def)
qed simp

lemma followed_mput: "fst e \<noteq> w \<Longrightarrow> followed (mput w b br) e = followed br e"
  by (cases e) (simp add: followed_def shouldFollowBranch_def)

definition note_branch :: "string \<Rightarrow> int option \<Rightarrow> (string, int) gomap \<Rightarrow> (string, int) gomap" where
  "note_branch w b br = (case b of None \<Rightarrow> br | Some i \<Rightarrow> mput w i br)"

lemma followed_note: "fst e \<noteq> w \<Longrightarrow> followed (note_branch w b br) e = followed br e"
  by (simp add: note_branch_def followed_mput split: option.split)

lemma arrived_step:
  assumes "mwf conns" "w \<notin> set ex"
  shows "arrived conns (w # ex) (note_branch w b br) v =
    arrived conns ex br v
    + into v (filter (followed (note_branch w b br)) (case mget conns w of None \<Rightarrow> [] | Some tss \<Rightarrow> out_edges w 0 tss))"
proof -
  let ?br = "note_branch w b br"
  have "into v (filter (\<lambda>e. fst e \<in> set (w # ex) \<and> followed ?br e) es) =
      into v (filter (\<lambda>e. fst e \<in> set ex \<and> followed br e) es) + into v (filter (followed ?br) (filter (\<lambda>e. fst e = w) es))" for es
  proof (induction es)
    case (Cons e es)
    obtain u i x where e: "e = (u, i, x)" by (cases e)
    show ?case
    proof (cases "u = w")
      case True
      with Cons assms(2) e show ?thesis by simp
    next
      case False
      with Cons e followed_note [of e w b br] show ?thesis by simp
    qed
  qed simp
  then show ?thesis using edges_from [OF assms(1)] by (simp only: arrived_def)
qed

lemma ready_step:
  assumes "ready conns ex br v" "w \<notin> set ex"
  shows "ready conns (w # ex) (note_branch w b br) v"
proof -
  have "followed (note_branch w b br) e = followed br e" if "fst e \<in> set ex" for e
    using that assms(2) by (intro followed_note) auto
  with assms(1) show ?thesis by (fastforce simp: ready_def)
qed

text \<open>Every node comes after all the nodes with an edge to it.\<close>

definition ordered :: "Connections \<Rightarrow> string list \<Rightarrow> bool" where
  "ordered conns xs \<longleftrightarrow> (\<forall>pre v post. xs = pre @ v # post \<longrightarrow> (\<forall>(u, i, w) \<in> set (edges conns). w = v \<longrightarrow> u \<in> set pre))"

lemma ordered_Nil [simp]: "ordered conns []"
  by (simp add: ordered_def)

lemma ordered_snoc:
  assumes "ordered conns xs" "ready conns ex br v" "set ex = set xs"
  shows "ordered conns (xs @ [v])"
  unfolding ordered_def
proof (intro allI impI)
  fix pre x post assume "xs @ [v] = pre @ x # post"
  then consider "post = []" "pre = xs" "x = v" | post' where "xs = pre @ x # post'"
    by (cases post rule: rev_cases) auto
  then show "\<forall>(u, i, w) \<in> set (edges conns). w = x \<longrightarrow> u \<in> set pre"
  proof cases
    case 1
    with assms(2,3) show ?thesis by (fastforce simp: ready_def)
  next
    case 2
    with assms(1) show ?thesis by (fastforce simp: ordered_def)
  qed
qed

definition dag_inv :: "(string, WorkflowNode) gomap \<Rightarrow> Connections \<Rightarrow> 's dag \<Rightarrow> bool" where
  "dag_inv nodeMap conns d \<longleftrightarrow>
     (\<forall>v. geti (dg_inDegree d) v = into v (edges conns) - arrived conns (dg_executed d) (dg_branch d) v)
     \<and> (\<forall>v \<in> set (dg_queue d) \<union> set (dg_executed d). ready conns (dg_executed d) (dg_branch d) v)
     \<and> distinct (dg_executed d) \<and> set (dg_executed d) \<subseteq> set (map fst nodeMap)
     \<and> (\<forall>v \<in> set (map fst nodeMap). geti (dg_inDegree d) v = 0 \<longrightarrow> v \<in> set (dg_queue d) \<union> set (dg_executed d))
     \<and> map nr_NodeID (dg_results d) = rev (dg_executed d) \<and> ordered conns (rev (dg_executed d))"

lemma retry_loop_NodeID: "nr_NodeID (fst (retry_loop p n r ctx s)) = nr_NodeID r"
  by (induction p n r ctx s rule: retry_loop.induct)
    (auto simp: branch_done_def plain_done_def Let_def split: prod.splits sum.splits option.splits nat.splits)

lemma executeNode_NodeID: "nr_NodeID (fst (executeNode reg node ctx s)) = wn_ID node"
  by (simp add: executeNode_def Let_def retry_loop_NodeID new_result_def split: sum.split)

lemma note_branch_case:
  "(case b of None \<Rightarrow> br | Some i \<Rightarrow> mput w i br) = note_branch w b br"
  by (simp add: note_branch_def)

lemma dag_inv_pop:
  assumes "dag_inv nodeMap conns d" "dg_queue d = k # rest" "k \<in> set (dg_executed d) \<or> mget nodeMap k = None"
  shows "dag_inv nodeMap conns (d\<lparr>dg_queue := rest\<rparr>)"
  using assms by (auto simp: dag_inv_def map_of_eq_None_iff)

lemma advance_inv:
  assumes inv: "dag_inv nodeMap conns d" and q: "dg_queue d = k # rest" and "mwf conns" "k \<notin> set (dg_executed d)"
    and "mget nodeMap k = Some node" "nr_NodeID nr = k"
    and adv: "advance conns stream k node nr (d\<lparr>dg_queue := rest, dg_ctx := ctx, dg_world := s, dg_results := dg_results d @ [nr]\<rparr>) = Continue d'"
  shows "dag_inv nodeMap conns d'"
proof -
  let ?ex = "k # dg_executed d" and ?br = "note_branch k (nr_BranchIndex nr) (dg_branch d)"
  let ?outs = "case mget conns k of None \<Rightarrow> [] | Some tss \<Rightarrow> tss"
  define dq where "dq = follow_outputs k ?br 0 ?outs (dg_inDegree d, rest)"
  have d': "dg_inDegree d' = fst dq" "dg_queue d' = snd dq" "dg_executed d' = ?ex" "dg_branch d' = ?br"
      "dg_results d' = dg_results d @ [nr]"
    using adv unfolding advance_def Let_def note_branch_case
    by (auto simp: dq_def split: if_splits option.splits prod.splits)
  have out: "(case mget conns k of None \<Rightarrow> [] | Some tss \<Rightarrow> out_edges k 0 tss) = out_edges k 0 ?outs"
    by (simp split: option.split)
  have deg: "geti (fst dq) v = into v (edges conns) - arrived conns ?ex ?br v" for v
    using inv follow_outputs_spec [of k ?br 0 ?outs "dg_inDegree d" rest v]
      arrived_step [OF assms(3,4), of "nr_BranchIndex nr" "dg_branch d" v]
    unfolding out dq_def dag_inv_def by simp
  have rdy: "ready conns ?ex ?br v" if "v \<in> set (snd dq) \<union> set ?ex" for v
  proof (cases "v \<in> set (dg_queue d) \<union> set (dg_executed d)")
    case True
    with inv assms(4) show ?thesis by (auto simp: dag_inv_def intro: ready_step)
  next
    case False
    with that q have "geti (fst dq) v \<le> 0"
      using follow_outputs_spec [of k ?br 0 ?outs "dg_inDegree d" rest v] by (auto simp: dq_def)
    with deg [of v] arrived_le [of conns ?ex ?br v] show ?thesis by (intro arrived_all) simp
  qed
  have zero: "v \<in> set (snd dq) \<union> set ?ex" if "v \<in> set (map fst nodeMap)" "geti (fst dq) v = 0" for v
    using that inv q follow_outputs_spec [of k ?br 0 ?outs "dg_inDegree d" rest v]
    by (auto simp: dag_inv_def dq_def)
  have "ready conns (dg_executed d) (dg_branch d) k" using inv q by (simp add: dag_inv_def)
  then have ord: "ordered conns (rev (dg_executed d) @ [k])"
    using inv by (intro ordered_snoc) (auto simp: dag_inv_def)
  have key: "k \<in> set (map fst nodeMap)" using map_of_SomeD [OF assms(5)] by force
  from inv show ?thesis
    unfolding dag_inv_def d' using deg rdy zero ord key assms(4,6) by (auto simp del: set_map)
qed

text \<open>What holds when the loop stops early: the nodes that ran are distinct nodes of the graph in an order
  that respects the edges, and each was reached only on ports that were followed.\<close>

definition sound_run :: "(string, WorkflowNode) gomap \<Rightarrow> Connections \<Rightarrow> (string, int) gomap \<Rightarrow> string list \<Rightarrow> bool" where
  "sound_run nodeMap conns br xs \<longleftrightarrow> distinct xs \<and> set xs \<subseteq> set (map fst nodeMap) \<and> ordered conns xs
     \<and> (\<forall>v \<in> set xs. ready conns xs br v)"

lemma ready_mono: "ready conns ex br v \<Longrightarrow> set ex \<subseteq> set ex' \<Longrightarrow> ready conns ex' br v"
  by (fastforce simp: ready_def)

lemma dag_inv_sound: "dag_inv nodeMap conns d \<Longrightarrow> sound_run nodeMap conns (dg_branch d) (map nr_NodeID (dg_results d))"
  by (auto simp: dag_inv_def sound_run_def intro: ready_mono)

lemma visit_results:
  assumes "visit reg conns stream k node d = Stop r d'"
  shows "wr_NodeResults r = dg_results d' \<and> wr_Message r \<noteq> [] \<and> map nr_NodeID (dg_results d') = map nr_NodeID (dg_results d) @ [wn_ID node]
    \<and> (dg_branch d' = dg_branch d \<or> (\<exists>b. dg_branch d' = note_branch k b (dg_branch d)))"
proof -
  obtain nr out ctx s where e: "executeNode reg node (dg_ctx d) (dg_world d) = (nr, out, ctx, s)"
    by (cases "executeNode reg node (dg_ctx d) (dg_world d)")
  have id: "nr_NodeID nr = wn_ID node" using executeNode_NodeID [of reg node "dg_ctx d" "dg_world d"] e by simp
  show ?thesis
    using assms e id
    by (auto simp: visit_def advance_def ok_result_def note_branch_case Let_def split: if_splits option.splits prod.splits)
qed

lemma visit_sound:
  assumes inv: "dag_inv nodeMap conns d" and q: "dg_queue d = k # rest" and k: "k \<notin> set (dg_executed d)"
    and node: "mget nodeMap k = Some node" "wn_ID node = k"
    and v: "visit reg conns stream k node (d\<lparr>dg_queue := rest\<rparr>) = Stop r d'"
  shows "sound_run nodeMap conns (dg_branch d') (map nr_NodeID (dg_results d')) \<and> wr_NodeResults r = dg_results d'
    \<and> wr_Message r \<noteq> []"
proof -
  let ?ran = "rev (dg_executed d) @ [k]"
  have ran: "map nr_NodeID (dg_results d') = ?ran" and wr: "wr_NodeResults r = dg_results d'" "wr_Message r \<noteq> []"
    using visit_results [OF v] inv node(2) by (simp_all add: dag_inv_def)
  have rk: "ready conns (dg_executed d) (dg_branch d) k" using inv q by (simp add: dag_inv_def)
  have br: "dg_branch d' = dg_branch d \<or> (\<exists>b. dg_branch d' = note_branch k b (dg_branch d))"
    using visit_results [OF v] by simp
  have "ready conns (k # dg_executed d) (dg_branch d') w" if "w \<in> set ?ran" for w
  proof -
    have "ready conns (dg_executed d) (dg_branch d) w" using that inv rk by (auto simp: dag_inv_def)
    with br k show ?thesis by (auto intro: ready_step ready_mono)
  qed
  moreover have "ready conns (k # dg_executed d) br w = ready conns ?ran br w" for br w by (simp add: ready_def)
  ultimately have "\<forall>w \<in> set ?ran. ready conns ?ran (dg_branch d') w" by simp
  moreover have "ordered conns ?ran" using inv rk by (intro ordered_snoc) (auto simp: dag_inv_def)
  moreover have "k \<in> set (map fst nodeMap)" using map_of_SomeD [OF node(1)] by force
  ultimately show ?thesis using inv k ran wr by (auto simp: sound_run_def dag_inv_def)
qed

lemma visit_inv:
  assumes "dag_inv nodeMap conns d" "dg_queue d = k # rest" "mwf conns" "k \<notin> set (dg_executed d)"
    and "mget nodeMap k = Some node" "wn_ID node = k"
    and "visit reg conns stream k node (d\<lparr>dg_queue := rest\<rparr>) = Continue d'"
  shows "dag_inv nodeMap conns d'"
proof -
  obtain nr out ctx s where e: "executeNode reg node (dg_ctx d) (dg_world d) = (nr, out, ctx, s)"
    by (cases "executeNode reg node (dg_ctx d) (dg_world d)")
  have "nr_NodeID nr = k" using executeNode_NodeID [of reg node "dg_ctx d" "dg_world d"] e assms(6) by simp
  moreover have "advance conns stream k node nr (d\<lparr>dg_queue := rest, dg_ctx := ctx, dg_world := s, dg_results := dg_results d @ [nr]\<rparr>) = Continue d'"
    using assms(7) e by (simp add: visit_def Let_def split: if_splits)
  ultimately show ?thesis by (intro advance_inv [OF assms(1-5)]) auto
qed

definition named_by_id :: "(string, WorkflowNode) gomap \<Rightarrow> bool" where
  "named_by_id nodeMap \<longleftrightarrow> (\<forall>k n. mget nodeMap k = Some n \<longrightarrow> wn_ID n = k)"

lemma dag_loop_spec:
  assumes "dag_inv nodeMap conns d" "mwf conns" "named_by_id nodeMap"
  shows "case dag_loop reg nodeMap conns stream d of
      Continue d' \<Rightarrow> dag_inv nodeMap conns d' \<and> dg_queue d' = []
    | Stop r d' \<Rightarrow> sound_run nodeMap conns (dg_branch d') (map nr_NodeID (dg_results d')) \<and> wr_NodeResults r = dg_results d'
        \<and> wr_Message r \<noteq> []"
  using assms
proof (induction reg nodeMap conns stream d rule: dag_loop.induct)
  case (1 reg nodeMap conns stream d)
  show ?case
  proof (cases "dg_queue d")
    case Nil
    with 1(4) show ?thesis by (simp add: dag_loop_Nil)
  next
    case (Cons k rest)
    let ?d1 = "d\<lparr>dg_queue := rest\<rparr>"
    show ?thesis
    proof (cases "k \<in> set (dg_executed d)")
      case True
      with 1(1) [OF Cons refl] 1(4-6) Cons dag_inv_pop [of nodeMap conns d k rest] show ?thesis by (simp add: dag_loop_skip)
    next
      case new: False
      show ?thesis
      proof (cases "mget nodeMap k")
        case None
        with 1(2) [OF Cons refl] new 1(4-6) Cons dag_inv_pop [of nodeMap conns d k rest] show ?thesis by (simp add: dag_loop_skip)
      next
        case (Some node)
        have id: "wn_ID node = k" using 1(6) Some by (simp add: named_by_id_def)
        show ?thesis
        proof (cases "visit reg conns stream k node ?d1")
          case (Continue d')
          have "dag_inv nodeMap conns d'"
            using visit_inv [OF 1(4) Cons 1(5) new Some id Continue] .
          with 1(3) [OF Cons refl] new Some Continue 1(5,6) Cons show ?thesis by (simp add: dag_loop_visit)
        next
          case (Stop r d')
          with visit_sound [OF 1(4) Cons new Some id Stop] Cons new Some show ?thesis by (simp add: dag_loop_visit)
        qed
      qed
    qed
  qed
qed

lemma bump_targets_dom: "mget m v \<noteq> None \<or> v \<in> ct_Node ` set ts \<Longrightarrow> mget (bump_targets ts m) v \<noteq> None"
  by (induction ts arbitrary: m) auto

lemma bump_outputs_dom: "mget m v \<noteq> None \<Longrightarrow> mget (bump_outputs tss m) v \<noteq> None"
  by (induction tss arbitrary: m) (simp_all add: bump_targets_dom del: not_None_eq)

lemma bump_all_dom: "mget m v \<noteq> None \<Longrightarrow> mget (bump_all conns m) v \<noteq> None"
  by (induction conns m rule: bump_all.induct) (simp_all add: bump_outputs_dom del: not_None_eq)

lemma zero_loop_dom: "mget m v \<noteq> None \<or> v \<in> set ks \<Longrightarrow> mget (zero_loop ks m) v \<noteq> None"
  by (induction ks arbitrary: m) auto

lemma degrees_mwf:
  "mwf m \<Longrightarrow> mwf (zero_loop ks m)" "mwf m \<Longrightarrow> mwf (bump_targets ts m)" "mwf m \<Longrightarrow> mwf (bump_outputs tss m)"
  "mwf m \<Longrightarrow> mwf (bump_all conns m)"
proof -
  show t: "mwf m \<Longrightarrow> mwf (bump_targets ts m)" for ts m by (induction ts arbitrary: m) auto
  show o: "mwf m \<Longrightarrow> mwf (bump_outputs tss m)" for tss m by (induction tss arbitrary: m) (auto simp: t)
  show "mwf m \<Longrightarrow> mwf (bump_all conns m)" by (induction conns m rule: bump_all.induct) (auto simp: o)
  show "mwf m \<Longrightarrow> mwf (zero_loop ks m)" by (induction ks arbitrary: m) auto
qed

lemma start_inv:
  assumes "range_order ord"
  shows "dag_inv nodeMap conns \<lparr>dg_inDegree = in_degrees nodeMap conns,
    dg_queue = map fst (filter (\<lambda>(k, n). n = 0) (ord (in_degrees nodeMap conns))), dg_executed = [], dg_branch = [],
    dg_ctx = ctx, dg_world = s, dg_results = []\<rparr>"
proof -
  let ?m = "in_degrees nodeMap conns"
  have wf: "mwf ?m" by (simp add: in_degrees_def degrees_mwf)
  have q: "v \<in> set (map fst (filter (\<lambda>(k, n). n = 0) (ord ?m))) \<longleftrightarrow> mget ?m v = Some 0" for v
    using assms wf by (force simp: range_order_set mget_iff_mem)
  have none: "arrived conns [] [] v = 0" for v by (simp add: arrived_def)
  have "ready conns [] [] v" if "mget ?m v = Some 0" for v
  proof (rule arrived_all)
    have "into v (edges conns) = 0" using that in_degrees_get [of nodeMap conns v] by (simp add: geti_def)
    then show "arrived conns [] [] v = into v (edges conns)" by (simp add: none)
  qed
  moreover have "mget ?m v \<noteq> None" if "v \<in> set (map fst nodeMap)" for v
    using that by (simp only: in_degrees_def) (intro bump_all_dom zero_loop_dom disjI2)
  ultimately show ?thesis
    unfolding dag_inv_def using q
    by (simp add: in_degrees_get none del: set_map set_filter) (metis geti_def in_degrees_get not_None_eq option.case(2))
qed

lemma dag_inv_complete:
  assumes "dag_inv nodeMap conns d" "dg_queue d = []"
  shows "v \<in> set (map nr_NodeID (dg_results d)) \<longleftrightarrow>
    v \<in> set (map fst nodeMap) \<and> ready conns (map nr_NodeID (dg_results d)) (dg_branch d) v"
proof -
  have ids: "set (map nr_NodeID (dg_results d)) = set (dg_executed d)" using assms(1) by (simp add: dag_inv_def del: set_map)
  have "ready conns (map nr_NodeID (dg_results d)) br v = ready conns (dg_executed d) br v" for br
    using ids by (simp add: ready_def)
  then show ?thesis using assms ids by (auto simp: dag_inv_def dest: ready_arrived simp del: set_map)
qed

definition ran_ids :: "NodeExecutionResult list \<Rightarrow> string list" where
  "ran_ids rs = map nr_NodeID rs"

lemma executeDAG_spec:
  assumes "range_order ord" "mwf conns" "named_by_id nodeMap" "executeDAG ord reg nodeMap conns ctx s = (result, d)"
  shows "sound_run nodeMap conns (dg_branch d) (ran_ids (wr_NodeResults result))
    \<and> (wr_Message result = [] \<longrightarrow> (\<forall>v. v \<in> set (ran_ids (wr_NodeResults result)) \<longleftrightarrow>
        v \<in> set (map fst nodeMap) \<and> ready conns (ran_ids (wr_NodeResults result)) (dg_branch d) v))"
proof -
  define d0 where "d0 = \<lparr>dg_inDegree = in_degrees nodeMap conns,
    dg_queue = map fst (filter (\<lambda>(k, n). n = 0) (ord (in_degrees nodeMap conns))), dg_executed = [], dg_branch = [],
    dg_ctx = ctx, dg_world = s, dg_results = []\<rparr>"
  have inv: "dag_inv nodeMap conns d0" unfolding d0_def by (rule start_inv [OF assms(1)])
  note spec = dag_loop_spec [OF inv assms(2,3), of reg "wc_Stream ctx"]
  have ex: "(result, d) = (if length (dg_queue d0) = 0 \<and> length nodeMap > 0
         then ((ok_result (wc_Stream ctx) [])\<lparr>wr_Status := ''failed'', wr_Message := ''workflow has circular dependency''\<rparr>, d0)
         else case dag_loop reg nodeMap conns (wc_Stream ctx) d0 of
           Stop r d' \<Rightarrow> (r, d')
         | Continue d' \<Rightarrow> (ok_result (wc_Stream ctx) (dg_results d'), d'))"
    by (simp only: assms(4) [symmetric] executeDAG_def d0_def Let_def dag.select_convs)
  show ?thesis
  proof (cases "length (dg_queue d0) = 0 \<and> length nodeMap > 0")
    case True
    with ex show ?thesis by (simp add: ok_result_def sound_run_def ran_ids_def)
  next
    case False
    show ?thesis
    proof (cases "dag_loop reg nodeMap conns (wc_Stream ctx) d0")
      case (Stop r d')
      with ex False spec show ?thesis by (auto simp: ran_ids_def)
    next
      case (Continue d')
      then have "result = ok_result (wc_Stream ctx) (dg_results d)" "dag_inv nodeMap conns d" "dg_queue d = []"
        using ex False spec by auto
      moreover from this have "wr_NodeResults result = dg_results d" by (simp add: ok_result_def)
      ultimately show ?thesis
        unfolding ran_ids_def using dag_inv_sound [of nodeMap conns d] dag_inv_complete [of nodeMap conns d] by presburger
    qed
  qed
qed

text \<open>(C20) The engine runs each node at most once and in an order that respects the connections. Whatever the
  processors do and however the run ends, the results name distinct nodes of the graph, every node
  comes after all the nodes with a connection to it, and each of its incoming connections was on a
  port that the source had chosen.\<close>

theorem workflow_order:
  assumes "range_order ord" "mwf conns" "named_by_id nodeMap"
    and "executeDAG ord reg nodeMap conns ctx s = (result, d)"
  shows "sound_run nodeMap conns (dg_branch d) (ran_ids (wr_NodeResults result))"
  using executeDAG_spec [OF assms] by simp

text \<open>A small graph: a condition \<open>c\<close> with the branches \<open>a\<close> and \<open>b\<close>, and a node \<open>j\<close> where they meet.\<close>

definition to :: "string \<Rightarrow> ConnectionTarget" where
  "to v = \<lparr>ct_Node = v, ct_Type = ''main'', ct_Index = 0\<rparr>"

definition node :: "string \<Rightarrow> string \<Rightarrow> WorkflowNode" where
  "node v typ = \<lparr>wn_ID = v, wn_Name = v, wn_Type = typ, wn_Config = VNil, wn_Disabled = False,
     wn_ContinueOnFail = False, wn_RetryOnFail = False, wn_MaxRetries = 1, wn_RetryInterval = 1\<rparr>"

definition diamond_nodes :: "(string, WorkflowNode) gomap" where
  "diamond_nodes = [(''c'', node ''c'' ''if''), (''a'', node ''a'' ''nop''), (''b'', node ''b'' ''nop''), (''j'', node ''j'' ''nop'')]"

definition diamond :: Connections where
  "diamond = [(''c'', [[to ''a''], [to ''b'']]), (''a'', [[to ''j'']]), (''b'', [[to ''j'']])]"

definition small_register :: "unit register" where
  "small_register = [(''nop'', \<lambda>_. Inr (Plain (\<lambda>ctx s. (Inr (Same, []), ctx, s)))),
     (''if'', \<lambda>_. Inr (BranchProcessor (\<lambda>ctx s. (Inr (Some \<lparr>no_WfCtx = Same, no_Message = [], no_Terminate = False,
        no_BranchIndex = Some 0, no_Stream = False, no_StreamChan = False\<rparr>), ctx, s))))]"

definition small_ctx :: WorkflowContext where
  "small_ctx = \<lparr>wc_Event = Some zero_event, wc_Env = [], wc_Vars = [], wc_Metadata = [], wc_Stream = False, wc_StreamChan = False\<rparr>"

definition diamond_run :: "WorkflowResult \<times> unit dag" where
  "diamond_run = executeDAG (\<lambda>xs. xs) small_register diamond_nodes diamond small_ctx ()"

lemma diamond_named: "named_by_id diamond_nodes"
  by (simp add: named_by_id_def diamond_nodes_def node_def)

lemma diamond_mwf: "mwf diamond"
  by (simp add: mwf_def diamond_def)

lemma diamond_ran: "ran_ids (wr_NodeResults (fst diamond_run)) = [''c'', ''a'']" "wr_Message (fst diamond_run) = []"
  by code_simp+

theorem workflow_order_witness:
  "sound_run diamond_nodes diamond (dg_branch (snd diamond_run)) [''c'', ''a'']"
  using workflow_order [OF range_order_id diamond_mwf diamond_named,
      of small_register small_ctx "()" "fst diamond_run" "snd diamond_run"] diamond_ran(1)
  by (simp add: diamond_run_def)

text \<open>(C21) The engine runs everything it should. When a run is neither stopped by a failure nor by a dropped
  event nor by a stream, the nodes that ran are exactly the nodes of the graph all of whose incoming
  connections come from nodes that ran, on ports that those had chosen.\<close>

theorem workflow_complete:
  assumes "range_order ord" "mwf conns" "named_by_id nodeMap"
    and "executeDAG ord reg nodeMap conns ctx s = (result, d)" "wr_Message result = []"
  shows "v \<in> set (ran_ids (wr_NodeResults result)) \<longleftrightarrow>
    v \<in> set (map fst nodeMap) \<and> ready conns (ran_ids (wr_NodeResults result)) (dg_branch d) v"
  using executeDAG_spec [OF assms(1-4)] assms(5) by blast

theorem workflow_complete_witness:
  "\<not> ready diamond [''c'', ''a''] (dg_branch (snd diamond_run)) ''b''"
  using workflow_complete [OF range_order_id diamond_mwf diamond_named,
      of small_register small_ctx "()" "fst diamond_run" "snd diamond_run" "''b''"] diamond_ran
  by (simp add: diamond_run_def [symmetric]) (simp add: diamond_nodes_def)

lemma ready_edge: "ready conns xs br v \<Longrightarrow> (u, i, v) \<in> set (edges conns) \<Longrightarrow> u \<in> set xs \<and> shouldFollowBranch u (int i) br"
  by (fastforce simp: ready_def followed_def)

lemma one_branch: "shouldFollowBranch u i br \<Longrightarrow> shouldFollowBranch u j br \<Longrightarrow> i = j"
  by (simp add: shouldFollowBranch_def split: option.splits)

text \<open>A node where two branches meet never runs. When \<open>a\<close> and \<open>b\<close> hang on different ports of \<open>c\<close> and
  both lead to \<open>j\<close>, only one of them can run, so one of the connections into \<open>j\<close> stays open and \<open>j\<close> is
  left out, although the run ends as a success.\<close>

theorem branches_never_meet:
  assumes "range_order ord" "mwf conns" "named_by_id nodeMap"
    and "executeDAG ord reg nodeMap conns ctx s = (result, d)"
    and "(c, i, a) \<in> set (edges conns)" "(c, i', b) \<in> set (edges conns)" "i \<noteq> i'"
    and "(a, m, j) \<in> set (edges conns)" "(b, m', j) \<in> set (edges conns)"
  shows "j \<notin> set (ran_ids (wr_NodeResults result))"
proof
  let ?xs = "ran_ids (wr_NodeResults result)"
  have rdy: "v \<in> set ?xs \<Longrightarrow> ready conns ?xs (dg_branch d) v" for v
    using executeDAG_spec [OF assms(1-4)] by (simp add: sound_run_def)
  assume "j \<in> set ?xs"
  then have "a \<in> set ?xs" "b \<in> set ?xs"
    using rdy ready_edge [OF _ assms(8)] ready_edge [OF _ assms(9)] by blast+
  then have "shouldFollowBranch c (int i) (dg_branch d)" "shouldFollowBranch c (int i') (dg_branch d)"
    using rdy ready_edge [OF _ assms(5)] ready_edge [OF _ assms(6)] by blast+
  with one_branch assms(7) show False by fastforce
qed

theorem branches_never_meet_witness:
  "''j'' \<notin> set (ran_ids (wr_NodeResults (fst diamond_run))) \<and> wr_Status (fst diamond_run) = ''success''"
proof
  show "''j'' \<notin> set (ran_ids (wr_NodeResults (fst diamond_run)))"
    by (rule branches_never_meet [OF range_order_id diamond_mwf diamond_named,
          of small_register small_ctx "()" _ "snd diamond_run" "''c''" 0 "''a''" 1 "''b''" 0 _ 0])
      (simp_all add: diamond_run_def diamond_def to_def)
  show "wr_Status (fst diamond_run) = ''success''" by code_simp
qed

section \<open>Linear pipelines\<close>

lemma retry_defaults_ID [simp]: "wn_ID (retry_defaults n) = wn_ID n"
  by (simp add: retry_defaults_def Let_def)

lemma named_by_id_mput: "named_by_id m \<Longrightarrow> wn_ID n = k \<Longrightarrow> named_by_id (mput k n m)"
  by (simp add: named_by_id_def)

lemma node_map_loop_named: "named_by_id m \<Longrightarrow> named_by_id (node_map_loop ns m)"
  by (induction ns arbitrary: m) (simp_all add: named_by_id_mput)

lemma keys_mput: "set (map fst (mput k v m)) = insert k (set (map fst m))"
  by (simp add: mput_def AList.dom_update)

lemma node_map_loop_keys: "set (map fst (node_map_loop ns m)) = set (map fst m) \<union> wn_ID ` set ns"
  by (induction ns arbitrary: m) (simp_all add: keys_mput del: set_map)

lemma linear_loop_mwf: "mwf conns \<Longrightarrow> mwf (linear_loop nodes conns)"
  by (induction nodes conns rule: linear_loop.induct) auto

lemma edges_mem: "mwf conns \<Longrightarrow> (u, i, v) \<in> set (edges conns) \<longleftrightarrow> (\<exists>tss. mget conns u = Some tss \<and> (u, i, v) \<in> set (out_edges u 0 tss))"
proof -
  assume "mwf conns"
  have "(u, i, v) \<in> set (edges conns) \<longleftrightarrow> (u, i, v) \<in> set (filter (\<lambda>e. fst e = u) (edges conns))" by simp
  also have "\<dots> \<longleftrightarrow> (\<exists>tss. mget conns u = Some tss \<and> (u, i, v) \<in> set (out_edges u 0 tss))"
    by (subst edges_from [OF \<open>mwf conns\<close>]) (cases "mget conns u"; simp)
  finally show ?thesis .
qed

fun next_id :: "WorkflowNode list \<Rightarrow> string \<Rightarrow> string option" where
  "next_id (a # b # nodes) u = (if wn_ID a = u then Some (wn_ID b) else next_id (b # nodes) u)"
| "next_id nodes u = None"

lemma next_id_fresh: "u \<notin> wn_ID ` set nodes \<Longrightarrow> next_id nodes u = None"
  by (induction nodes u rule: next_id.induct) auto

lemma next_id_split: "next_id nodes u = Some v \<Longrightarrow> \<exists>pre a b post. nodes = pre @ a # b # post \<and> wn_ID a = u \<and> wn_ID b = v"
proof (induction nodes u rule: next_id.induct)
  case (1 a b nodes u)
  show ?case
  proof (cases "wn_ID a = u")
    case True
    with 1(2) show ?thesis by (intro exI [of _ "[]"]) auto
  next
    case False
    with 1 obtain pre x y post where "b # nodes = pre @ x # y # post" "wn_ID x = u" "wn_ID y = v" by auto
    then show ?thesis by (intro exI [of _ "a # pre"]) auto
  qed
qed simp_all

lemma linear_loop_get:
  "distinct (map wn_ID nodes) \<Longrightarrow> mget (linear_loop nodes conns) u =
     (case next_id nodes u of Some v \<Rightarrow> Some [[\<lparr>ct_Node = v, ct_Type = ''main'', ct_Index = 0\<rparr>]] | None \<Rightarrow> mget conns u)"
proof (induction nodes conns rule: linear_loop.induct)
  case (1 a b nodes conns)
  then show ?case by (auto simp: next_id_fresh split: option.split)
qed simp_all

lemma linear_edges:
  "distinct (map wn_ID nodes) \<Longrightarrow> (u, i, v) \<in> set (edges (linear_loop nodes [])) \<longleftrightarrow> i = 0 \<and> next_id nodes u = Some v"
  by (auto simp: edges_mem linear_loop_mwf linear_loop_get split: option.splits)

lemma linear_pred:
  assumes "distinct (map wn_ID (pre @ a # post))" "next_id (pre @ a # post) u = Some (wn_ID a)"
  shows "pre \<noteq> [] \<and> u = wn_ID (last pre)"
proof -
  obtain pre' x y post' where n: "pre @ a # post = pre' @ x # y # post'" "wn_ID x = u" "wn_ID y = wn_ID a"
    using next_id_split [OF assms(2)] by auto
  let ?f = "map wn_ID"
  have "?f pre @ wn_ID a # ?f post = ?f (pre' @ [x]) @ wn_ID a # ?f post'"
    using arg_cong [OF n(1), of ?f] n(3) by simp
  moreover have "wn_ID a \<notin> set (?f pre)" "wn_ID a \<notin> set (?f post)" using assms(1) by auto
  ultimately have "?f pre = ?f (pre' @ [x])" by (subst (asm) append_Cons_eq_iff) auto
  then have "?f pre = ?f pre' @ [u]" using n(2) by simp
  then have "pre \<noteq> []" "last (?f pre) = u" by auto
  then show ?thesis by (simp add: last_map)
qed

lemma linear_ready:
  assumes "distinct (map wn_ID nodes)" "nodes = pre @ a # post"
    and "pre \<noteq> [] \<Longrightarrow> wn_ID (last pre) \<in> set xs \<and> shouldFollowBranch (wn_ID (last pre)) 0 br"
  shows "ready (linear_loop nodes []) xs br (wn_ID a)"
proof -
  have "u \<in> set xs \<and> followed br (u, i, wn_ID a)" if "(u, i, wn_ID a) \<in> set (edges (linear_loop nodes []))" for u i
  proof -
    have "i = 0" "next_id nodes u = Some (wn_ID a)" using that by (simp_all add: linear_edges [OF assms(1)])
    with linear_pred [of pre a post u] assms show ?thesis by (simp add: followed_def)
  qed
  then show ?thesis by (auto simp: ready_def)
qed

text \<open>A pipeline without connections of its own, old pipelines among them, runs all of its nodes, each once:
  the generated chain lets every node follow the one before it, unless the run is stopped or a node
  chooses another port than the first.\<close>

theorem linear_pipeline_runs_all:
  assumes "range_order ord" "length (ep_Connections p) = 0" "distinct (map wn_ID (GetWorkflowNodes p))"
    and "executeDAG ord reg (node_map_loop (GetWorkflowNodes p) []) (GetWorkflowConnections p) ctx s = (result, d)"
    and "wr_Message result = []" "\<forall>u b. mget (dg_branch d) u = Some b \<longrightarrow> b = 0"
  shows "set (ran_ids (wr_NodeResults result)) = wn_ID ` set (GetWorkflowNodes p)
    \<and> length (wr_NodeResults result) = length (GetWorkflowNodes p)"
proof -
  let ?nodes = "GetWorkflowNodes p" and ?ran = "ran_ids (wr_NodeResults result)"
  let ?conns = "linear_loop ?nodes []" and ?map = "node_map_loop ?nodes []"
  have conns: "GetWorkflowConnections p = ?conns" using assms(2) by (simp add: GetWorkflowConnections_def)
  have nm: "named_by_id ?map" by (rule node_map_loop_named) (simp add: named_by_id_def)
  have wf: "mwf ?conns" by (simp add: linear_loop_mwf)
  note spec = executeDAG_spec [OF assms(1) wf nm assms(4) [unfolded conns]]
  have keys: "set (map fst ?map) = wn_ID ` set ?nodes" by (simp add: node_map_loop_keys del: set_map)
  have all: "wn_ID a \<in> set ?ran" if "?nodes = pre @ a # post" for pre a post
    using that
  proof (induction pre arbitrary: a post rule: rev_induct)
    case Nil
    then have "ready ?conns ?ran (dg_branch d) (wn_ID a)" by (intro linear_ready [OF assms(3)]) auto
    then show ?case using spec assms(5) keys Nil by auto
  next
    case (snoc x pre)
    then have "wn_ID x \<in> set ?ran" by simp
    moreover have "shouldFollowBranch (wn_ID x) 0 (dg_branch d)"
      using assms(6) by (simp add: shouldFollowBranch_def split: option.split)
    ultimately have "ready ?conns ?ran (dg_branch d) (wn_ID a)"
      by (intro linear_ready [OF assms(3) snoc.prems]) simp
    then show ?case using spec assms(5) keys snoc.prems by auto
  qed
  have "set ?ran = wn_ID ` set ?nodes"
  proof
    show "set ?ran \<subseteq> wn_ID ` set ?nodes" using spec keys by (simp add: sound_run_def)
    show "wn_ID ` set ?nodes \<subseteq> set ?ran" using all by (auto dest!: split_list)
  qed
  moreover have "distinct ?ran" using spec by (simp add: sound_run_def)
  ultimately show ?thesis using assms(3) distinct_card [of ?ran] distinct_card [of "map wn_ID ?nodes"] by (simp add: ran_ids_def)
qed

definition two_step :: EventPipeline where
  "two_step = \<lparr>ep_ID = 1, ep_Name = [], ep_TriggerMode = [], ep_UseCase = [], ep_Disabled = False, ep_FilterEnable = False,
     ep_LabelFilters = [], ep_AttrFilters = [],
     ep_ProcessorConfigs = [\<lparr>pc_Typ = ''nop'', pc_Config = VNil\<rparr>, \<lparr>pc_Typ = ''nop'', pc_Config = VNil\<rparr>],
     ep_Nodes = [], ep_Connections = [], ep_EnvVariables = []\<rparr>"

theorem linear_pipeline_runs_all_witness:
  "set (ran_ids (wr_NodeResults (fst (executeDAG (\<lambda>xs. xs) small_register (node_map_loop (GetWorkflowNodes two_step) [])
     (GetWorkflowConnections two_step) small_ctx ())))) = {''node_0'', ''node_1''}"
proof -
  let ?r = "executeDAG (\<lambda>xs. xs) small_register (node_map_loop (GetWorkflowNodes two_step) []) (GetWorkflowConnections two_step) small_ctx ()"
  have ids: "map wn_ID (GetWorkflowNodes two_step) = [''node_0'', ''node_1'']" by code_simp
  then have "wn_ID ` set (GetWorkflowNodes two_step) = {''node_0'', ''node_1''}" by (metis list.set(1) list.set(2) list.set_map)
  moreover have "wr_Message (fst ?r) = []" "dg_branch (snd ?r) = []" by code_simp+
  ultimately show ?thesis
    using linear_pipeline_runs_all [OF range_order_id, of two_step small_register small_ctx "()" "fst ?r" "snd ?r"] ids
    by (simp add: two_step_def)
qed

end
