(* ===== verification/Aggregator.thy ===== *)
theory Aggregator
  imports Denoise Workflow
begin

text \<open>
  The aggregation of events into incidents: the tables and their access (\<^verbatim>\<open>denoise/repo.go\<close>), the
  aggregator (\<^verbatim>\<open>denoise/aggregator.go\<close>), its pipeline processor (\<^verbatim>\<open>denoise/processor/aggregate.go\<close>) and
  the manual close of an incident (\<^verbatim>\<open>router/incident.go\<close>).

  A data base call may fail. The failures of one call of \<^verbatim>\<open>Handle\<close> are an argument, the record
  \<open>faults\<close>; a transaction that fails leaves the tables as they were. One call of \<^verbatim>\<open>Handle\<close> reads the clock
  once.
\<close>

section \<open>Tables\<close>

definition IncidentStatusOpen :: int where "IncidentStatusOpen = 0"
definition IncidentStatusResolved :: int where "IncidentStatusResolved = 1"
definition IncidentStatusClosed :: int where "IncidentStatusClosed = 2"

record CustomIncident =
  ci_Id :: int
  ci_RuleId :: int
  ci_IncidentKey :: string
  ci_GroupId :: int
  ci_DatasourceId :: int
  ci_GroupName :: string
  ci_Severity :: int
  ci_Title :: string
  ci_Summary :: string
  ci_DimensionValues :: string
  ci_Status :: int
  ci_EventCount :: int
  ci_FirstEventAt :: int
  ci_LastEventAt :: int
  ci_ResolvedAt :: int
  ci_ClosedAt :: int
  ci_StormFired :: int

record CustomIncidentEvent =
  ce_Id :: int
  ce_IncidentId :: int
  ce_EventHash :: string
  ce_EventId :: int
  ce_IsRecovered :: int
  ce_MergedAt :: int

text \<open>The two tables, and the ids their next rows get.\<close>

record tables =
  tb_incidents :: "CustomIncident list"
  tb_links :: "CustomIncidentEvent list"
  tb_nextIncident :: int
  tb_nextLink :: int

type_synonym fault = "string option"

section \<open>Repository\<close>

text \<open>\<^verbatim>\<open>ORDER BY id DESC LIMIT 1\<close> is the row with the greatest id; no row has id 0.\<close>

definition active_row :: "int \<Rightarrow> string \<Rightarrow> int \<Rightarrow> CustomIncident \<Rightarrow> bool" where
  "active_row ruleId key cutoff inc \<longleftrightarrow> ci_RuleId inc = ruleId \<and> ci_IncidentKey inc = key
     \<and> ci_Status inc = IncidentStatusOpen \<and> ci_LastEventAt inc \<ge> cutoff"

definition FindActiveIncident :: "fault \<Rightarrow> tables \<Rightarrow> int \<Rightarrow> string \<Rightarrow> int \<Rightarrow> int \<Rightarrow> string + CustomIncident option" where
  "FindActiveIncident fault db ruleId incidentKey windowSec now =
     (case fault of
        Some err \<Rightarrow> Inl err
      | None \<Rightarrow>
          (let cutoff = now - windowSec;
               rows = filter (active_row ruleId incidentKey cutoff) (tb_incidents db)
           in Inr (if rows = [] then None
                   else let inc = last (sort_key ci_Id rows) in if ci_Id inc = 0 then None else Some inc)))"

definition CreateIncident :: "fault \<Rightarrow> int \<Rightarrow> tables \<Rightarrow> CustomIncident \<Rightarrow> string + CustomIncident \<times> tables" where
  "CreateIncident fault now db inc =
     (let inc1 = (if ci_FirstEventAt inc = 0 then inc\<lparr>ci_FirstEventAt := now\<rparr> else inc);
          inc2 = (if ci_LastEventAt inc1 = 0 then inc1\<lparr>ci_LastEventAt := ci_FirstEventAt inc1\<rparr> else inc1);
          inc3 = (if ci_EventCount inc2 = 0 then inc2\<lparr>ci_EventCount := 1\<rparr> else inc2);
          inc4 = inc3\<lparr>ci_Status := IncidentStatusOpen, ci_Id := tb_nextIncident db\<rparr>
      in case fault of
           Some err \<Rightarrow> Inl err
         | None \<Rightarrow> Inr (inc4, db\<lparr>tb_incidents := tb_incidents db @ [inc4], tb_nextIncident := tb_nextIncident db + 1\<rparr>))"

definition new_link :: "int \<Rightarrow> AlertCurEvent \<Rightarrow> int \<Rightarrow> CustomIncidentEvent" where
  "new_link incidentId event now = \<lparr>ce_Id = 0, ce_IncidentId = incidentId, ce_EventHash = ev_Hash event,
     ce_EventId = ev_Id event, ce_IsRecovered = 0, ce_MergedAt = now\<rparr>"

definition create_link :: "tables \<Rightarrow> CustomIncidentEvent \<Rightarrow> tables" where
  "create_link db l = db\<lparr>tb_links := tb_links db @ [l\<lparr>ce_Id := tb_nextLink db\<rparr>], tb_nextLink := tb_nextLink db + 1\<rparr>"

definition append_update :: "int \<Rightarrow> int \<Rightarrow> bool \<Rightarrow> CustomIncident \<Rightarrow> CustomIncident" where
  "append_update now severity upgradeSeverity inc =
     inc\<lparr>ci_LastEventAt := now, ci_EventCount := ci_EventCount inc + 1,
         ci_Severity := (if upgradeSeverity \<and> ci_Severity inc > severity then severity else ci_Severity inc)\<rparr>"

definition update_incident :: "int \<Rightarrow> (CustomIncident \<Rightarrow> CustomIncident) \<Rightarrow> tables \<Rightarrow> tables" where
  "update_incident i f db = db\<lparr>tb_incidents := map (\<lambda>inc. if ci_Id inc = i then f inc else inc) (tb_incidents db)\<rparr>"

definition AppendEvent :: "fault \<Rightarrow> int \<Rightarrow> tables \<Rightarrow> int \<Rightarrow> AlertCurEvent \<Rightarrow> bool \<Rightarrow> string + tables" where
  "AppendEvent fault now db incidentId event upgradeSeverity =
     (case fault of
        Some err \<Rightarrow> Inl err
      | None \<Rightarrow> Inr (create_link (update_incident incidentId (append_update now (ev_Severity event) upgradeSeverity) db)
                  (new_link incidentId event now)))"

definition MarkEventRecovered :: "fault \<Rightarrow> int \<Rightarrow> tables \<Rightarrow> int \<Rightarrow> string \<Rightarrow> string + tables" where
  "MarkEventRecovered fault now db incidentId eventHash =
     (case fault of
        Some err \<Rightarrow> Inl err
      | None \<Rightarrow>
          (let db1 = db\<lparr>tb_links := map (\<lambda>l. if ce_IncidentId l = incidentId \<and> ce_EventHash l = eventHash
                                          then l\<lparr>ce_IsRecovered := 1\<rparr> else l) (tb_links db)\<rparr>;
               unrecovered = length (filter (\<lambda>l. ce_IncidentId l = incidentId \<and> ce_IsRecovered l = 0) (tb_links db1))
           in if unrecovered > 0 then Inr db1
              else Inr (update_incident incidentId
                     (\<lambda>inc. if ci_Status inc = IncidentStatusOpen
                            then inc\<lparr>ci_Status := IncidentStatusResolved, ci_ResolvedAt := now\<rparr> else inc) db1)))"

text \<open>The result tells whether a row was changed.\<close>

definition MarkStormFired :: "fault \<Rightarrow> tables \<Rightarrow> int \<Rightarrow> string + bool \<times> tables" where
  "MarkStormFired fault db incidentId =
     (case fault of
        Some err \<Rightarrow> Inl err
      | None \<Rightarrow> Inr (\<exists>inc \<in> set (tb_incidents db). ci_Id inc = incidentId \<and> ci_StormFired inc = 0,
          update_incident incidentId (\<lambda>inc. if ci_StormFired inc = 0 then inc\<lparr>ci_StormFired := 1\<rparr> else inc) db))"

definition EncodeDimensionValues :: "stdlib \<Rightarrow> tags \<Rightarrow> string + string" where
  "EncodeDimensionValues L values = Inr (json_marshal L (VMap (map (\<lambda>(k, v). (k, VString v)) values)))"

section \<open>The aggregator\<close>

datatype Verdict = DecisionPassThrough | DecisionFireFirst | DecisionMerged | DecisionStorm

record Result =
  rs_Decision :: Verdict
  rs_IncidentId :: int
  rs_RuleId :: int
  rs_Reason :: string

definition pass_through :: "int \<Rightarrow> string \<Rightarrow> Result" where
  "pass_through ruleId reason = \<lparr>rs_Decision = DecisionPassThrough, rs_IncidentId = 0, rs_RuleId = ruleId, rs_Reason = reason\<rparr>"

record faults =
  fl_find :: fault
  fl_append :: fault
  fl_create :: fault
  fl_link :: fault
  fl_storm :: fault

definition no_faults :: faults where
  "no_faults = \<lparr>fl_find = None, fl_append = None, fl_create = None, fl_link = None, fl_storm = None\<rparr>"

record Aggregator =
  ag_db :: tables
  ag_index :: ActiveIncidentIndex
  ag_storm :: StormDetector

definition decodeStringSlice :: "stdlib \<Rightarrow> string \<Rightarrow> string + string list" where
  "decodeStringSlice L raw = (if length raw = 0 then Inr [] else json_strings L raw)"

fun title_loop :: "tags \<Rightarrow> nat \<Rightarrow> string list \<Rightarrow> string \<Rightarrow> string" where
  "title_loop dimVals i [] pairs = pairs"
| "title_loop dimVals i (k # ks) pairs =
     title_loop dimVals (Suc i) ks
       (pairs @ (if i > 0 then '', '' else []) @ k @ ''='' @ (case mget dimVals k of None \<Rightarrow> [] | Some v \<Rightarrow> v))"

definition buildTitle :: "AlertCurEvent \<Rightarrow> tags \<Rightarrow> string" where
  "buildTitle event dimVals =
     (let pairs = title_loop dimVals 0 (sort (map fst dimVals)) []
      in if ev_RuleName event \<noteq> [] then ''['' @ ev_RuleName event @ ''] '' @ pairs else pairs)"

definition merged_result :: "int \<Rightarrow> CustomAggregateRule \<Rightarrow> Result" where
  "merged_result incidentId rule = \<lparr>rs_Decision = DecisionMerged, rs_IncidentId = incidentId, rs_RuleId = gr_Id rule,
     rs_Reason = ''merged into incident '' @ Itoa incidentId\<rparr>"

definition storm_result :: "int \<Rightarrow> CustomAggregateRule \<Rightarrow> Result" where
  "storm_result incidentId rule = \<lparr>rs_Decision = DecisionStorm, rs_IncidentId = incidentId, rs_RuleId = gr_Id rule,
     rs_Reason = ''storm threshold crossed on incident '' @ Itoa incidentId\<rparr>"

definition claim_storm :: "fault \<Rightarrow> CustomAggregateRule \<Rightarrow> int \<Rightarrow> Aggregator \<Rightarrow> (string + Result) \<times> Aggregator" where
  "claim_storm fault rule incidentId a =
     (case MarkStormFired fault (ag_db a) incidentId of
        Inl err \<Rightarrow> (Inr (merged_result incidentId rule), a)
      | Inr (fired, db) \<Rightarrow> (Inr (if fired then storm_result incidentId rule else merged_result incidentId rule), a\<lparr>ag_db := db\<rparr>))"

definition merge :: "faults \<Rightarrow> bool \<Rightarrow> int \<Rightarrow> AlertCurEvent \<Rightarrow> CustomAggregateRule \<Rightarrow> int \<Rightarrow> Aggregator \<Rightarrow> (string + Result) \<times> Aggregator" where
  "merge fl upgradeOn now event rule incidentId a =
     (case AppendEvent (fl_append fl) now (ag_db a) incidentId event upgradeOn of
        Inl err \<Rightarrow> (Inl (''append event to incident '' @ Itoa incidentId @ '': '' @ err), a)
      | Inr db \<Rightarrow>
          (let (storm, s) = Observe now (ag_storm a) incidentId (gr_StormThreshold rule) (gr_StormWindowSec rule);
               a' = a\<lparr>ag_db := db, ag_index := aii_Put now (ag_index a) (gr_Id rule) [] incidentId, ag_storm := s\<rparr>
           in if storm then claim_storm (fl_storm fl) rule incidentId a'
              else (Inr (merged_result incidentId rule), a')))"

definition new_incident :: "int \<Rightarrow> AlertCurEvent \<Rightarrow> CustomAggregateRule \<Rightarrow> string \<Rightarrow> tags \<Rightarrow> string \<Rightarrow> CustomIncident" where
  "new_incident now event rule key dimVals dimJSON =
     \<lparr>ci_Id = 0, ci_RuleId = gr_Id rule, ci_IncidentKey = key, ci_GroupId = ev_GroupId event,
      ci_DatasourceId = ev_DatasourceId event, ci_GroupName = ev_GroupName event, ci_Severity = ev_Severity event,
      ci_Title = buildTitle event dimVals, ci_Summary = ev_RuleNote event, ci_DimensionValues = dimJSON, ci_Status = 0,
      ci_EventCount = 1, ci_FirstEventAt = now, ci_LastEventAt = now, ci_ResolvedAt = 0, ci_ClosedAt = 0, ci_StormFired = 0\<rparr>"

definition createNew ::
  "stdlib \<Rightarrow> faults \<Rightarrow> int \<Rightarrow> AlertCurEvent \<Rightarrow> CustomAggregateRule \<Rightarrow> string list \<Rightarrow> string \<Rightarrow> Aggregator \<Rightarrow> (string + Result) \<times> Aggregator" where
  "createNew L fl now event rule dims key a =
     (let dimVals = DimensionValuesMap (Some event) dims in
      case EncodeDimensionValues L dimVals of
        Inl err \<Rightarrow> (Inl (''encode dimension values: '' @ err), a)
      | Inr dimJSON \<Rightarrow>
          (case CreateIncident (fl_create fl) now (ag_db a) (new_incident now event rule key dimVals dimJSON) of
             Inl err \<Rightarrow> (Inl (''create incident: '' @ err), a)
           | Inr (inc, db1) \<Rightarrow>
               (let first = \<lparr>rs_Decision = DecisionFireFirst, rs_IncidentId = ci_Id inc, rs_RuleId = gr_Id rule,
                             rs_Reason = ''created incident '' @ Itoa (ci_Id inc)\<rparr>
                in case fl_link fl of
                     Some err \<Rightarrow>
                       (Inr (first\<lparr>rs_Reason := rs_Reason first @ '' (seed link failed: '' @ err @ '')''\<rparr>), a\<lparr>ag_db := db1\<rparr>)
                   | None \<Rightarrow>
                       (Inr first, a\<lparr>ag_db := create_link db1 (new_link (ci_Id inc) event now),
                                    ag_index := aii_Put now (ag_index a) (gr_Id rule) key (ci_Id inc)\<rparr>))))"

definition merge_or_create ::
  "stdlib \<Rightarrow> faults \<Rightarrow> bool \<Rightarrow> int \<Rightarrow> AlertCurEvent \<Rightarrow> CustomAggregateRule \<Rightarrow> string list \<Rightarrow> string \<Rightarrow> Aggregator \<Rightarrow> (string + Result) \<times> Aggregator" where
  "merge_or_create L fl upgradeOn now ev rule dims key a =
     (let (incidentId, hit) = aii_Get now (ag_index a) (gr_Id rule) key (gr_WindowSec rule) in
      if hit then merge fl upgradeOn now ev rule incidentId a
      else case FindActiveIncident (fl_find fl) (ag_db a) (gr_Id rule) key (gr_WindowSec rule) now of
        Inl err \<Rightarrow> (Inl (''find active incident: '' @ err), a)
      | Inr found \<Rightarrow> (case found of
          Some existing \<Rightarrow>
            merge fl upgradeOn now ev rule (ci_Id existing)
              (a\<lparr>ag_index := aii_Put now (ag_index a) (gr_Id rule) key (ci_Id existing)\<rparr>)
        | None \<Rightarrow> createNew L fl now ev rule dims key a))"

definition agg_Handle ::
  "stdlib \<Rightarrow> faults \<Rightarrow> bool \<Rightarrow> int \<Rightarrow> CustomAggregateRule list \<Rightarrow> AlertCurEvent option \<Rightarrow> Aggregator \<Rightarrow> (string + Result) \<times> Aggregator" where
  "agg_Handle L fl upgradeOn now rules event a =
     (case event of
        None \<Rightarrow> (Inr (pass_through 0 ''nil event''), a)
      | Some ev \<Rightarrow> (case SelectBestRule L event rules of
          None \<Rightarrow> (Inr (pass_through 0 ''no aggregate rule matched''), a)
        | Some rule \<Rightarrow> (case decodeStringSlice L (gr_Dimensions rule) of
            Inl err \<Rightarrow> (Inr (pass_through (gr_Id rule) (''rule '' @ Itoa (gr_Id rule) @ '' has invalid dimensions: '' @ err)), a)
          | Inr dims \<Rightarrow>
              if length dims = 0
              then (Inr (pass_through (gr_Id rule) (''rule '' @ Itoa (gr_Id rule) @ '' has invalid dimensions: <nil>'')), a)
              else if BuildIncidentKey event dims = []
              then (Inr (pass_through (gr_Id rule) ''empty incident key''), a)
              else merge_or_create L fl upgradeOn now ev rule dims (BuildIncidentKey event dims) a)))"

text \<open>The processor; \<open>None\<close> for the aggregator is one that is not wired yet. The message is part of the result.\<close>

record AggregateConfig =
  ac_Mode :: string

definition agg_Process ::
  "stdlib \<Rightarrow> faults \<Rightarrow> bool \<Rightarrow> int \<Rightarrow> CustomAggregateRule list \<Rightarrow> AggregateConfig \<Rightarrow> Aggregator option process" where
  "agg_Process L fl upgradeOn now rules c wfCtx agg =
     (case agg of
        None \<Rightarrow> (Inr (Same, ''aggregator not initialized; pass-through''), wfCtx, agg)
      | Some a \<Rightarrow> (case wc_Event wfCtx of
          None \<Rightarrow> (Inr (Same, ''no event to aggregate''), wfCtx, agg)
        | Some event \<Rightarrow> (case agg_Handle L fl upgradeOn now rules (Some event) a of
            (Inl err, a') \<Rightarrow> (Inr (Same, ''aggregation error: '' @ err @ '' (passed through)''), wfCtx, Some a')
          | (Inr res, a') \<Rightarrow>
              (if rs_Decision res = DecisionPassThrough \<or> rs_Decision res = DecisionFireFirst
               then (Inr (Same, rs_Reason res), wfCtx, Some a')
               else if ac_Mode c = ''annotate''
               then (Inr (Same, rs_Reason res),
                     wfCtx\<lparr>wc_Event := Some (event\<lparr>ev_TagsMap := mput ''incident_id'' (Itoa (rs_IncidentId res)) (ev_TagsMap event)\<rparr>)\<rparr>,
                     Some a')
               else (Inr (Same, rs_Reason res), wfCtx\<lparr>wc_Event := None\<rparr>, Some a')))))"

section \<open>Closing an incident by hand\<close>

definition incidentClose :: "fault \<Rightarrow> fault \<Rightarrow> int \<Rightarrow> int \<Rightarrow> tables \<Rightarrow> string + CustomIncident \<times> tables" where
  "incidentClose first update now i db =
     (case (first, find (\<lambda>inc. ci_Id inc = i) (tb_incidents db)) of
        (Some err, _) \<Rightarrow> Inl err
      | (None, None) \<Rightarrow> Inl ''record not found''
      | (None, Some existing) \<Rightarrow>
          if ci_Status existing = IncidentStatusClosed then Inr (existing, db)
          else (case update of
            Some err \<Rightarrow> Inl err
          | None \<Rightarrow>
              (let close = (\<lambda>inc. inc\<lparr>ci_Status := IncidentStatusClosed, ci_ClosedAt := now\<rparr>)
               in Inr (close existing, update_incident i close db))))"

section \<open>What a call of the aggregator does\<close>

definition appended :: "int \<Rightarrow> bool \<Rightarrow> int \<Rightarrow> AlertCurEvent \<Rightarrow> tables \<Rightarrow> tables" where
  "appended now up i ev db =
     create_link (update_incident i (append_update now (ev_Severity ev) up) db) (new_link i ev now)"

definition mark_storm :: "CustomIncident \<Rightarrow> CustomIncident" where
  "mark_storm inc = (if ci_StormFired inc = 0 then inc\<lparr>ci_StormFired := 1\<rparr> else inc)"

definition unfired :: "int \<Rightarrow> tables \<Rightarrow> bool" where
  "unfired i db \<longleftrightarrow> (\<exists>inc \<in> set (tb_incidents db). ci_Id inc = i \<and> ci_StormFired inc = 0)"

text \<open>The three ways in which a merge can end.\<close>

lemma merge_cases:
  assumes "merge fl up now ev rule i a = (out, a')"
  obtains (failed) e where "out = Inl e" "a' = a"
  | (merged) "out = Inr (merged_result i rule)" "ag_db a' = appended now up i ev (ag_db a)"
      "ag_index a' = aii_Put now (ag_index a) (gr_Id rule) [] i"
  | (claimed) "out = Inr (if unfired i (appended now up i ev (ag_db a)) then storm_result i rule else merged_result i rule)"
      "ag_db a' = update_incident i mark_storm (appended now up i ev (ag_db a))"
      "ag_index a' = aii_Put now (ag_index a) (gr_Id rule) [] i"
proof (cases "fl_append fl")
  case (Some e)
  with assms failed show thesis by (auto simp: merge_def AppendEvent_def)
next
  case None
  obtain storm s where ob: "Observe now (ag_storm a) i (gr_StormThreshold rule) (gr_StormWindowSec rule) = (storm, s)"
    by (cases "Observe now (ag_storm a) i (gr_StormThreshold rule) (gr_StormWindowSec rule)")
  let ?a = "a\<lparr>ag_db := appended now up i ev (ag_db a), ag_index := aii_Put now (ag_index a) (gr_Id rule) [] i, ag_storm := s\<rparr>"
  have m: "(if storm then claim_storm (fl_storm fl) rule i ?a else (Inr (merged_result i rule), ?a)) = (out, a')"
    unfolding assms [symmetric] by (simp add: merge_def AppendEvent_def appended_def Let_def None ob)
  show thesis
  proof (cases "storm \<and> fl_storm fl = None")
    case True
    with m claimed show thesis
      by (auto simp add: claim_storm_def MarkStormFired_def unfired_def mark_storm_def [abs_def])
  next
    case False
    with m merged show thesis by (auto simp: claim_storm_def MarkStormFired_def split: if_splits option.splits)
  qed
qed

lemma createNew_cases:
  assumes "createNew L fl now ev rule dims key a = (out, a')"
  obtains (failed) e where "out = Inl e" "a' = a"
  | (created) inc r where "out = Inr r" "rs_Decision r = DecisionFireFirst" "rs_IncidentId r = tb_nextIncident (ag_db a)"
      "inc = (new_incident now ev rule key (DimensionValuesMap (Some ev) dims)
         (json_marshal L (VMap (map (\<lambda>(k, v). (k, VString v)) (DimensionValuesMap (Some ev) dims)))))\<lparr>
           ci_FirstEventAt := now, ci_LastEventAt := now, ci_Id := tb_nextIncident (ag_db a)\<rparr>"
      "fl_link fl = None \<and> ag_db a' = create_link ((ag_db a)\<lparr>tb_incidents := tb_incidents (ag_db a) @ [inc], tb_nextIncident := tb_nextIncident (ag_db a) + 1\<rparr>)
           (new_link (tb_nextIncident (ag_db a)) ev now)
         \<and> ag_index a' = aii_Put now (ag_index a) (gr_Id rule) key (tb_nextIncident (ag_db a))
       \<or> fl_link fl \<noteq> None \<and> ag_db a' = (ag_db a)\<lparr>tb_incidents := tb_incidents (ag_db a) @ [inc], tb_nextIncident := tb_nextIncident (ag_db a) + 1\<rparr>
         \<and> ag_index a' = ag_index a"
      "ag_storm a' = ag_storm a"
proof (cases "fl_create fl")
  case (Some e)
  with assms failed show thesis by (auto simp: createNew_def EncodeDimensionValues_def CreateIncident_def Let_def)
next
  case None
  let ?inc = "(new_incident now ev rule key (DimensionValuesMap (Some ev) dims)
         (json_marshal L (VMap (map (\<lambda>(k, v). (k, VString v)) (DimensionValuesMap (Some ev) dims)))))\<lparr>
           ci_FirstEventAt := now, ci_LastEventAt := now, ci_Id := tb_nextIncident (ag_db a)\<rparr>"
  have c: "CreateIncident None now (ag_db a) (new_incident now ev rule key (DimensionValuesMap (Some ev) dims)
         (json_marshal L (VMap (map (\<lambda>(k, v). (k, VString v)) (DimensionValuesMap (Some ev) dims))))) =
      Inr (?inc, (ag_db a)\<lparr>tb_incidents := tb_incidents (ag_db a) @ [?inc], tb_nextIncident := tb_nextIncident (ag_db a) + 1\<rparr>)"
    by (simp add: CreateIncident_def new_incident_def IncidentStatusOpen_def Let_def)
  show thesis
    using assms None c created [of _ ?inc]
    by (simp add: createNew_def EncodeDimensionValues_def Let_def split: option.splits) auto
qed

text \<open>Every call is one of: passed on or failed without effect, a merge, or a new incident.\<close>

lemma agg_Handle_cases:
  assumes "agg_Handle L fl up now rules (Some ev) a = (out, a')"
  obtains (nothing) "a' = a" "\<And>r. out = Inr r \<Longrightarrow> rs_Decision r = DecisionPassThrough"
  | (keyed) rule dims where "SelectBestRule L (Some ev) rules = Some rule" "decodeStringSlice L (gr_Dimensions rule) = Inr dims"
      "dims \<noteq> []" "BuildIncidentKey (Some ev) dims \<noteq> []"
      "merge_or_create L fl up now ev rule dims (BuildIncidentKey (Some ev) dims) a = (out, a')"
  using assms
  by (auto simp: agg_Handle_def pass_through_def split: option.splits sum.splits if_splits)

lemma merge_or_create_cases:
  assumes "merge_or_create L fl up now ev rule dims key a = (out, a')"
  obtains (hit) i where "aii_Get now (ag_index a) (gr_Id rule) key (gr_WindowSec rule) = (i, True)"
      "merge fl up now ev rule i a = (out, a')"
  | (failed) e where "out = Inl e" "a' = a"
  | (found) inc where "FindActiveIncident None (ag_db a) (gr_Id rule) key (gr_WindowSec rule) now = Inr (Some inc)"
      "merge fl up now ev rule (ci_Id inc) (a\<lparr>ag_index := aii_Put now (ag_index a) (gr_Id rule) key (ci_Id inc)\<rparr>) = (out, a')"
  | (fresh) "FindActiveIncident None (ag_db a) (gr_Id rule) key (gr_WindowSec rule) now = Inr None"
      "createNew L fl now ev rule dims key a = (out, a')"
proof (cases "aii_Get now (ag_index a) (gr_Id rule) key (gr_WindowSec rule)")
  case (Pair i h)
  show thesis
  proof (cases "h \<or> fl_find fl \<noteq> None")
    case True
    with assms Pair hit failed show thesis
      by (auto simp: merge_or_create_def FindActiveIncident_def split: if_splits)
  next
    case False
    obtain res where f: "FindActiveIncident None (ag_db a) (gr_Id rule) key (gr_WindowSec rule) now = Inr res"
      by (simp add: FindActiveIncident_def Let_def)
    with False assms Pair found fresh show thesis by (cases res) (simp_all add: merge_or_create_def)
  qed
qed

section \<open>The rows a call touches\<close>

text \<open>What a merge may do to the row of its incident.\<close>

definition touches :: "int \<Rightarrow> (CustomIncident \<Rightarrow> CustomIncident) \<Rightarrow> bool" where
  "touches now g \<longleftrightarrow> (\<forall>inc. ci_Id (g inc) = ci_Id inc \<and> ci_RuleId (g inc) = ci_RuleId inc
     \<and> ci_IncidentKey (g inc) = ci_IncidentKey inc \<and> ci_Status (g inc) = ci_Status inc
     \<and> ci_LastEventAt (g inc) = now \<and> ci_EventCount (g inc) = ci_EventCount inc + 1
     \<and> (ci_StormFired inc \<noteq> 0 \<longrightarrow> ci_StormFired (g inc) \<noteq> 0))"

lemma touches_append: "touches now (append_update now sev up)"
  by (simp add: touches_def append_update_def)

lemma touches_mark: "touches now g \<Longrightarrow> touches now (mark_storm \<circ> g)"
  by (simp add: touches_def mark_storm_def)

definition update_row :: "int \<Rightarrow> (CustomIncident \<Rightarrow> CustomIncident) \<Rightarrow> CustomIncident \<Rightarrow> CustomIncident" where
  "update_row i g inc = (if ci_Id inc = i then g inc else inc)"

lemma appended_simps [simp]:
  "tb_incidents (appended now up i ev db) = map (update_row i (append_update now (ev_Severity ev) up)) (tb_incidents db)"
  "tb_links (appended now up i ev db) = tb_links db @ [(new_link i ev now)\<lparr>ce_Id := tb_nextLink db\<rparr>]"
  "tb_nextIncident (appended now up i ev db) = tb_nextIncident db"
  by (simp_all add: appended_def create_link_def update_incident_def update_row_def [abs_def])

lemma update_incident_simps [simp]:
  "tb_incidents (update_incident i g db) = map (update_row i g) (tb_incidents db)"
  "tb_links (update_incident i g db) = tb_links db"
  "tb_nextIncident (update_incident i g db) = tb_nextIncident db"
  by (simp_all add: update_incident_def update_row_def [abs_def])

lemma update_row_twice:
  "touches now g \<Longrightarrow> update_row i h \<circ> update_row i g = update_row i (h \<circ> g)"
  by (auto simp: update_row_def touches_def fun_eq_iff)

lemma unfired_appended: "unfired i (appended now up i ev db) = unfired i db"
proof -
  have "ci_Id (update_row i (append_update now sev up) inc) = ci_Id inc"
    and "ci_StormFired (update_row i (append_update now sev up) inc) = ci_StormFired inc" for sev inc
    by (simp_all add: update_row_def append_update_def)
  then show ?thesis by (simp add: unfired_def)
qed

lemma marked_row:
  "ci_Id (update_row i (mark_storm \<circ> append_update now sev up) inc) = i \<longrightarrow>
   ci_StormFired (update_row i (mark_storm \<circ> append_update now sev up) inc) \<noteq> 0"
  by (simp add: update_row_def mark_storm_def append_update_def)

lemma merge_rows:
  assumes "merge fl up now ev rule i a = (Inr r, a')"
  obtains g where "touches now g" "tb_incidents (ag_db a') = map (update_row i g) (tb_incidents (ag_db a))"
    "tb_links (ag_db a') = tb_links (ag_db a) @ [(new_link i ev now)\<lparr>ce_Id := tb_nextLink (ag_db a)\<rparr>]"
    "tb_nextIncident (ag_db a') = tb_nextIncident (ag_db a)"
    "ag_index a' = aii_Put now (ag_index a) (gr_Id rule) [] i"
    "rs_IncidentId r = i" "rs_Decision r = DecisionMerged \<or> rs_Decision r = DecisionStorm \<and> unfired i (ag_db a)
       \<and> (\<forall>inc \<in> set (tb_incidents (ag_db a')). ci_Id inc = i \<longrightarrow> ci_StormFired inc \<noteq> 0)"
  using assms
proof (cases rule: merge_cases)
  case merged
  show thesis
    by (rule that [OF touches_append [of now "ev_Severity ev" up]]) (use merged in \<open>simp_all add: merged_result_def\<close>)
next
  case claimed
  let ?g = "append_update now (ev_Severity ev) up"
  have rows: "tb_incidents (ag_db a') = map (update_row i (mark_storm \<circ> ?g)) (tb_incidents (ag_db a))"
    using claimed by (simp add: update_row_twice [OF touches_append])
  have f: "\<forall>inc \<in> set (tb_incidents (ag_db a')). ci_Id inc = i \<longrightarrow> ci_StormFired inc \<noteq> 0"
    unfolding rows using marked_row by simp
  have r: "r = (if unfired i (ag_db a) then storm_result i rule else merged_result i rule)"
    using claimed(1) by (simp add: unfired_appended)
  show thesis
  proof (rule that [OF touches_mark [OF touches_append [of now "ev_Severity ev" up]] rows])
    show "rs_Decision r = DecisionMerged \<or> rs_Decision r = DecisionStorm \<and> unfired i (ag_db a)
       \<and> (\<forall>inc \<in> set (tb_incidents (ag_db a')). ci_Id inc = i \<longrightarrow> ci_StormFired inc \<noteq> 0)"
      using r f by (cases "unfired i (ag_db a)") (simp_all add: merged_result_def storm_result_def)
  qed (use claimed(2,3) r in \<open>simp_all add: merged_result_def storm_result_def\<close>)
qed simp

lemma merge_Inl: "merge fl up now ev rule i a = (Inl e, a') \<Longrightarrow> a' = a"
  by (erule merge_cases) auto

lemma merge_append: "merge fl up now ev rule i a = (Inr r, a') \<Longrightarrow> fl_append fl = None"
  by (auto simp: merge_def AppendEvent_def split: option.splits)

lemma merge_drops_index: "merge fl up now ev rule i (a\<lparr>ag_index := x\<rparr>) =
    (fst (merge fl up now ev rule i a),
     (snd (merge fl up now ev rule i a))\<lparr>ag_index := ag_index (snd (merge fl up now ev rule i (a\<lparr>ag_index := x\<rparr>)))\<rparr>)"
  by (simp add: merge_def AppendEvent_def claim_storm_def MarkStormFired_def Let_def split: option.splits prod.splits)

lemma folded_by_merge:
  assumes "agg_Handle L fl up now rules (Some ev) a = (Inr r, a')"
    and "rs_Decision r = DecisionMerged \<or> rs_Decision r = DecisionStorm"
  obtains rule i a0 where "merge fl up now ev rule i a0 = (Inr r, a')" "ag_db a0 = ag_db a"
  using assms(1)
proof (cases rule: agg_Handle_cases)
  case (keyed rule dims)
  from keyed(5) show thesis
  proof (cases rule: merge_or_create_cases)
    case (hit i)
    then show thesis by (intro that [of rule i a]) simp_all
  next
    case (found inc)
    from found(2) show thesis by (rule that) simp
  next
    case fresh
    from fresh(2) assms(2) show thesis by (cases rule: createNew_cases) auto
  qed simp
qed (use assms(2) in auto)

section \<open>Correctness\<close>

text \<open>(C6) Aggregation loses no event and fails open. The aggregate processor never returns an error. It removes the
  event from the pipeline only when it is not in annotate mode and the event has just been written, by a
  transaction that succeeded, as a new row of the incident-event table; otherwise the event goes on. In
  particular a failing data base never silences an alert.\<close>

theorem dropped_event_is_recorded:
  assumes "agg_Process L fl up now rules c wfCtx (Some a) = (out, wfCtx', agg')" "wc_Event wfCtx = Some ev"
  shows "(\<exists>msg. out = Inr (Same, msg)) \<and> (\<exists>a'. agg' = Some a' \<and>
    (wc_Event wfCtx' = None \<longrightarrow> ac_Mode c \<noteq> ''annotate'' \<and> fl_append fl = None \<and>
      (\<exists>i. tb_links (ag_db a') = tb_links (ag_db a) @ [(new_link i ev now)\<lparr>ce_Id := tb_nextLink (ag_db a)\<rparr>])))"
proof -
  obtain o' a' where h: "agg_Handle L fl up now rules (Some ev) a = (o', a')"
    by (cases "agg_Handle L fl up now rules (Some ev) a")
  show ?thesis
  proof (cases "wc_Event wfCtx' = None")
    case False
    with assms h show ?thesis by (cases o') (auto simp: agg_Process_def split: if_splits)
  next
    case True
    then obtain r where r: "o' = Inr r" "rs_Decision r \<noteq> DecisionPassThrough" "rs_Decision r \<noteq> DecisionFireFirst"
      "ac_Mode c \<noteq> ''annotate''" "\<exists>msg. out = Inr (Same, msg)" "agg' = Some a'"
      using assms h by (cases o') (auto simp: agg_Process_def split: if_splits)
    then have d: "rs_Decision r = DecisionMerged \<or> rs_Decision r = DecisionStorm" by (cases "rs_Decision r") auto
    obtain rule i a0 where m: "merge fl up now ev rule i a0 = (Inr r, a')" "ag_db a0 = ag_db a"
      using h unfolding r(1) by (rule folded_by_merge [OF _ d])
    have "tb_links (ag_db a') = tb_links (ag_db a) @ [(new_link i ev now)\<lparr>ce_Id := tb_nextLink (ag_db a)\<rparr>]"
      using m(1) by (rule merge_rows) (simp add: m(2))
    moreover have "fl_append fl = None" using m(1) by (rule merge_append)
    ultimately show ?thesis using r by blast
  qed
qed

text \<open>A small example: one rule that groups by the tag \<open>service\<close>, in a library that decodes its
  dimensions.\<close>

definition dims_lib :: stdlib where
  "dims_lib = literal_lib\<lparr>json_strings := (\<lambda>raw. Inr [''service''])\<rparr>"

definition no_tables :: tables where
  "no_tables = \<lparr>tb_incidents = [], tb_links = [], tb_nextIncident = 1, tb_nextLink = 1\<rparr>"

definition fresh_agg :: Aggregator where
  "fresh_agg = \<lparr>ag_db = no_tables, ag_index = [], ag_storm = []\<rparr>"

definition order_event :: AlertCurEvent where
  "order_event = (tagged [(''service'', ''order'')])\<lparr>ev_Hash := ''h'', ev_Severity := 2\<rparr>"

definition after_first :: Aggregator where
  "after_first = snd (agg_Handle dims_lib no_faults True 100 [plain_rule 7 0] (Some order_event) fresh_agg)"

theorem dropped_event_is_recorded_witness:
  "agg_Process dims_lib no_faults True 130 [plain_rule 7 0] \<lparr>ac_Mode = ''drop''\<rparr>
       (small_ctx\<lparr>wc_Event := Some order_event\<rparr>) (Some after_first)
     = (Inr (Same, ''merged into incident 1''), small_ctx\<lparr>wc_Event := None\<rparr>,
        Some (snd (agg_Handle dims_lib no_faults True 130 [plain_rule 7 0] (Some order_event) after_first)))
   \<and> (\<exists>i. tb_links (ag_db (snd (agg_Handle dims_lib no_faults True 130 [plain_rule 7 0] (Some order_event) after_first))) =
        tb_links (ag_db after_first) @ [(new_link i order_event 130)\<lparr>ce_Id := tb_nextLink (ag_db after_first)\<rparr>])"
proof -
  have run: "agg_Process dims_lib no_faults True 130 [plain_rule 7 0] \<lparr>ac_Mode = ''drop''\<rparr>
       (small_ctx\<lparr>wc_Event := Some order_event\<rparr>) (Some after_first)
     = (Inr (Same, ''merged into incident 1''), small_ctx\<lparr>wc_Event := None\<rparr>,
        Some (snd (agg_Handle dims_lib no_faults True 130 [plain_rule 7 0] (Some order_event) after_first)))"
    by code_simp
  show ?thesis using dropped_event_is_recorded [OF run] run by simp
qed

end
