(* ===== verification/Incident_History.thy ===== *)
theory Incident_History
  imports Aggregator
begin

text \<open>
  Histories of the aggregator: sequences of handled events, incidents closed by hand, recovered links and
  restarts. The invariant of the incident tables and of the cache over every history, that an incident is
  reported as a storm once, that an open incident within its window absorbs the next events of its key,
  and that the cache only saves the look-up in the data base.
\<close>

section \<open>Histories of the aggregator\<close>

text \<open>What happens to the tables and to the memory of the aggregator over time: events, incidents closed by hand,
  links marked as recovered, and restarts of the process, which empty the memory but not the tables.\<close>

datatype agg_op =
    HandleOp faults bool int "CustomAggregateRule list" "AlertCurEvent option"
  | CloseOp fault fault int int
  | RecoveredOp fault int int string
  | RestartOp

fun with_db :: "Aggregator \<Rightarrow> string + 'r \<times> tables \<Rightarrow> Aggregator" where
  "with_db a (Inl e) = a"
| "with_db a (Inr (r, db)) = a\<lparr>ag_db := db\<rparr>"

fun agg_exec :: "stdlib \<Rightarrow> agg_op \<Rightarrow> Aggregator \<Rightarrow> Result option \<times> Aggregator" where
  "agg_exec L (HandleOp fl up now rules ev) a =
     (case agg_Handle L fl up now rules ev a of (out, a') \<Rightarrow> (case out of Inl e \<Rightarrow> None | Inr r \<Rightarrow> Some r, a'))"
| "agg_exec L (CloseOp f1 f2 now i) a = (None, with_db a (incidentClose f1 f2 now i (ag_db a)))"
| "agg_exec L (RecoveredOp f now i h) a =
     (None, case MarkEventRecovered f now (ag_db a) i h of Inl e \<Rightarrow> a | Inr db \<Rightarrow> a\<lparr>ag_db := db\<rparr>)"
| "agg_exec L RestartOp a = (None, a\<lparr>ag_index := [], ag_storm := []\<rparr>)"

inductive agg_run :: "stdlib \<Rightarrow> Aggregator \<Rightarrow> (agg_op \<times> Result option) list \<Rightarrow> Aggregator \<Rightarrow> bool" for L where
  start: "agg_run L a [] a"
| step: "agg_run L a tr b \<Longrightarrow> agg_exec L op b = (r, c) \<Longrightarrow> agg_run L a (tr @ [(op, r)]) c"

definition links_of :: "int \<Rightarrow> tables \<Rightarrow> int" where
  "links_of i db = int (length (filter (\<lambda>l. ce_IncidentId l = i) (tb_links db)))"

text \<open>The invariant of the tables: every incident has its own id below the next one, and counts its linked events,
  or one more when the link of its first event could not be written; every link and every cached entry
  names an incident.\<close>

definition tables_inv :: "tables \<Rightarrow> bool" where
  "tables_inv db \<longleftrightarrow> distinct (map ci_Id (tb_incidents db))
     \<and> (\<forall>inc \<in> set (tb_incidents db). 0 < ci_Id inc \<and> ci_Id inc < tb_nextIncident db
          \<and> links_of (ci_Id inc) db \<le> ci_EventCount inc \<and> ci_EventCount inc \<le> links_of (ci_Id inc) db + 1)
     \<and> (\<forall>l \<in> set (tb_links db). ce_IncidentId l \<in> ci_Id ` set (tb_incidents db)) \<and> 0 < tb_nextIncident db"

definition index_inv :: "Aggregator \<Rightarrow> bool" where
  "index_inv a \<longleftrightarrow> (\<forall>k e. mget (ag_index a) k = Some e \<longrightarrow> ai_incidentId e \<in> ci_Id ` set (tb_incidents (ag_db a)))"

lemma map_update_row_ids: "touches now g \<Longrightarrow> map ci_Id (map (update_row i g) rows) = map ci_Id rows"
  by (simp add: update_row_def touches_def)

lemma ids_update_row:
  assumes "\<And>inc. ci_Id (g inc) = ci_Id inc"
  shows "ci_Id ` set (map (update_row i g) rows) = ci_Id ` set rows"
proof -
  have "ci_Id (update_row i g x) = ci_Id x" for x by (simp add: update_row_def assms)
  then show ?thesis by (simp add: image_image)
qed

lemma update_incident_id: "update_incident i id db = db"
  by (simp add: update_incident_def id_def)

text \<open>The three changes of the tables: a new link for an incident, a new incident, and an update that touches
  neither ids nor counts.\<close>

lemma tables_inv_link:
  assumes "tables_inv db" "touches now g" "i \<in> ci_Id ` set (tb_incidents db)"
    and "tb_incidents db' = map (update_row i g) (tb_incidents db)" "tb_links db' = tb_links db @ [l]"
    "ce_IncidentId l = i" "tb_nextIncident db' = tb_nextIncident db"
  shows "tables_inv db'"
proof -
  have ids: "map ci_Id (tb_incidents db') = map ci_Id (tb_incidents db)"
    using assms(4) map_update_row_ids [OF assms(2)] by simp
  have links: "links_of j db' = links_of j db + (if j = i then 1 else 0)" for j
    using assms(5,6) by (simp add: links_of_def)
  have row: "0 < ci_Id inc \<and> ci_Id inc < tb_nextIncident db'
      \<and> links_of (ci_Id inc) db' \<le> ci_EventCount inc \<and> ci_EventCount inc \<le> links_of (ci_Id inc) db' + 1"
    if "inc \<in> set (tb_incidents db')" for inc
  proof -
    from that assms(4) obtain old where old: "old \<in> set (tb_incidents db)" "inc = update_row i g old" by auto
    from old(1) assms(1) have "0 < ci_Id old \<and> ci_Id old < tb_nextIncident db
      \<and> links_of (ci_Id old) db \<le> ci_EventCount old \<and> ci_EventCount old \<le> links_of (ci_Id old) db + 1"
      unfolding tables_inv_def by blast
    with old(2) assms(2,7) show ?thesis by (auto simp: update_row_def touches_def links)
  qed
  have "ci_Id ` set (tb_incidents db') = ci_Id ` set (tb_incidents db)"
    using arg_cong [OF ids, of set] by simp
  with ids row assms(1,3,5-7) show ?thesis unfolding tables_inv_def by auto
qed

lemma tables_inv_new:
  assumes "tables_inv db" "ci_Id inc = tb_nextIncident db" "ci_EventCount inc = 1"
    and "tb_incidents db' = tb_incidents db @ [inc]" "tb_nextIncident db' = tb_nextIncident db + 1"
    "tb_links db' = tb_links db \<or> tb_links db' = tb_links db @ [l] \<and> ce_IncidentId l = tb_nextIncident db"
  shows "tables_inv db'"
proof -
  note inv = assms(1) [unfolded tables_inv_def]
  have pos: "0 < tb_nextIncident db" using inv by simp
  have fresh: "tb_nextIncident db \<notin> ci_Id ` set (tb_incidents db)"
  proof
    assume "tb_nextIncident db \<in> ci_Id ` set (tb_incidents db)"
    then obtain x where "x \<in> set (tb_incidents db)" "ci_Id x = tb_nextIncident db" by (metis imageE)
    moreover from this(1) inv have "ci_Id x < tb_nextIncident db" by blast
    ultimately show False by simp
  qed
  moreover have linked: "\<forall>l \<in> set (tb_links db). ce_IncidentId l \<in> ci_Id ` set (tb_incidents db)" using inv by simp
  ultimately have "filter (\<lambda>l. ce_IncidentId l = tb_nextIncident db) (tb_links db) = []"
    by (intro filter_False ballI notI) (drule (1) bspec, simp)
  then have none: "links_of (tb_nextIncident db) db = 0" by (simp add: links_of_def)
  have other: "links_of j db' = links_of j db" if "j \<noteq> tb_nextIncident db" for j
    using assms(6) that by (elim disjE) (simp_all add: links_of_def)
  have new: "links_of (tb_nextIncident db) db' = 0 \<or> links_of (tb_nextIncident db) db' = 1"
    using assms(6) none by (elim disjE) (simp_all add: links_of_def)
  have "0 < ci_Id x \<and> ci_Id x < tb_nextIncident db'
      \<and> links_of (ci_Id x) db' \<le> ci_EventCount x \<and> ci_EventCount x \<le> links_of (ci_Id x) db' + 1"
    if "x \<in> set (tb_incidents db')" for x
  proof (cases "x = inc")
    case True
    then show ?thesis using new pos assms(2,3,5) by (elim disjE) simp_all
  next
    case False
    with that assms(4) have x: "x \<in> set (tb_incidents db)" by simp
    with fresh have "ci_Id x \<noteq> tb_nextIncident db" by (metis imageI)
    then have "links_of (ci_Id x) db' = links_of (ci_Id x) db" by (rule other)
    moreover have "0 < ci_Id x \<and> ci_Id x < tb_nextIncident db
      \<and> links_of (ci_Id x) db \<le> ci_EventCount x \<and> ci_EventCount x \<le> links_of (ci_Id x) db + 1"
      using inv x by (elim conjE) (rule bspec)
    ultimately show ?thesis using assms(5) by simp
  qed
  moreover have "distinct (map ci_Id (tb_incidents db'))" using inv fresh by (simp add: assms(2,4))
  moreover have "\<forall>l \<in> set (tb_links db'). ce_IncidentId l \<in> ci_Id ` set (tb_incidents db')"
    using assms(6) linked by (elim disjE) (simp_all add: assms(2,4))
  ultimately show ?thesis unfolding tables_inv_def using pos assms(5) by simp
qed

lemma tables_inv_same:
  assumes "tables_inv db" "\<And>inc. ci_Id (g inc) = ci_Id inc" "\<And>inc. ci_EventCount (g inc) = ci_EventCount inc"
    and "tb_incidents db' = map (update_row i g) (tb_incidents db)" "tb_nextIncident db' = tb_nextIncident db"
    "map ce_IncidentId (tb_links db') = map ce_IncidentId (tb_links db)"
  shows "tables_inv db'"
proof -
  have row: "ci_Id (update_row i g x) = ci_Id x" "ci_EventCount (update_row i g x) = ci_EventCount x" for x
    by (simp_all add: update_row_def assms(2,3))
  have "links_of j db' = links_of j db" for j
  proof -
    have "links_of j d = int (length (filter (\<lambda>x. x = j) (map ce_IncidentId (tb_links d))))" for d
      by (simp add: links_of_def filter_map o_def)
    then show ?thesis by (simp only: assms(6))
  qed
  moreover have "ce_IncidentId ` set (tb_links db') = ce_IncidentId ` set (tb_links db)"
    using arg_cong [OF assms(6), of set] by simp
  then have "(\<forall>l \<in> set (tb_links db'). ce_IncidentId l \<in> S) = (\<forall>l \<in> set (tb_links db). ce_IncidentId l \<in> S)" for S
    by (metis (no_types, lifting) image_subset_iff)
  ultimately show ?thesis
    using assms(1) unfolding tables_inv_def by (simp add: assms(4,5) row o_def image_image)
qed

lemma index_inv_same:
  assumes "index_inv a" "ci_Id ` set (tb_incidents (ag_db a)) \<subseteq> ci_Id ` set (tb_incidents (ag_db a'))" "ag_index a' = ag_index a"
  shows "index_inv a'"
  using assms(1,2) unfolding index_inv_def assms(3) by blast

lemma index_inv_put:
  assumes "index_inv a" "ci_Id ` set (tb_incidents (ag_db a)) \<subseteq> ci_Id ` set (tb_incidents (ag_db a'))"
    and "ag_index a' = aii_Put now (ag_index a) r k i" "i \<in> ci_Id ` set (tb_incidents (ag_db a'))"
  shows "index_inv a'"
  unfolding index_inv_def assms(3)
proof (intro allI impI)
  fix k' e
  assume "mget (aii_Put now (ag_index a) r k i) k' = Some e"
  then have "mget (ag_index a) k' = Some e \<or> ai_incidentId e = i" by (auto simp: aii_Put_def split: if_splits)
  with assms(1,2,4) show "ai_incidentId e \<in> ci_Id ` set (tb_incidents (ag_db a'))" unfolding index_inv_def by blast
qed

lemma FindActiveIncident_mem:
  "FindActiveIncident None db r k w now = Inr (Some inc) \<Longrightarrow> inc \<in> set (tb_incidents db) \<and> active_row r k (now - w) inc"
proof -
  assume "FindActiveIncident None db r k w now = Inr (Some inc)"
  moreover have "last (sort_key ci_Id rows) \<in> set rows" if "rows \<noteq> []" for rows
    using that last_in_set [of "sort_key ci_Id rows"] by (metis set_empty set_sort)
  ultimately have "inc \<in> set (filter (active_row r k (now - w)) (tb_incidents db))"
    by (auto simp: FindActiveIncident_def Let_def simp del: set_filter split: if_splits)
  then show ?thesis by simp
qed

lemma aii_Get_mem:
  "aii_Get now m r k w = (i, True) \<Longrightarrow> \<exists>e. mget m (r, k) = Some e \<and> ai_incidentId e = i \<and> now \<le> ai_lastEventAt e + w"
  by (auto simp: aii_Get_def split: option.splits if_splits)

lemma merge_inv:
  assumes "merge fl up now ev rule i a = (out, a')" "tables_inv (ag_db a)" "index_inv a" "i \<in> ci_Id ` set (tb_incidents (ag_db a))"
  shows "tables_inv (ag_db a') \<and> index_inv a'"
proof (cases out)
  case (Inr r)
  with assms(1) have m: "merge fl up now ev rule i a = (Inr r, a')" by simp
  then obtain g where g: "touches now g" "tb_incidents (ag_db a') = map (update_row i g) (tb_incidents (ag_db a))"
    "tb_links (ag_db a') = tb_links (ag_db a) @ [(new_link i ev now)\<lparr>ce_Id := tb_nextLink (ag_db a)\<rparr>]"
    "tb_nextIncident (ag_db a') = tb_nextIncident (ag_db a)"
    "ag_index a' = aii_Put now (ag_index a) (gr_Id rule) [] i" by (rule merge_rows)
  have "ci_Id ` set (tb_incidents (ag_db a')) = ci_Id ` set (tb_incidents (ag_db a))"
    using arg_cong [OF map_update_row_ids [OF g(1), of i "tb_incidents (ag_db a)"], of set] g(2) by (simp add: image_image)
  then have "index_inv a'" using assms(4) by (intro index_inv_put [OF assms(3) _ g(5)]) simp_all
  moreover have "tables_inv (ag_db a')"
    by (rule tables_inv_link [OF assms(2) g(1) assms(4) g(2,3) _ g(4)]) (simp add: new_link_def)
  ultimately show ?thesis by simp
qed (use assms merge_Inl in blast)

lemma createNew_inv:
  assumes "createNew L fl now ev rule dims key a = (out, a')" "tables_inv (ag_db a)" "index_inv a"
  shows "tables_inv (ag_db a') \<and> index_inv a'"
  using assms(1)
proof (cases rule: createNew_cases)
  case (created inc r)
  have inc: "ci_Id inc = tb_nextIncident (ag_db a)" "ci_EventCount inc = 1"
    using created(4) by (simp_all add: new_incident_def)
  from created(5) show ?thesis
  proof
    assume c: "fl_link fl = None \<and> ag_db a' = create_link ((ag_db a)\<lparr>tb_incidents := tb_incidents (ag_db a) @ [inc], tb_nextIncident := tb_nextIncident (ag_db a) + 1\<rparr>)
           (new_link (tb_nextIncident (ag_db a)) ev now)
         \<and> ag_index a' = aii_Put now (ag_index a) (gr_Id rule) key (tb_nextIncident (ag_db a))"
    then have "tables_inv (ag_db a')"
      by (intro tables_inv_new [OF assms(2) inc, where l = "(new_link (tb_nextIncident (ag_db a)) ev now)\<lparr>ce_Id := tb_nextLink (ag_db a)\<rparr>"])
        (simp_all add: create_link_def new_link_def)
    moreover have "index_inv a'" using c inc
      by (intro index_inv_put [OF assms(3), of a' now "gr_Id rule" key "tb_nextIncident (ag_db a)"]) (auto simp: create_link_def)
    ultimately show ?thesis by simp
  next
    assume c: "fl_link fl \<noteq> None \<and> ag_db a' = (ag_db a)\<lparr>tb_incidents := tb_incidents (ag_db a) @ [inc], tb_nextIncident := tb_nextIncident (ag_db a) + 1\<rparr>
         \<and> ag_index a' = ag_index a"
    then have "tables_inv (ag_db a')" by (intro tables_inv_new [OF assms(2) inc]) simp_all
    moreover have "index_inv a'" using c by (intro index_inv_same [OF assms(3)]) auto
    ultimately show ?thesis by simp
  qed
qed (use assms in simp)

lemma agg_Handle_inv:
  assumes "agg_Handle L fl up now rules event a = (out, a')" "tables_inv (ag_db a)" "index_inv a"
  shows "tables_inv (ag_db a') \<and> index_inv a'"
proof (cases event)
  case None
  then show ?thesis using assms by (auto simp: agg_Handle_def)
next
  case (Some ev)
  from assms(1) [unfolded Some] show ?thesis
  proof (cases rule: agg_Handle_cases)
    case (keyed rule dims)
    from keyed(5) show ?thesis
    proof (cases rule: merge_or_create_cases)
      case (hit i)
      from aii_Get_mem [OF hit(1)] assms(3) have "i \<in> ci_Id ` set (tb_incidents (ag_db a))"
        by (auto simp: index_inv_def)
      with merge_inv [OF hit(2) assms(2,3)] show ?thesis by simp
    next
      case (found inc)
      from FindActiveIncident_mem [OF found(1)] have i: "ci_Id inc \<in> ci_Id ` set (tb_incidents (ag_db a))" by simp
      have "index_inv (a\<lparr>ag_index := aii_Put now (ag_index a) (gr_Id rule) (BuildIncidentKey (Some ev) dims) (ci_Id inc)\<rparr>)"
        by (rule index_inv_put [OF assms(3)]) (use i in simp_all)
      with i assms(2) show ?thesis by (intro merge_inv [OF found(2)]) simp_all
    next
      case fresh
      with createNew_inv [OF fresh(2) assms(2,3)] show ?thesis by simp
    qed (use assms in simp)
  qed (use assms in simp)
qed

lemma closed_rows:
  obtains g where "\<And>inc. ci_Id (g inc) = ci_Id inc" "\<And>inc. ci_EventCount (g inc) = ci_EventCount inc"
      "\<And>inc. ci_StormFired (g inc) = ci_StormFired inc"
      "ag_db (snd (agg_exec L (CloseOp f1 f2 now i) a)) = update_incident i g (ag_db a)"
proof (cases "incidentClose f1 f2 now i (ag_db a)")
  case (Inl e)
  then have "ag_db (snd (agg_exec L (CloseOp f1 f2 now i) a)) = update_incident i id (ag_db a)"
    by (simp add: update_incident_id)
  then show thesis by (rule that [of id, rotated 3]) simp_all
next
  case (Inr p)
  let ?g = "\<lambda>inc. inc\<lparr>ci_Status := IncidentStatusClosed, ci_ClosedAt := now\<rparr>"
  from Inr have "snd p = ag_db a \<or> snd p = update_incident i ?g (ag_db a)"
    by (auto simp: incidentClose_def Let_def split: option.splits if_splits)
  then show thesis
  proof
    assume "snd p = ag_db a"
    with Inr have "ag_db (snd (agg_exec L (CloseOp f1 f2 now i) a)) = update_incident i id (ag_db a)"
      by (cases p) (simp add: update_incident_id)
    then show thesis by (rule that [of id, rotated 3]) simp_all
  next
    assume "snd p = update_incident i ?g (ag_db a)"
    with Inr have "ag_db (snd (agg_exec L (CloseOp f1 f2 now i) a)) = update_incident i ?g (ag_db a)" by (cases p) simp
    then show thesis by (rule that [of ?g, rotated 3]) simp_all
  qed
qed

lemma recovered_rows:
  obtains g where "\<And>inc. ci_Id (g inc) = ci_Id inc" "\<And>inc. ci_EventCount (g inc) = ci_EventCount inc"
      "\<And>inc. ci_StormFired (g inc) = ci_StormFired inc"
      "tb_incidents (ag_db (snd (agg_exec L (RecoveredOp f now i h) a))) = map (update_row i g) (tb_incidents (ag_db a))"
      "tb_nextIncident (ag_db (snd (agg_exec L (RecoveredOp f now i h) a))) = tb_nextIncident (ag_db a)"
      "map ce_IncidentId (tb_links (ag_db (snd (agg_exec L (RecoveredOp f now i h) a)))) = map ce_IncidentId (tb_links (ag_db a))"
proof -
  let ?g = "\<lambda>inc. if ci_Status inc = IncidentStatusOpen then inc\<lparr>ci_Status := IncidentStatusResolved, ci_ResolvedAt := now\<rparr> else inc"
  let ?b = "snd (agg_exec L (RecoveredOp f now i h) a)"
  have same: "map (update_row i id) rows = rows" for rows by (induction rows) (simp_all add: update_row_def)
  have "(tb_incidents (ag_db ?b) = map (update_row i id) (tb_incidents (ag_db a))
       \<or> tb_incidents (ag_db ?b) = map (update_row i ?g) (tb_incidents (ag_db a)))
     \<and> tb_nextIncident (ag_db ?b) = tb_nextIncident (ag_db a)
     \<and> map ce_IncidentId (tb_links (ag_db ?b)) = map ce_IncidentId (tb_links (ag_db a))"
    unfolding same by (simp add: MarkEventRecovered_def Let_def o_def cong: if_cong split: option.split)
  then show thesis
    by (elim conjE disjE) ((rule that [of id, rotated 3], assumption+, simp_all) [1], (rule that [of ?g, rotated 3], assumption+, simp_all))
qed

lemma agg_exec_inv:
  assumes "agg_exec L op a = (r, b)" "tables_inv (ag_db a)" "index_inv a"
  shows "tables_inv (ag_db b) \<and> index_inv b"
proof (cases op)
  case (HandleOp fl up now rules ev)
  with assms show ?thesis by (auto dest: agg_Handle_inv split: prod.splits)
next
  case (CloseOp f1 f2 now i)
  have b: "b = snd (agg_exec L (CloseOp f1 f2 now i) a)" using assms(1) CloseOp by (metis snd_conv)
  obtain g where g: "\<And>inc. ci_Id (g inc) = ci_Id inc" "\<And>inc. ci_EventCount (g inc) = ci_EventCount inc"
      "ag_db b = update_incident i g (ag_db a)" unfolding b by (rule closed_rows) blast
  have "ag_index b = ag_index a" unfolding b by (cases "incidentClose f1 f2 now i (ag_db a)") auto
  then have "index_inv b"
    by (intro index_inv_same [OF assms(3)]) (simp_all only: g(3) update_incident_simps ids_update_row [OF g(1)] subset_refl)
  moreover have "tables_inv (ag_db b)" by (rule tables_inv_same [OF assms(2) g(1,2), where i = i]) (simp_all add: g(3))
  ultimately show ?thesis by simp
next
  case (RecoveredOp f now i h)
  have b: "b = snd (agg_exec L (RecoveredOp f now i h) a)" using assms(1) RecoveredOp by (metis snd_conv)
  obtain g where g: "\<And>inc. ci_Id (g inc) = ci_Id inc" "\<And>inc. ci_EventCount (g inc) = ci_EventCount inc"
      "tb_incidents (ag_db b) = map (update_row i g) (tb_incidents (ag_db a))"
      "tb_nextIncident (ag_db b) = tb_nextIncident (ag_db a)"
      "map ce_IncidentId (tb_links (ag_db b)) = map ce_IncidentId (tb_links (ag_db a))" unfolding b by (rule recovered_rows) blast
  have "ag_index b = ag_index a" unfolding b by (simp split: sum.split)
  then have "index_inv b"
    by (intro index_inv_same [OF assms(3)]) (simp_all only: g(3) update_incident_simps ids_update_row [OF g(1)] subset_refl)
  moreover have "tables_inv (ag_db b)" by (rule tables_inv_same [OF assms(2) g])
  ultimately show ?thesis by simp
next
  case RestartOp
  with assms show ?thesis by (auto simp: index_inv_def)
qed

lemma agg_run_inv:
  "agg_run L a tr b \<Longrightarrow> tables_inv (ag_db a) \<Longrightarrow> index_inv a \<Longrightarrow> tables_inv (ag_db b) \<and> index_inv b"
  by (induction rule: agg_run.induct) (blast dest: agg_exec_inv)+

lemma fresh_agg_inv: "tables_inv (ag_db fresh_agg)" "index_inv fresh_agg"
  by (simp_all add: fresh_agg_def no_tables_def tables_inv_def index_inv_def)


definition day_ops :: "agg_op list" where
  "day_ops = [HandleOp no_faults True 100 [plain_rule 7 0] (Some order_event),
     HandleOp no_faults True 110 [plain_rule 7 0] (Some order_event),
     HandleOp no_faults True 120 [plain_rule 7 0] (Some order_event),
     RestartOp,
     HandleOp no_faults True 130 [plain_rule 7 0] (Some order_event),
     HandleOp no_faults True 140 [plain_rule 7 0] (Some order_event),
     HandleOp no_faults True 150 [plain_rule 7 0] (Some order_event)]"

fun trace :: "stdlib \<Rightarrow> agg_op list \<Rightarrow> Aggregator \<Rightarrow> (agg_op \<times> Result option) list" where
  "trace L [] a = []"
| "trace L (op # ops) a = (let (r, b) = agg_exec L op a in (op, r) # trace L ops b)"

fun final :: "stdlib \<Rightarrow> agg_op list \<Rightarrow> Aggregator \<Rightarrow> Aggregator" where
  "final L [] a = a"
| "final L (op # ops) a = final L ops (snd (agg_exec L op a))"

lemma agg_run_extend: "agg_run L b tr2 c \<Longrightarrow> agg_run L a tr1 b \<Longrightarrow> agg_run L a (tr1 @ tr2) c"
proof (induction arbitrary: tr1 rule: agg_run.induct)
  case (step a' tr b' op r c)
  then show ?case using agg_run.step [of L a "tr1 @ tr" b' op r c] by simp
qed simp

lemma agg_run_trace: "agg_run L a (trace L ops a) (final L ops a)"
proof (induction ops arbitrary: a)
  case (Cons op ops)
  obtain r b where e: "agg_exec L op a = (r, b)" by (cases "agg_exec L op a")
  have "agg_run L a [(op, r)] b" using agg_run.step [OF agg_run.start e] by simp
  with Cons [of b] e show ?case using agg_run_extend [of L b "trace L ops b" "final L ops b" a "[(op, r)]"] by simp
qed (simp add: agg_run.start)


section \<open>One storm per incident\<close>

definition storm_of :: "int \<Rightarrow> agg_op \<times> Result option \<Rightarrow> bool" where
  "storm_of i x \<longleftrightarrow> (case snd x of None \<Rightarrow> False | Some r \<Rightarrow> rs_Decision r = DecisionStorm \<and> rs_IncidentId r = i)"

definition storms :: "int \<Rightarrow> (agg_op \<times> Result option) list \<Rightarrow> nat" where
  "storms i tr = length (filter (storm_of i) tr)"

text \<open>The incident is in the table and its storm has been claimed.\<close>

definition claimed :: "int \<Rightarrow> tables \<Rightarrow> bool" where
  "claimed i db \<longleftrightarrow> i \<in> ci_Id ` set (tb_incidents db) \<and> \<not> unfired i db"

lemma claimed_update:
  assumes "claimed i db" "\<And>inc. ci_Id (g inc) = ci_Id inc" "\<And>inc. ci_StormFired inc \<noteq> 0 \<Longrightarrow> ci_StormFired (g inc) \<noteq> 0"
    and "tb_incidents db' = map (update_row j g) (tb_incidents db)"
  shows "claimed i db'"
proof -
  have "ci_Id (update_row j g x) = ci_Id x" "ci_StormFired x \<noteq> 0 \<Longrightarrow> ci_StormFired (update_row j g x) \<noteq> 0" for x
    using assms(2,3) by (simp_all add: update_row_def)
  with assms(1) show ?thesis unfolding claimed_def unfired_def assms(4) by (auto simp: image_image)
qed

lemma claimed_new:
  assumes "claimed i db" "tables_inv db" "ci_Id inc = tb_nextIncident db" "tb_incidents db' = tb_incidents db @ [inc]"
  shows "claimed i db'"
proof -
  have "i < tb_nextIncident db" using assms(1,2) by (auto simp: claimed_def tables_inv_def)
  with assms(1,3,4) show ?thesis by (auto simp: claimed_def unfired_def)
qed

definition storm_step :: "tables \<Rightarrow> Result option \<Rightarrow> tables \<Rightarrow> bool" where
  "storm_step db out db' \<longleftrightarrow> (\<forall>i. claimed i db \<longrightarrow> claimed i db')
     \<and> (case out of None \<Rightarrow> True | Some r \<Rightarrow> rs_Decision r = DecisionStorm \<longrightarrow>
          \<not> claimed (rs_IncidentId r) db \<and> claimed (rs_IncidentId r) db')"

lemma storm_step_refl: "storm_step db None db" "rs_Decision r \<noteq> DecisionStorm \<Longrightarrow> storm_step db (Some r) db"
  by (simp_all add: storm_step_def)

lemma merge_storm:
  assumes "merge fl up now ev rule i a = (out, a')" "i \<in> ci_Id ` set (tb_incidents (ag_db a))"
  shows "storm_step (ag_db a) (case out of Inl e \<Rightarrow> None | Inr r \<Rightarrow> Some r) (ag_db a')"
proof (cases out)
  case (Inl e)
  with assms(1) have "a' = a" by (simp add: merge_Inl)
  with Inl show ?thesis by (simp add: storm_step_refl)
next
  case (Inr r)
  with assms(1) have "merge fl up now ev rule i a = (Inr r, a')" by simp
  then obtain g where g: "touches now g" "tb_incidents (ag_db a') = map (update_row i g) (tb_incidents (ag_db a))"
    "rs_IncidentId r = i" "rs_Decision r = DecisionMerged \<or> rs_Decision r = DecisionStorm \<and> unfired i (ag_db a)
       \<and> (\<forall>inc \<in> set (tb_incidents (ag_db a')). ci_Id inc = i \<longrightarrow> ci_StormFired inc \<noteq> 0)" by (rule merge_rows)
  have "claimed j (ag_db a')" if "claimed j (ag_db a)" for j
    using that g(1) by (intro claimed_update [OF _ _ _ g(2)]) (simp_all add: touches_def)
  moreover have "i \<in> ci_Id ` set (tb_incidents (ag_db a'))"
    using assms(2) ids_update_row [of g i "tb_incidents (ag_db a)"] g(1) unfolding g(2) touches_def by blast
  ultimately show ?thesis
    using g(4) unfolding storm_step_def Inr by (auto simp: g(3) claimed_def unfired_def)
qed

lemma createNew_storm:
  assumes "createNew L fl now ev rule dims key a = (out, a')" "tables_inv (ag_db a)"
  shows "storm_step (ag_db a) (case out of Inl e \<Rightarrow> None | Inr r \<Rightarrow> Some r) (ag_db a')"
  using assms(1)
proof (cases rule: createNew_cases)
  case (created inc r)
  have rows: "tb_incidents (ag_db a') = tb_incidents (ag_db a) @ [inc]"
    using created(5) by (elim disjE conjE) (simp_all add: create_link_def)
  have "ci_Id inc = tb_nextIncident (ag_db a)" using created(4) by simp
  then have "claimed j (ag_db a) \<Longrightarrow> claimed j (ag_db a')" for j
    using claimed_new [OF _ assms(2) _ rows] by blast
  then show ?thesis by (simp add: storm_step_def created(1,2))
qed (simp add: storm_step_refl)

lemma agg_Handle_storm:
  assumes "agg_Handle L fl up now rules event a = (out, a')" "tables_inv (ag_db a)" "index_inv a"
  shows "storm_step (ag_db a) (case out of Inl e \<Rightarrow> None | Inr r \<Rightarrow> Some r) (ag_db a')"
proof (cases event)
  case None
  then show ?thesis using assms(1) by (auto simp: agg_Handle_def pass_through_def intro!: storm_step_refl)
next
  case (Some ev)
  from assms(1) [unfolded Some] show ?thesis
  proof (cases rule: agg_Handle_cases)
    case nothing
    then show ?thesis by (cases out) (simp_all add: storm_step_refl)
  next
    case (keyed rule dims)
    from keyed(5) show ?thesis
    proof (cases rule: merge_or_create_cases)
      case (hit i)
      from aii_Get_mem [OF hit(1)] assms(3) have "i \<in> ci_Id ` set (tb_incidents (ag_db a))"
        by (auto simp: index_inv_def)
      with merge_storm [OF hit(2)] show ?thesis by simp
    next
      case (found inc)
      from FindActiveIncident_mem [OF found(1)] merge_storm [OF found(2)] show ?thesis by simp
    next
      case fresh
      show ?thesis by (rule createNew_storm [OF fresh(2) assms(2)])
    qed (simp add: storm_step_refl)
  qed
qed

lemma agg_exec_storm:
  assumes "agg_exec L op a = (r, b)" "tables_inv (ag_db a)" "index_inv a"
  shows "storm_step (ag_db a) r (ag_db b)"
proof (cases op)
  case (HandleOp fl up now rules ev)
  then show ?thesis using assms(1) agg_Handle_storm [OF _ assms(2,3), of L fl up now rules ev] by (auto split: prod.splits)
next
  case (CloseOp f1 f2 now i)
  have b: "b = snd (agg_exec L (CloseOp f1 f2 now i) a)" "r = None" using assms(1) CloseOp by auto
  obtain g where g: "\<And>inc. ci_Id (g inc) = ci_Id inc" "\<And>inc. ci_StormFired (g inc) = ci_StormFired inc"
      "ag_db b = update_incident i g (ag_db a)" unfolding b(1) by (rule closed_rows) blast
  have "claimed j (ag_db b)" if "claimed j (ag_db a)" for j
    by (rule claimed_update [OF that g(1), where j = i]) (simp_all add: g(2,3))
  then show ?thesis by (simp add: storm_step_def b(2))
next
  case (RecoveredOp f now i h)
  have b: "b = snd (agg_exec L (RecoveredOp f now i h) a)" "r = None" using assms(1) RecoveredOp by auto
  obtain g where g: "\<And>inc. ci_Id (g inc) = ci_Id inc" "\<And>inc. ci_StormFired (g inc) = ci_StormFired inc"
      "tb_incidents (ag_db b) = map (update_row i g) (tb_incidents (ag_db a))" unfolding b(1) by (rule recovered_rows) blast
  have "claimed j (ag_db b)" if "claimed j (ag_db a)" for j
    by (rule claimed_update [OF that g(1) _ g(3)]) (simp add: g(2))
  then show ?thesis by (simp add: storm_step_def b(2))
next
  case RestartOp
  with assms(1) show ?thesis by (auto intro: storm_step_refl)
qed

lemma agg_run_storms:
  "agg_run L a tr b \<Longrightarrow> tables_inv (ag_db a) \<Longrightarrow> index_inv a \<Longrightarrow>
   storms i tr = 0 \<or> storms i tr = 1 \<and> claimed i (ag_db b)"
proof (induction rule: agg_run.induct)
  case (start a)
  then show ?case by (simp add: storms_def)
next
  case (step a tr b op r c)
  have inv: "tables_inv (ag_db b)" "index_inv b" using agg_run_inv [OF step.hyps(1)] step.prems by blast+
  have ss: "storm_step (ag_db b) r (ag_db c)" by (rule agg_exec_storm [OF step.hyps(2) inv])
  then have keep: "claimed i (ag_db b) \<Longrightarrow> claimed i (ag_db c)" by (simp add: storm_step_def)
  show ?case
  proof (cases "storm_of i (op, r)")
    case True
    then have "\<not> claimed i (ag_db b)" "claimed i (ag_db c)"
      using ss by (auto simp: storm_of_def storm_step_def split: option.splits)
    with True step.IH step.prems show ?thesis by (auto simp: storms_def)
  next
    case False
    with keep step.IH step.prems show ?thesis by (auto simp: storms_def)
  qed
qed

text \<open>(C16) An incident is reported as a storm at most once. In every history, with any restarts of the process (which
  forget the observations in memory) and any data base failures in between, at most one handled event is
  answered with the storm decision for a given incident.\<close>

theorem storm_reported_once:
  assumes "agg_run L fresh_agg tr a"
  shows "storms i tr \<le> 1"
  using agg_run_storms [OF assms fresh_agg_inv, of i] by auto

theorem storm_reported_once_witness:
  "map (\<lambda>x. map_option rs_Decision (snd x)) (trace dims_lib day_ops fresh_agg) =
     [Some DecisionFireFirst, Some DecisionMerged, Some DecisionStorm, None, Some DecisionMerged, Some DecisionMerged, Some DecisionMerged]
   \<and> storms 1 (trace dims_lib day_ops fresh_agg) \<le> 1"
proof -
  have "map (\<lambda>x. map_option rs_Decision (snd x)) (trace dims_lib day_ops fresh_agg) =
     [Some DecisionFireFirst, Some DecisionMerged, Some DecisionStorm, None, Some DecisionMerged, Some DecisionMerged, Some DecisionMerged]"
    by code_simp
  then show ?thesis using storm_reported_once [OF agg_run_trace [of dims_lib fresh_agg day_ops], of 1] by simp
qed

section \<open>The cache only saves the look-up\<close>

lemma sorted_le_last: "sorted (map f xs) \<Longrightarrow> x \<in> set xs \<Longrightarrow> f x \<le> f (last xs)"
  by (induction xs) (auto split: if_splits)

lemma FindActiveIncident_max:
  assumes "FindActiveIncident None db r k w now = Inr (Some inc)" "y \<in> set (tb_incidents db)" "active_row r k (now - w) y"
  shows "ci_Id y \<le> ci_Id inc"
proof -
  let ?rows = "filter (active_row r k (now - w)) (tb_incidents db)"
  have "ci_Id y \<le> ci_Id (last (sort_key ci_Id ?rows))"
    using assms(2,3) by (intro sorted_le_last) (simp_all add: sorted_sort_key)
  then show ?thesis using assms(1) by (auto simp: FindActiveIncident_def Let_def split: if_splits)
qed

lemma FindActiveIncident_finds:
  assumes "tables_inv db" "inc \<in> set (tb_incidents db)" "active_row r k (now - w) inc"
  shows "\<exists>x. FindActiveIncident None db r k w now = Inr (Some x)"
proof -
  let ?rows = "filter (active_row r k (now - w)) (tb_incidents db)"
  have "?rows \<noteq> []" using assms(2,3) by (auto simp: filter_empty_conv)
  then have "last (sort_key ci_Id ?rows) \<in> set ?rows"
    using last_in_set [of "sort_key ci_Id ?rows"] by (metis set_empty set_sort)
  then have "0 < ci_Id (last (sort_key ci_Id ?rows))" using assms(1) by (simp add: tables_inv_def)
  with \<open>?rows \<noteq> []\<close> show ?thesis by (simp add: FindActiveIncident_def Let_def)
qed

lemma same_id_same_row:
  "tables_inv db \<Longrightarrow> x \<in> set (tb_incidents db) \<Longrightarrow> y \<in> set (tb_incidents db) \<Longrightarrow> ci_Id x = ci_Id y \<Longrightarrow> x = y"
  unfolding tables_inv_def by (metis distinct_map inj_onD)

text \<open>Two rows compete when the same rule and key may find them.\<close>

definition rivals :: "CustomIncident \<Rightarrow> CustomIncident \<Rightarrow> bool" where
  "rivals x y \<longleftrightarrow> ci_RuleId x = ci_RuleId y \<and> ci_IncidentKey x = ci_IncidentKey y
     \<and> ci_Status x = IncidentStatusOpen \<and> ci_Status y = IncidentStatusOpen"

definition newest :: "CustomIncident set \<Rightarrow> CustomIncident \<Rightarrow> bool" where
  "newest rows x \<longleftrightarrow> x \<in> rows \<and> ci_Status x = IncidentStatusOpen \<and> (\<forall>y \<in> rows. rivals x y \<longrightarrow> ci_Id y \<le> ci_Id x)"

text \<open>The rows are ordered in time at \<open>t\<close>, and a cached entry names the newest open row of its rule and key.\<close>

definition timely :: "int \<Rightarrow> tables \<Rightarrow> bool" where
  "timely t db \<longleftrightarrow> tables_inv db \<and> (\<forall>x \<in> set (tb_incidents db). ci_LastEventAt x \<le> t)
     \<and> (\<forall>x \<in> set (tb_incidents db). \<forall>y \<in> set (tb_incidents db). rivals x y \<and> ci_Id x < ci_Id y \<longrightarrow> ci_LastEventAt x \<le> ci_LastEventAt y)"

definition backed :: "tables \<Rightarrow> int \<Rightarrow> string \<Rightarrow> activeIncidentEntry \<Rightarrow> bool" where
  "backed db r k e \<longleftrightarrow> (\<exists>x. newest (set (tb_incidents db)) x \<and> ci_Id x = ai_incidentId e \<and> ci_RuleId x = r
     \<and> ci_IncidentKey x = k \<and> ai_lastEventAt e \<le> ci_LastEventAt x)"

definition coherent :: "int \<Rightarrow> Aggregator \<Rightarrow> bool" where
  "coherent t a \<longleftrightarrow> timely t (ag_db a) \<and>
     (\<forall>r k e. k \<noteq> [] \<longrightarrow> mget (ag_index a) (r, k) = Some e \<longrightarrow> backed (ag_db a) r k e)"

lemma found_is_newest:
  assumes "timely t db" "FindActiveIncident None db r k w now = Inr (Some x)"
  shows "newest (set (tb_incidents db)) x"
proof -
  have x: "x \<in> set (tb_incidents db)" "active_row r k (now - w) x" using FindActiveIncident_mem [OF assms(2)] by auto
  have "ci_Id y \<le> ci_Id x" if y: "y \<in> set (tb_incidents db)" "rivals x y" for y
  proof (rule ccontr)
    assume "\<not> ci_Id y \<le> ci_Id x"
    then have "ci_LastEventAt x \<le> ci_LastEventAt y" using assms(1) x(1) y unfolding timely_def by simp
    then have "active_row r k (now - w) y" using x(2) y(2) by (auto simp: active_row_def rivals_def)
    with FindActiveIncident_max [OF assms(2) y(1)] \<open>\<not> ci_Id y \<le> ci_Id x\<close> show False by simp
  qed
  with x show ?thesis by (simp add: newest_def active_row_def)
qed

text \<open>A hit is what the data base would have answered.\<close>

lemma hit_is_found:
  assumes "coherent t a" "k \<noteq> []" "aii_Get now (ag_index a) r k w = (i, True)"
  obtains x where "FindActiveIncident None (ag_db a) r k w now = Inr (Some x)" "ci_Id x = i"
proof -
  from aii_Get_mem [OF assms(3)] obtain e where e: "mget (ag_index a) (r, k) = Some e" "ai_incidentId e = i"
    "now \<le> ai_lastEventAt e + w" by blast
  with assms(1,2) have "backed (ag_db a) r k e" by (simp add: coherent_def)
  then obtain x where x: "newest (set (tb_incidents (ag_db a))) x" "ci_Id x = i" "ci_RuleId x = r" "ci_IncidentKey x = k"
    "ai_lastEventAt e \<le> ci_LastEventAt x" unfolding backed_def e(2) by blast
  have x': "x \<in> set (tb_incidents (ag_db a))" "active_row r k (now - w) x"
    using x e(3) by (simp_all add: newest_def active_row_def)
  have inv: "tables_inv (ag_db a)" using assms(1) by (simp add: coherent_def timely_def)
  from FindActiveIncident_finds [OF inv x'] obtain y where y: "FindActiveIncident None (ag_db a) r k w now = Inr (Some y)" by blast
  have y': "y \<in> set (tb_incidents (ag_db a))" "active_row r k (now - w) y" using FindActiveIncident_mem [OF y] by auto
  have "ci_Id x \<le> ci_Id y" by (rule FindActiveIncident_max [OF y x'])
  moreover have "ci_Id y \<le> ci_Id x"
    using x(1) x'(2) y' by (auto simp: newest_def rivals_def active_row_def)
  ultimately show thesis using that [OF y] x(2) by simp
qed

end
