(* ===== verification/Incident_Cache.thy ===== *)
theory Incident_Cache
  imports Incident_History
begin

text \<open>
  The cache of active incidents against the data base: over any sequence of handled events the aggregator
  with its cache answers and writes what it would without one, as long as no incident is closed by hand.
\<close>

section \<open>Coherence is kept\<close>

locale row_update =
  fixes up :: "CustomIncident \<Rightarrow> CustomIncident"
  assumes up_id: "ci_Id (up x) = ci_Id x"
    and up_rule: "ci_RuleId (up x) = ci_RuleId x"
    and up_key: "ci_IncidentKey (up x) = ci_IncidentKey x"
    and up_status: "ci_Status (up x) = ci_Status x"
begin

lemma rivals_up: "rivals (up x) (up y) = rivals x y"
  by (simp add: rivals_def up_rule up_key up_status)

lemma newest_up: "newest rows x \<Longrightarrow> newest (up ` rows) (up x)"
  by (simp add: newest_def up_status rivals_up up_id)

lemma backed_up:
  assumes "backed db r k e" "tb_incidents db' = map up (tb_incidents db)"
    and "\<And>x. x \<in> set (tb_incidents db) \<Longrightarrow> ci_LastEventAt x \<le> ci_LastEventAt (up x)"
  shows "backed db' r k e"
proof -
  from assms(1) obtain x where x: "newest (set (tb_incidents db)) x" "ci_Id x = ai_incidentId e" "ci_RuleId x = r"
     "ci_IncidentKey x = k" "ai_lastEventAt e \<le> ci_LastEventAt x" unfolding backed_def by blast
  have "ci_LastEventAt x \<le> ci_LastEventAt (up x)" using x(1) by (intro assms(3)) (simp add: newest_def)
  with newest_up [OF x(1)] x show ?thesis
    unfolding backed_def assms(2) by (intro exI [of _ "up x"]) (simp add: up_id up_rule up_key)
qed

end

text \<open>The two updates of the aggregator are such updates, and so is every other that a merge may make.\<close>

interpretation append_row: row_update "update_row i (append_update now severity upgrade)"
  by unfold_locales (simp_all add: update_row_def append_update_def)

interpretation storm_row: row_update "update_row i mark_storm"
  by unfold_locales (simp_all add: update_row_def mark_storm_def)

lemma touched_row_update: "touches now g \<Longrightarrow> row_update (update_row i g)"
  by unfold_locales (simp_all add: update_row_def touches_def)

lemma touched_last:
  "touches now g \<Longrightarrow> ci_LastEventAt (update_row i g x) = (if ci_Id x = i then now else ci_LastEventAt x)"
  by (simp add: update_row_def touches_def)

lemma timely_touched:
  assumes "timely t db" "t \<le> now" "touches now g" "newest (set (tb_incidents db)) x" "tables_inv db'"
    and rows: "tb_incidents db' = map (update_row (ci_Id x) g) (tb_incidents db)"
  shows "timely now db'"
proof -
  have inv: "tables_inv db" and late: "\<And>y. y \<in> set (tb_incidents db) \<Longrightarrow> ci_LastEventAt y \<le> now"
    using assms(1,2) by (auto simp: timely_def)
  have last: "ci_LastEventAt (update_row (ci_Id x) g y) = (if ci_Id y = ci_Id x then now else ci_LastEventAt y)" for y
    by (rule touched_last [OF assms(3)])
  have id: "ci_Id (update_row (ci_Id x) g y) = ci_Id y" for y
    by (rule row_update.up_id [OF touched_row_update [OF assms(3)]])
  have ord: "ci_LastEventAt (update_row (ci_Id x) g y) \<le> ci_LastEventAt (update_row (ci_Id x) g z)"
    if "y \<in> set (tb_incidents db)" "z \<in> set (tb_incidents db)" "rivals y z" "ci_Id y < ci_Id z" for y z
  proof -
    have "ci_Id y \<noteq> ci_Id x"
    proof
      assume "ci_Id y = ci_Id x"
      then have "y = x" using same_id_same_row [OF inv that(1)] assms(4) by (simp add: newest_def)
      with that assms(4) show False by (auto simp: newest_def)
    qed
    then show ?thesis using that late assms(1) by (auto simp: last timely_def)
  qed
  show ?thesis
    unfolding timely_def rows
    using assms(5) late ord row_update.rivals_up [OF touched_row_update [OF assms(3)]] by (simp add: last id)
qed

lemma merge_coherent:
  assumes "merge fl up now ev rule i a = (Inr res, a')" "timely t (ag_db a)" "t \<le> now"
    and x: "newest (set (tb_incidents (ag_db a))) x" "ci_Id x = i" and "index_inv a"
    and entries: "\<And>r k e. k \<noteq> [] \<Longrightarrow> mget (ag_index a) (r, k) = Some e \<Longrightarrow>
      backed (ag_db a) r k e \<or> r = ci_RuleId x \<and> k = ci_IncidentKey x \<and> e = \<lparr>ai_incidentId = i, ai_lastEventAt = now\<rparr>"
  shows "coherent now a'"
proof -
  obtain g where g: "touches now g" "tb_incidents (ag_db a') = map (update_row i g) (tb_incidents (ag_db a))"
    "ag_index a' = aii_Put now (ag_index a) (gr_Id rule) [] i" by (rule merge_rows [OF assms(1)])
  note U = touched_row_update [OF g(1), of i]
  have mem: "x \<in> set (tb_incidents (ag_db a))" using x(1) by (simp add: newest_def)
  have inv: "tables_inv (ag_db a')"
    using merge_inv [OF assms(1) _ assms(6)] assms(2) mem x(2) unfolding timely_def by blast
  have "backed (ag_db a') r k e" if e: "k \<noteq> []" "mget (ag_index a') (r, k) = Some e" for r k e
  proof -
    have "mget (ag_index a) (r, k) = Some e" using e by (simp add: g(3) aii_Put_def)
    from entries [OF e(1) this] show ?thesis
    proof
      assume b: "backed (ag_db a) r k e"
      show ?thesis
        by (rule row_update.backed_up [OF U b g(2)]) (use assms(2,3) in \<open>auto simp: touched_last [OF g(1)] timely_def\<close>)
    next
      assume "r = ci_RuleId x \<and> k = ci_IncidentKey x \<and> e = \<lparr>ai_incidentId = i, ai_lastEventAt = now\<rparr>"
      then show ?thesis
        using row_update.newest_up [OF U x(1)] x(2) unfolding backed_def g(2)
        by (intro exI [of _ "update_row i g x"])
          (simp add: touched_last [OF g(1)] row_update.up_id [OF U] row_update.up_rule [OF U] row_update.up_key [OF U])
    qed
  qed
  moreover have "timely now (ag_db a')"
    by (rule timely_touched [OF assms(2,3) g(1) x(1) inv]) (simp add: g(2) x(2))
  ultimately show ?thesis by (simp add: coherent_def)
qed

lemma createNew_coherent:
  assumes "createNew L fl now ev rule dims key a = (Inr res, a')" "coherent t a" "t \<le> now" "fl_link fl = None" "index_inv a"
  shows "coherent now a'"
  using assms(1)
proof (cases rule: createNew_cases)
  case (created inc r)
  have rows: "tb_incidents (ag_db a') = tb_incidents (ag_db a) @ [inc]"
    and ix: "ag_index a' = aii_Put now (ag_index a) (gr_Id rule) key (tb_nextIncident (ag_db a))"
    using created(5) assms(4) by (simp_all add: create_link_def)
  have inc: "ci_Id inc = tb_nextIncident (ag_db a)" "ci_RuleId inc = gr_Id rule" "ci_IncidentKey inc = key"
    "ci_Status inc = IncidentStatusOpen" "ci_LastEventAt inc = now"
    using created(4) by (simp_all add: new_incident_def IncidentStatusOpen_def)
  have old: "timely t (ag_db a)" using assms(2) by (simp add: coherent_def)
  have below: "ci_Id y < ci_Id inc" "ci_LastEventAt y \<le> now" if "y \<in> set (tb_incidents (ag_db a))" for y
    using that old assms(3) by (auto simp: timely_def tables_inv_def inc(1))
  have inv: "tables_inv (ag_db a')" using createNew_inv [OF assms(1) _ assms(5)] old by (simp add: timely_def)
  have "timely now (ag_db a')"
    using inv old below inc(5) unfolding timely_def rows by (auto dest: less_asym)
  moreover have "backed (ag_db a') r k e" if e: "k \<noteq> []" "mget (ag_index a') (r, k) = Some e" for r k e
  proof (cases "(r, k) = (gr_Id rule, key)")
    case True
    then have "e = \<lparr>ai_incidentId = ci_Id inc, ai_lastEventAt = now\<rparr>" using e by (simp add: ix aii_Put_def inc(1))
    moreover have "newest (set (tb_incidents (ag_db a'))) inc"
      using below inc(4) by (auto simp: newest_def rows dest: less_imp_le)
    ultimately show ?thesis using True inc unfolding backed_def by (intro exI [of _ inc]) simp
  next
    case False
    then have "backed (ag_db a) r k e" using e assms(2) by (auto simp: ix aii_Put_def coherent_def split: if_splits)
    then obtain x where x: "newest (set (tb_incidents (ag_db a))) x" "ci_Id x = ai_incidentId e" "ci_RuleId x = r"
      "ci_IncidentKey x = k" "ai_lastEventAt e \<le> ci_LastEventAt x" unfolding backed_def by blast
    have "\<not> rivals x inc" using False x(3,4) inc(2,3) by (auto simp: rivals_def)
    then have "newest (set (tb_incidents (ag_db a'))) x" using x(1) by (simp add: newest_def rows)
    with x show ?thesis unfolding backed_def by blast
  qed
  ultimately show ?thesis by (simp add: coherent_def)
qed simp

lemma agg_Handle_coherent:
  assumes "agg_Handle L no_faults up now rules event a = (out, a')" "coherent t a" "t \<le> now" "index_inv a"
  shows "coherent now a'"
proof -
  have later: "coherent now a"
    using assms(2,3) unfolding coherent_def timely_def by (auto intro: order_trans)
  show ?thesis
  proof (cases event)
    case None
    then show ?thesis using assms(1) later by (simp add: agg_Handle_def)
  next
    case (Some ev)
    from assms(1) [unfolded Some] show ?thesis
    proof (cases rule: agg_Handle_cases)
      case (keyed rule dims)
      let ?k = "BuildIncidentKey (Some ev) dims"
      have ok: "timely t (ag_db a)" using assms(2) by (simp add: coherent_def)
      have entries: "backed (ag_db a) r k e" if "k \<noteq> []" "mget (ag_index a) (r, k) = Some e" for r k e
        using assms(2) that by (simp add: coherent_def)
      have Inr: "\<exists>r. out = Inr r" if "merge no_faults up now ev rule i b = (out, a')" for i b
        using that by (auto simp: merge_def AppendEvent_def no_faults_def claim_storm_def MarkStormFired_def Let_def split: prod.splits if_splits)
      from keyed(5) show ?thesis
      proof (cases rule: merge_or_create_cases)
        case (hit i)
        from Inr [OF hit(2)] obtain r where m: "merge no_faults up now ev rule i a = (Inr r, a')" using hit(2) by auto
        obtain x where x: "FindActiveIncident None (ag_db a) (gr_Id rule) ?k (gr_WindowSec rule) now = Inr (Some x)" "ci_Id x = i"
          by (rule hit_is_found [OF assms(2) keyed(4) hit(1)])
        show ?thesis by (rule merge_coherent [OF m ok assms(3) found_is_newest [OF ok x(1)] x(2) assms(4)]) (use entries in blast)
      next
        case (found x)
        let ?a = "a\<lparr>ag_index := aii_Put now (ag_index a) (gr_Id rule) ?k (ci_Id x)\<rparr>"
        from Inr [OF found(2)] obtain r where m: "merge no_faults up now ev rule (ci_Id x) ?a = (Inr r, a')" using found(2) by auto
        have mem: "x \<in> set (tb_incidents (ag_db a))" "ci_RuleId x = gr_Id rule" "ci_IncidentKey x = ?k"
          using FindActiveIncident_mem [OF found(1)] by (auto simp: active_row_def)
        have ii: "index_inv ?a" by (rule index_inv_put [OF assms(4)]) (use mem(1) in auto)
        show ?thesis
        proof (rule merge_coherent [OF m _ assms(3) _ refl ii])
          show "timely t (ag_db ?a)" "newest (set (tb_incidents (ag_db ?a))) x" using ok found_is_newest [OF ok found(1)] by simp_all
          show "backed (ag_db ?a) r k e \<or> r = ci_RuleId x \<and> k = ci_IncidentKey x \<and> e = \<lparr>ai_incidentId = ci_Id x, ai_lastEventAt = now\<rparr>"
            if "k \<noteq> []" "mget (ag_index ?a) (r, k) = Some e" for r k e
            using that entries [of k r e] mem(2,3) by (auto simp: aii_Put_def split: if_splits)
        qed
      next
        case fresh
        show ?thesis
        proof (cases out)
          case (Inl e)
          with fresh(2) later show ?thesis by (auto elim: createNew_cases)
        next
          case (Inr r)
          with fresh(2) show ?thesis using createNew_coherent [OF _ assms(2,3) _ assms(4)] by (simp add: no_faults_def)
        qed
      qed (use later in simp)
    qed (use later in simp)
  qed
qed

section \<open>With and without the cache\<close>

definition sim :: "Aggregator \<Rightarrow> Aggregator \<Rightarrow> bool" where
  "sim a b \<longleftrightarrow> ag_db a = ag_db b \<and> ag_storm a = ag_storm b"

lemma merge_sim:
  assumes "sim a b"
  shows "fst (merge fl up now ev rule i a) = fst (merge fl up now ev rule i b)
    \<and> sim (snd (merge fl up now ev rule i a)) (snd (merge fl up now ev rule i b))"
  using assms
  by (simp add: sim_def merge_def AppendEvent_def claim_storm_def MarkStormFired_def Let_def split: option.splits prod.splits)

lemma createNew_sim:
  assumes "sim a b"
  shows "fst (createNew L fl now ev rule dims key a) = fst (createNew L fl now ev rule dims key b)
    \<and> sim (snd (createNew L fl now ev rule dims key a)) (snd (createNew L fl now ev rule dims key b))"
  using assms by (simp add: sim_def createNew_def EncodeDimensionValues_def CreateIncident_def Let_def split: option.splits)

lemma merge_or_create_sim:
  assumes "coherent t a" "sim a b" "ag_index b = []" "key \<noteq> []"
  shows "fst (merge_or_create L no_faults up now ev rule dims key a) = fst (merge_or_create L no_faults up now ev rule dims key b)
    \<and> sim (snd (merge_or_create L no_faults up now ev rule dims key a)) (snd (merge_or_create L no_faults up now ev rule dims key b))"
proof -
  obtain i h where get: "aii_Get now (ag_index a) (gr_Id rule) key (gr_WindowSec rule) = (i, h)"
    by (cases "aii_Get now (ag_index a) (gr_Id rule) key (gr_WindowSec rule)")
  have none: "aii_Get now (ag_index b) (gr_Id rule) key (gr_WindowSec rule) = (0, False)" by (simp add: assms(3) aii_Get_def)
  obtain res where f: "FindActiveIncident None (ag_db a) (gr_Id rule) key (gr_WindowSec rule) now = Inr res"
    by (simp add: FindActiveIncident_def Let_def)
  have fb: "FindActiveIncident None (ag_db b) (gr_Id rule) key (gr_WindowSec rule) now = Inr res"
    using f assms(2) by (simp add: sim_def)
  have nf: "fl_find no_faults = None" by (simp add: no_faults_def)
  have put: "sim (a\<lparr>ag_index := x\<rparr>) (b\<lparr>ag_index := y\<rparr>)" "sim a (b\<lparr>ag_index := y\<rparr>)" for x y using assms(2) by (simp_all add: sim_def)
  show ?thesis
  proof (cases h)
    case True
    with get have "aii_Get now (ag_index a) (gr_Id rule) key (gr_WindowSec rule) = (i, True)" by simp
    then obtain x where "res = Some x" "ci_Id x = i" by (rule hit_is_found [OF assms(1,4)]) (simp add: f)
    have "merge_or_create L no_faults up now ev rule dims key a = merge no_faults up now ev rule i a"
      by (simp add: merge_or_create_def get True)
    moreover have "merge_or_create L no_faults up now ev rule dims key b =
        merge no_faults up now ev rule i (b\<lparr>ag_index := aii_Put now (ag_index b) (gr_Id rule) key i\<rparr>)"
      by (simp add: merge_or_create_def none fb nf \<open>res = Some x\<close> \<open>ci_Id x = i\<close>)
    ultimately show ?thesis by (simp only: merge_sim [OF put(2)] simp_thms)
  next
    case miss: False
    show ?thesis
    proof (cases res)
      case None
      have "merge_or_create L no_faults up now ev rule dims key a = createNew L no_faults now ev rule dims key a"
        "merge_or_create L no_faults up now ev rule dims key b = createNew L no_faults now ev rule dims key b"
        by (simp_all add: merge_or_create_def get none f fb nf miss None)
      then show ?thesis by (simp only: createNew_sim [OF assms(2)] simp_thms)
    next
      case (Some x)
      have "merge_or_create L no_faults up now ev rule dims key a =
          merge no_faults up now ev rule (ci_Id x) (a\<lparr>ag_index := aii_Put now (ag_index a) (gr_Id rule) key (ci_Id x)\<rparr>)"
        "merge_or_create L no_faults up now ev rule dims key b =
          merge no_faults up now ev rule (ci_Id x) (b\<lparr>ag_index := aii_Put now (ag_index b) (gr_Id rule) key (ci_Id x)\<rparr>)"
        by (simp_all add: merge_or_create_def get none f fb nf miss Some)
      then show ?thesis by (simp only: merge_sim [OF put(1)] simp_thms)
    qed
  qed
qed

lemma agg_Handle_sim:
  assumes "coherent t a" "sim a b" "ag_index b = []"
  shows "fst (agg_Handle L no_faults up now rules event a) = fst (agg_Handle L no_faults up now rules event b)
    \<and> sim (snd (agg_Handle L no_faults up now rules event a)) (snd (agg_Handle L no_faults up now rules event b))"
  using assms(2) merge_or_create_sim [OF assms]
  by (simp add: agg_Handle_def split: option.splits sum.splits)

type_synonym handle_call = "bool \<times> int \<times> CustomAggregateRule list \<times> AlertCurEvent option"

fun handle_all :: "(Aggregator \<Rightarrow> Aggregator) \<Rightarrow> stdlib \<Rightarrow> handle_call list \<Rightarrow> Aggregator \<Rightarrow> (string + Result) list \<times> tables" where
  "handle_all prepare L [] a = ([], ag_db a)"
| "handle_all prepare L ((up, now, rules, ev) # calls) a =
     (let (out, a') = agg_Handle L no_faults up now rules ev (prepare a);
          (outs, db) = handle_all prepare L calls a'
      in (out # outs, db))"

definition forget_index :: "Aggregator \<Rightarrow> Aggregator" where
  "forget_index a = a\<lparr>ag_index := []\<rparr>"

lemma handle_all_sim:
  "coherent t a \<Longrightarrow> index_inv a \<Longrightarrow> sim a b \<Longrightarrow> sorted (t # map (\<lambda>c. fst (snd c)) calls) \<Longrightarrow>
   handle_all (\<lambda>a. a) L calls a = handle_all forget_index L calls b"
proof (induction calls arbitrary: a b t)
  case Nil
  then show ?case by (simp add: sim_def)
next
  case (Cons c calls)
  obtain up now rules ev where c: "c = (up, now, rules, ev)" by (cases c)
  obtain out a' where h: "agg_Handle L no_faults up now rules ev a = (out, a')"
    by (cases "agg_Handle L no_faults up now rules ev a")
  obtain out2 b' where h2: "agg_Handle L no_faults up now rules ev (forget_index b) = (out2, b')"
    by (cases "agg_Handle L no_faults up now rules ev (forget_index b)")
  have "sim a (forget_index b)" "ag_index (forget_index b) = []" using Cons.prems(3) by (simp_all add: sim_def forget_index_def)
  then have same: "out = out2" "sim a' b'" using agg_Handle_sim [OF Cons.prems(1), of "forget_index b" L up now rules ev] h h2 by simp_all
  have t: "t \<le> now" "sorted (now # map (\<lambda>c. fst (snd c)) calls)" using Cons.prems(4) by (simp_all add: c)
  have "index_inv a'"
    using agg_Handle_inv [OF h _ Cons.prems(2)] Cons.prems(1) by (simp add: coherent_def timely_def)
  then have "handle_all (\<lambda>a. a) L calls a' = handle_all forget_index L calls b'"
    by (rule Cons.IH [OF agg_Handle_coherent [OF h Cons.prems(1) t(1) Cons.prems(2)] _ same(2) t(2)])
  then show ?case by (simp add: c h h2 same(1))
qed


definition order_calls :: "handle_call list" where
  "order_calls = [(True, 100, [plain_rule 7 0], Some order_event), (True, 130, [plain_rule 7 0], Some order_event),
     (True, 900, [plain_rule 7 0], Some order_event)]"


text \<open>Closing an incident by hand breaks the coherence: the handler of \<^verbatim>\<open>router/incident.go\<close> updates the row but does
  not call \<^verbatim>\<open>Forget\<close>, so that the next event within the window is merged into the closed incident and dropped,
  where the data base alone would have opened a new one.\<close>

lemma closed_incident_absorbs:
  "map (\<lambda>x. map_option (\<lambda>r. (rs_Decision r, rs_IncidentId r)) (snd x))
     (trace dims_lib [HandleOp no_faults True 100 [plain_rule 7 0] (Some order_event), CloseOp None None 110 1,
        HandleOp no_faults True 120 [plain_rule 7 0] (Some order_event)] fresh_agg)
   = [Some (DecisionFireFirst, 1), None, Some (DecisionMerged, 1)]"
  "map (\<lambda>x. map_option (\<lambda>r. (rs_Decision r, rs_IncidentId r)) (snd x))
     (trace dims_lib [HandleOp no_faults True 100 [plain_rule 7 0] (Some order_event), CloseOp None None 110 1, RestartOp,
        HandleOp no_faults True 120 [plain_rule 7 0] (Some order_event)] fresh_agg)
   = [Some (DecisionFireFirst, 1), None, None, Some (DecisionFireFirst, 2)]"
  by code_simp+

text \<open>A recovered event is aggregated like any other: the decision does not depend on \<^verbatim>\<open>IsRecovered\<close>.\<close>

lemma recovery_is_aggregated:
  "rs_Decision (case fst (agg_Handle dims_lib no_faults True 130 [plain_rule 7 0]
     (Some (order_event\<lparr>ev_IsRecovered := True\<rparr>)) after_first) of Inr r \<Rightarrow> r) = DecisionMerged"
  by code_simp

section \<open>One page per window\<close>

definition incident_of :: "stdlib \<Rightarrow> CustomAggregateRule list \<Rightarrow> AlertCurEvent \<Rightarrow> indexKey option" where
  "incident_of L rules ev = (case SelectBestRule L (Some ev) rules of None \<Rightarrow> None | Some rule \<Rightarrow>
     (case decodeStringSlice L (gr_Dimensions rule) of Inl e \<Rightarrow> None | Inr dims \<Rightarrow> Some (gr_Id rule, BuildIncidentKey (Some ev) dims)))"

definition window_of :: "stdlib \<Rightarrow> CustomAggregateRule list \<Rightarrow> AlertCurEvent \<Rightarrow> int" where
  "window_of L rules ev = (case SelectBestRule L (Some ev) rules of None \<Rightarrow> 0 | Some rule \<Rightarrow> gr_WindowSec rule)"

fun quiet :: "int \<Rightarrow> agg_op \<Rightarrow> bool" where
  "quiet t (HandleOp fl up now rules ev) \<longleftrightarrow> t \<le> now"
| "quiet t RestartOp \<longleftrightarrow> True"
| "quiet t _ \<longleftrightarrow> False"

text \<open>An open row of the rule and key that has seen an event since \<open>t\<close>.\<close>

definition alive :: "int \<Rightarrow> int \<Rightarrow> string \<Rightarrow> tables \<Rightarrow> bool" where
  "alive t r k db \<longleftrightarrow> (\<exists>x \<in> set (tb_incidents db). active_row r k t x)"

lemma merge_alive:
  assumes "merge fl up now ev rule i a = (out, a')" "alive t r k (ag_db a)" "t \<le> now"
  shows "alive t r k (ag_db a')"
proof (cases out)
  case (Inl e)
  with assms merge_Inl show ?thesis by blast
next
  case (Inr res)
  with assms(1) have "merge fl up now ev rule i a = (Inr res, a')" by simp
  then obtain g where g: "touches now g" "tb_incidents (ag_db a') = map (update_row i g) (tb_incidents (ag_db a))"
    by (rule merge_rows)
  have "active_row r k t x \<Longrightarrow> active_row r k t (update_row i g x)" for x
    using g(1) assms(3) by (simp add: active_row_def update_row_def touches_def)
  with assms(2) show ?thesis by (auto simp: alive_def g(2))
qed

lemma createNew_rows:
  assumes "createNew L fl now ev rule dims key a = (Inr res, a')"
  obtains x where "tb_incidents (ag_db a') = tb_incidents (ag_db a) @ [x]" "active_row (gr_Id rule) key now x"
  using assms
proof (cases rule: createNew_cases)
  case (created inc r)
  have "tb_incidents (ag_db a') = tb_incidents (ag_db a) @ [inc]"
    using created(5) by (elim disjE conjE) (simp_all add: create_link_def)
  moreover have "active_row (gr_Id rule) key now inc"
    using created(4) by (simp add: active_row_def new_incident_def IncidentStatusOpen_def)
  ultimately show thesis by (rule that)
qed simp

lemma createNew_alive:
  assumes "createNew L fl now ev rule dims key a = (out, a')" "alive t r k (ag_db a)"
  shows "alive t r k (ag_db a')"
proof (cases out)
  case (Inl e)
  with assms show ?thesis by (auto elim: createNew_cases)
next
  case (Inr res)
  with assms(1) obtain x where "tb_incidents (ag_db a') = tb_incidents (ag_db a) @ [x]" by (auto elim: createNew_rows)
  with assms(2) show ?thesis by (auto simp: alive_def)
qed

lemma agg_Handle_alive:
  assumes "agg_Handle L fl up now rules event a = (out, a')" "alive t r k (ag_db a)" "t \<le> now"
  shows "alive t r k (ag_db a')"
proof (cases event)
  case None
  with assms show ?thesis by (simp add: agg_Handle_def)
next
  case (Some ev)
  from assms(1) [unfolded Some] show ?thesis
  proof (cases rule: agg_Handle_cases)
    case (keyed rule dims)
    from keyed(5) show ?thesis
    proof (cases rule: merge_or_create_cases)
      case (hit i)
      show ?thesis by (rule merge_alive [OF hit(2) assms(2,3)])
    next
      case (found x)
      show ?thesis by (rule merge_alive [OF found(2) _ assms(3)]) (simp add: assms(2))
    next
      case fresh
      show ?thesis by (rule createNew_alive [OF fresh(2) assms(2)])
    qed (simp add: assms(2))
  qed (simp add: assms(2))
qed

lemma agg_exec_alive:
  "agg_exec L op a = (res, b) \<Longrightarrow> quiet t op \<Longrightarrow> alive t r k (ag_db a) \<Longrightarrow> alive t r k (ag_db b)"
  by (cases op) (auto dest: agg_Handle_alive split: prod.splits)

lemma agg_run_alive:
  "agg_run L a tr b \<Longrightarrow> \<forall>x \<in> set tr. quiet t (fst x) \<Longrightarrow> alive t r k (ag_db a) \<Longrightarrow> alive t r k (ag_db b)"
proof (induction rule: agg_run.induct)
  case (step a tr b op res c)
  then show ?case using agg_exec_alive [OF step.hyps(2)] by simp
qed

lemma first_opens:
  assumes "agg_Handle L fl up now rules (Some ev) a = (Inr res, a')" "rs_Decision res = DecisionFireFirst"
  obtains r k where "incident_of L rules ev = Some (r, k)" "alive now r k (ag_db a')"
    "FindActiveIncident None (ag_db a) r k (window_of L rules ev) now = Inr None"
  using assms(1)
proof (cases rule: agg_Handle_cases)
  case nothing
  with assms(2) show thesis by simp
next
  case (keyed rule dims)
  have i: "incident_of L rules ev = Some (gr_Id rule, BuildIncidentKey (Some ev) dims)" "window_of L rules ev = gr_WindowSec rule"
    using keyed(1,2) by (simp_all add: incident_of_def window_of_def)
  from keyed(5) show thesis
  proof (cases rule: merge_or_create_cases)
    case (hit j)
    from merge_rows [OF hit(2)] assms(2) show thesis by (metis Verdict.distinct)
  next
    case (found x)
    from merge_rows [OF found(2)] assms(2) show thesis by (metis Verdict.distinct)
  next
    case fresh
    obtain x where "tb_incidents (ag_db a') = tb_incidents (ag_db a) @ [x]" "active_row (gr_Id rule) (BuildIncidentKey (Some ev) dims) now x"
      by (rule createNew_rows [OF fresh(2)])
    then have "alive now (gr_Id rule) (BuildIncidentKey (Some ev) dims) (ag_db a')" by (simp add: alive_def)
    with that [OF i(1)] fresh(1) i(2) show thesis by simp
  qed simp
qed


definition between :: "agg_op list" where
  "between = [RestartOp, HandleOp no_faults True 150 [plain_rule 7 0] (Some (tagged [(''service'', ''pay'')]))]"


end
