(* ===== verification/Custom_Mute.thy ===== *)
theory Custom_Mute
  imports Alert_Event Tag_Matchers
begin

text \<open>
  The custom mute module, \<^verbatim>\<open>internal/custom/mute\<close>: mute windows opened by a cron schedule
  (\<^verbatim>\<open>cron.go\<close>, \<^verbatim>\<open>cron_rule.go\<close>), the global emergency switch (\<^verbatim>\<open>emergency.go\<close>), the evaluator that
  combines them (\<^verbatim>\<open>evaluator.go\<close>) and its hook (\<^verbatim>\<open>hook.go\<close>). The cron parser is the package
  \<^verbatim>\<open>robfig/cron\<close> and the time zone database is a file of the system: both are arguments, in the
  record \<open>cron_lib\<close>. A nil event is \<open>None\<close>; pointers the constructors always set are plain fields.
\<close>

section \<open>Cron windows\<close>

text \<open>A schedule gives the next firing strictly after an instant, in a location; \<open>None\<close> is the zero
  time it returns when it finds none.\<close>

type_synonym schedule = "zone \<Rightarrow> int \<Rightarrow> int option"

record cron_lib =
  cron_Parse :: "string \<Rightarrow> string + schedule"
  LoadLocation :: "string \<Rightarrow> string + zone"
  time_Local :: zone

record CompiledCron =
  cc_Schedule :: schedule
  cc_Location :: zone
  cc_DurationSec :: int

definition CompileCron :: "cron_lib \<Rightarrow> string \<Rightarrow> string \<Rightarrow> int \<Rightarrow> string + CompiledCron" where
  "CompileCron C expr timezone durationSec =
     (if expr = [] then Inl ''cron expression is empty''
      else if durationSec \<le> 0 then Inl ''duration_sec must be > 0''
      else case (if timezone \<noteq> [] then LoadLocation C timezone else Inr (time_Local C)) of
        Inl err \<Rightarrow> Inl (''invalid timezone '' @ Quote timezone @ '': '' @ err)
      | Inr loc \<Rightarrow> (case cron_Parse C expr of
          Inl err \<Rightarrow> Inl (''invalid cron '' @ Quote expr @ '': '' @ err)
        | Inr sched \<Rightarrow> Inr \<lparr>cc_Schedule = sched, cc_Location = loc, cc_DurationSec = durationSec\<rparr>))"

text \<open>The duration is computed in 64-bit nanoseconds.\<close>

definition IsActive :: "CompiledCron \<Rightarrow> int \<Rightarrow> bool" where
  "IsActive c now =
     (let windowStart = now + wrap64 (wrap64 (- cc_DurationSec c) * Second) in
      case cc_Schedule c (cc_Location c) windowStart of
        None \<Rightarrow> False
      | Some fire \<Rightarrow> \<not> fire > now)"

section \<open>Cron mute rules\<close>

record CustomMuteCron =
  mc_Id :: int
  mc_GroupId :: int
  mc_Note :: string
  mc_CronExpr :: string
  mc_DurationSec :: int
  mc_Timezone :: string
  mc_DatasourceIds :: string
  mc_DatasourceIdsJson :: "int list"
  mc_Severities :: string
  mc_SeveritiesJson :: "int list"
  mc_Tags :: string
  mc_Disabled :: int
  mc_CreateBy :: string
  mc_UpdateBy :: string
  mc_CreateAt :: int
  mc_UpdateAt :: int

record CompiledCronRule =
  ccr_Rule :: CustomMuteCron
  ccr_Cron :: CompiledCron
  ccr_TagFilters :: "TagFilter list"
  ccr_DatasourceIds :: "int list"
  ccr_Severities :: "int list"

definition CompileCronRule ::
  "stdlib \<Rightarrow> cron_lib \<Rightarrow> CustomMuteCron option \<Rightarrow> string + CompiledCronRule" where
  "CompileCronRule L C raw =
     (case raw of
        None \<Rightarrow> Inl ''nil rule''
      | Some r \<Rightarrow> (case CompileCron C (mc_CronExpr r) (mc_Timezone r) (mc_DurationSec r) of
          Inl err \<Rightarrow> Inl (''rule '' @ Itoa (mc_Id r) @ '': '' @ err)
        | Inr cc \<Rightarrow> (case decodeTagFilters L (mc_Tags r) of
            Inl err \<Rightarrow> Inl (''rule '' @ Itoa (mc_Id r) @ '' tags: '' @ err)
          | Inr tagFilters \<Rightarrow> Inr \<lparr>ccr_Rule = r, ccr_Cron = cc, ccr_TagFilters = tagFilters,
              ccr_DatasourceIds = mc_DatasourceIdsJson r, ccr_Severities = mc_SeveritiesJson r\<rparr>)))"

definition cron_Match :: "CompiledCronRule \<Rightarrow> AlertCurEvent option \<Rightarrow> int \<Rightarrow> bool" where
  "cron_Match c event now =
     (case event of
        None \<Rightarrow> False
      | Some ev \<Rightarrow>
          if mc_Disabled (ccr_Rule c) = 1 then False
          else if mc_GroupId (ccr_Rule c) \<noteq> 0 \<and> mc_GroupId (ccr_Rule c) \<noteq> ev_GroupId ev then False
          else if scope_excludes (ccr_DatasourceIds c) (ev_DatasourceId ev) then False
          else if ccr_Severities c \<noteq> [] \<and> ev_Severity ev \<notin> set (ccr_Severities c) then False
          else if ccr_TagFilters c \<noteq> [] \<and> \<not> mute_matchAllTagFilters (ev_TagsMap ev) (ccr_TagFilters c) then False
          else IsActive (ccr_Cron c) now)"

section \<open>The emergency switch\<close>

record CustomEmergencyMute =
  em_Id :: int
  em_Enabled :: int
  em_Reason :: string
  em_ExpireAt :: int
  em_DatasourceIds :: string
  em_DatasourceIdsJson :: "int list"
  em_GroupIds :: string
  em_GroupIdsJson :: "int list"
  em_CreateBy :: string
  em_UpdateBy :: string
  em_CreateAt :: int
  em_UpdateAt :: int

record EmergencyState =
  es_Enabled :: bool
  es_Reason :: string
  es_ExpireAt :: int
  es_DatasourceIds :: "int list"
  es_GroupIds :: "int list"

definition disabled_state :: EmergencyState where
  "disabled_state = \<lparr>es_Enabled = False, es_Reason = [], es_ExpireAt = 0, es_DatasourceIds = [], es_GroupIds = []\<rparr>"

text \<open>The holder is one atomic pointer; its state is the snapshot it points to.\<close>

type_synonym EmergencyHolder = EmergencyState

definition NewEmergencyHolder :: EmergencyHolder where
  "NewEmergencyHolder = disabled_state"

definition emergency_Set :: "EmergencyHolder \<Rightarrow> EmergencyState option \<Rightarrow> EmergencyHolder" where
  "emergency_Set h s = (case s of None \<Rightarrow> disabled_state | Some s' \<Rightarrow> s')"

definition FromModel :: "CustomEmergencyMute option \<Rightarrow> EmergencyState" where
  "FromModel row =
     (case row of
        None \<Rightarrow> disabled_state
      | Some r \<Rightarrow> \<lparr>es_Enabled = (em_Enabled r = 1), es_Reason = em_Reason r, es_ExpireAt = em_ExpireAt r,
          es_DatasourceIds = em_DatasourceIdsJson r, es_GroupIds = em_GroupIdsJson r\<rparr>)"

definition emergency_Match :: "EmergencyHolder \<Rightarrow> AlertCurEvent option \<Rightarrow> int \<Rightarrow> bool \<times> string" where
  "emergency_Match s event now =
     (case event of
        None \<Rightarrow> (False, [])
      | Some ev \<Rightarrow>
          if \<not> es_Enabled s then (False, [])
          else if es_ExpireAt s > 0 \<and> es_ExpireAt s < Unix now then (False, [])
          else if scope_excludes (es_DatasourceIds s) (ev_DatasourceId ev) then (False, [])
          else if scope_excludes (es_GroupIds s) (ev_GroupId ev) then (False, [])
          else (True, es_Reason s))"

section \<open>The evaluator and its hook\<close>

record Evaluator =
  evr_cron :: "CompiledCronRule list option"
  evr_emergency :: "EmergencyHolder option"

record MuteVerdict =
  mv_Muted :: bool
  mv_Reason :: string
  mv_RuleId :: int

definition no_mute :: MuteVerdict where
  "no_mute = \<lparr>mv_Muted = False, mv_Reason = [], mv_RuleId = 0\<rparr>"

fun cron_loop :: "CompiledCronRule list \<Rightarrow> AlertCurEvent option \<Rightarrow> int \<Rightarrow> MuteVerdict" where
  "cron_loop [] event now = no_mute"
| "cron_loop (rule # rules) event now =
     (if cron_Match rule event now
      then \<lparr>mv_Muted = True, mv_Reason = ''cron mute rule '' @ mc_Note (ccr_Rule rule), mv_RuleId = mc_Id (ccr_Rule rule)\<rparr>
      else cron_loop rules event now)"

text \<open>\<open>evr_cron\<close> is what the provider's \<^verbatim>\<open>GetActive\<close> returns at the time of the call.\<close>

definition Evaluate :: "Evaluator \<Rightarrow> AlertCurEvent option \<Rightarrow> int \<Rightarrow> MuteVerdict" where
  "Evaluate e event now =
     (if event = None then no_mute
      else
        let emerg = (case evr_emergency e of None \<Rightarrow> (False, []) | Some h \<Rightarrow> emergency_Match h event now) in
        if fst emerg then \<lparr>mv_Muted = True, mv_Reason = ''emergency mute: '' @ snd emerg, mv_RuleId = 0\<rparr>
        else case evr_cron e of None \<Rightarrow> no_mute | Some rules \<Rightarrow> cron_loop rules event now)"

definition mute_NewHookAdapter :: "'s EventMuteHookFunc option \<Rightarrow> 's EventMuteHookFunc" where
  "mute_NewHookAdapter prev = (case prev of None \<Rightarrow> (\<lambda>event s. (False, s)) | Some p \<Rightarrow> p)"

definition mute_Hook :: "Evaluator \<Rightarrow> int \<Rightarrow> 's EventMuteHookFunc option \<Rightarrow> 's EventMuteHookFunc" where
  "mute_Hook eval now prev event s =
     (if event = None then (False, s)
      else if mv_Muted (Evaluate eval event now) then (True, s)
      else mute_NewHookAdapter prev event s)"

section \<open>Windows\<close>

text \<open>What \<^verbatim>\<open>robfig/cron\<close> documents of \<^verbatim>\<open>Next\<close>: the first firing strictly after its argument, or the zero
  time when there is none in the five years that follow.\<close>

definition five_years :: int where "five_years = 5 * 365 * 86400 * Second"

definition next_firing :: "int set \<Rightarrow> (int \<Rightarrow> int option) \<Rightarrow> bool" where
  "next_firing fires nx \<longleftrightarrow>
     (\<forall>t. case nx t of
        Some f \<Rightarrow> f \<in> fires \<and> t < f \<and> (\<forall>f' \<in> fires. t < f' \<longrightarrow> f \<le> f')
      | None \<Rightarrow> (\<forall>f' \<in> fires. t < f' \<longrightarrow> t + five_years < f'))"

lemma next_firing_window:
  assumes "next_firing fires nx" "now \<le> start + five_years"
  shows "(case nx start of None \<Rightarrow> False | Some f \<Rightarrow> \<not> f > now) \<longleftrightarrow> (\<exists>f \<in> fires. start < f \<and> f \<le> now)"
proof -
  from assms(1) have c: "case nx start of
        Some f \<Rightarrow> f \<in> fires \<and> start < f \<and> (\<forall>f' \<in> fires. start < f' \<longrightarrow> f \<le> f')
      | None \<Rightarrow> (\<forall>f' \<in> fires. start < f' \<longrightarrow> start + five_years < f')"
    by (simp add: next_firing_def)
  show ?thesis
  proof (cases "nx start")
    case None
    with c assms(2) show ?thesis by fastforce
  next
    case (Some f)
    with c show ?thesis by fastforce
  qed
qed

lemma wrap64_shift: "wrap64 (x + 2 ^ 64) = wrap64 x"
proof -
  have "word_of_int (x + 2 ^ 64) = (word_of_int x :: 64 word)"
    by (simp only: word_of_int_eq_iff take_bit_eq_mod) simp
  then show ?thesis by (simp only: wrap64_def)
qed

lemma duration_exact: "0 < d \<Longrightarrow> d \<le> 5 * 365 * 86400 \<Longrightarrow> wrap64 (wrap64 (- d) * Second) = - (d * Second)"
  by (simp add: wrap64_id is_int64_def int64_min_def int64_max_def Second_def)

text \<open>(C25) The window test of a cron mute rule is right. With a schedule that keeps the contract of
  \<^verbatim>\<open>Next\<close>, \<^verbatim>\<open>IsActive\<close> holds at \<open>now\<close> exactly when the schedule fired in the last
  \<^verbatim>\<open>DurationSec\<close> seconds: after \<open>now - DurationSec\<close> and not after \<open>now\<close>.\<close>

theorem cron_window_correct:
  assumes "next_firing fires (cc_Schedule c (cc_Location c))"
    and "0 < cc_DurationSec c" "cc_DurationSec c \<le> 5 * 365 * 86400"
  shows "IsActive c now \<longleftrightarrow> (\<exists>f \<in> fires. now - cc_DurationSec c * Second < f \<and> f \<le> now)"
proof -
  have start: "now + wrap64 (wrap64 (- cc_DurationSec c) * Second) = now - cc_DurationSec c * Second"
    using duration_exact [OF assms(2,3)] by simp
  have "now \<le> now - cc_DurationSec c * Second + five_years"
    using assms(3) by (simp add: five_years_def Second_def)
  from next_firing_window [OF assms(1) this] show ?thesis
    unfolding IsActive_def Let_def start .
qed

definition every_hour :: schedule where
  "every_hour z t = Some ((t div (3600 * Second) + 1) * (3600 * Second))"

definition on_the_hour :: "int set" where
  "on_the_hour = range (\<lambda>k. k * (3600 * Second))"

lemma every_hour_next: "next_firing on_the_hour (every_hour z)"
proof -
  have p: "0 < 3600 * Second" by (simp add: Second_def)
  have "t < (t div (3600 * Second) + 1) * (3600 * Second)
      \<and> (\<forall>k. t < k * (3600 * Second) \<longrightarrow> (t div (3600 * Second) + 1) * (3600 * Second) \<le> k * (3600 * Second))" for t :: int
  proof (intro conjI allI impI)
    show "t < (t div (3600 * Second) + 1) * (3600 * Second)"
      using pos_mod_bound [OF p, of t] div_mult_mod_eq [of t "3600 * Second"] by (simp only: distrib_right mult_1)
    fix k assume "t < k * (3600 * Second)"
    then have "t div (3600 * Second) < k" using zdiv_mono_strict p by (smt (verit) mult_right_mono div_mult_mod_eq pos_mod_sign)
    then show "(t div (3600 * Second) + 1) * (3600 * Second) \<le> k * (3600 * Second)"
      using p by (intro mult_right_mono) auto
  qed
  then show ?thesis by (auto simp: next_firing_def every_hour_def on_the_hour_def)
qed

definition hourly_window :: "int \<Rightarrow> CompiledCron" where
  "hourly_window d = \<lparr>cc_Schedule = every_hour, cc_Location = (\<lambda>_. 0), cc_DurationSec = d\<rparr>"

theorem cron_window_correct_witness:
  "IsActive (hourly_window 600) (7500 * Second)
   \<and> (\<exists>f \<in> on_the_hour. 7500 * Second - 600 * Second < f \<and> f \<le> 7500 * Second)"
proof -
  have "IsActive (hourly_window 600) (7500 * Second)"
    by code_simp
  then show ?thesis
    using cron_window_correct [of on_the_hour "hourly_window 600" "7500 * Second"] every_hour_next
    by (simp add: hourly_window_def)
qed

text \<open>A duration of more than 292 years opens no window. From \<open>9223372037\<close> to \<open>18446744073\<close> seconds
  the product with \<^verbatim>\<open>time.Second\<close> wraps around to a positive number, the window starts in the future
  and the rule, accepted by \<^verbatim>\<open>CompileCron\<close>, never mutes.\<close>

theorem long_duration_never_active:
  assumes "next_firing fires (cc_Schedule c (cc_Location c))"
    and "9223372037 \<le> cc_DurationSec c" "cc_DurationSec c \<le> 18446744073"
  shows "\<not> IsActive c now"
proof -
  let ?d = "cc_DurationSec c"
  have "wrap64 (- ?d) = - ?d"
    using assms(2,3) by (simp add: wrap64_id is_int64_def int64_min_def int64_max_def)
  moreover have "wrap64 (- ?d * Second) = - ?d * Second + 2 ^ 64"
  proof -
    have "wrap64 (- ?d * Second) = wrap64 (- ?d * Second + 2 ^ 64)"
      by (simp only: wrap64_shift)
    also have "\<dots> = - ?d * Second + 2 ^ 64"
      using assms(2,3) by (intro wrap64_id) (simp add: is_int64_def int64_min_def int64_max_def Second_def)
    finally show ?thesis .
  qed
  moreover have "0 \<le> - ?d * Second + 2 ^ 64"
    using assms(3) by (simp add: Second_def)
  ultimately have s: "now \<le> now + wrap64 (wrap64 (- ?d) * Second)"
    by simp
  from assms(1) have "\<And>t f. cc_Schedule c (cc_Location c) t = Some f \<Longrightarrow> t < f"
    by (auto simp: next_firing_def split: option.splits)
  with s show ?thesis by (fastforce simp: IsActive_def Let_def split: option.splits)
qed

theorem long_duration_never_active_witness:
  "CompileCron \<lparr>cron_Parse = (\<lambda>_. Inr every_hour), LoadLocation = (\<lambda>_. Inl ''zone''), time_Local = (\<lambda>_. 0)\<rparr>
     ''0 * * * *'' [] 10000000000 = Inr (hourly_window 10000000000)
   \<and> \<not> IsActive (hourly_window 10000000000) (7200 * Second)"
  using long_duration_never_active [of on_the_hour "hourly_window 10000000000" "7200 * Second"] every_hour_next
  by (simp add: hourly_window_def CompileCron_def)

section \<open>Verdicts\<close>

lemma cron_loop_spec:
  "cron_loop rules event now =
     (case find (\<lambda>r. cron_Match r event now) rules of
        None \<Rightarrow> no_mute
      | Some r \<Rightarrow> \<lparr>mv_Muted = True, mv_Reason = ''cron mute rule '' @ mc_Note (ccr_Rule r), mv_RuleId = mc_Id (ccr_Rule r)\<rparr>)"
  by (induction rules) auto

lemma cron_loop_muted: "mv_Muted (cron_loop rules event now) \<longleftrightarrow> (\<exists>r \<in> set rules. cron_Match r event now)"
  by (induction rules) (auto simp: no_mute_def)


definition hourly_rule :: "int \<Rightarrow> CompiledCronRule" where
  "hourly_rule i = \<lparr>ccr_Rule = \<lparr>mc_Id = i, mc_GroupId = 0, mc_Note = ''backup'', mc_CronExpr = ''0 * * * *'',
     mc_DurationSec = 600, mc_Timezone = [], mc_DatasourceIds = [], mc_DatasourceIdsJson = [],
     mc_Severities = [], mc_SeveritiesJson = [3], mc_Tags = [], mc_Disabled = 0, mc_CreateBy = [],
     mc_UpdateBy = [], mc_CreateAt = 0, mc_UpdateAt = 0\<rparr>, ccr_Cron = hourly_window 600,
     ccr_TagFilters = [], ccr_DatasourceIds = [], ccr_Severities = [i]\<rparr>"


end
