(* ===== verification/Suppress.thy ===== *)
theory Suppress
  imports Alert_Event Tag_Matchers Ttl_Index
begin

text \<open>
  Cross-rule suppression, \<^verbatim>\<open>internal/custom/suppress\<close>: the index of live root causes (\<^verbatim>\<open>index.go\<close>),
  compiled inhibition rules (\<^verbatim>\<open>rule.go\<close>), the decision on one event (\<^verbatim>\<open>inhibitor.go\<close>) and the hook
  (\<^verbatim>\<open>hook.go\<close>). The index is a Go map, so \<^verbatim>\<open>MatchAnyFull\<close> visits it in an unspecified order: the
  definitions take the order as an argument, one per rule of a decision. One call of \<^verbatim>\<open>Decide\<close> reads
  the clock once.
\<close>

section \<open>The index of root causes\<close>

record rootCauseEntry =
  rc_equalLabelValues :: tags
  rc_expireAt :: int
  rc_ruleName :: string
  rc_tagsCSV :: string
  rc_severity :: int
  rc_groupId :: int
  rc_datasourceId :: int

record SourceSnapshot =
  ss_EventHash :: string
  ss_RuleName :: string
  ss_TagsCSV :: string
  ss_Severity :: int
  ss_GroupId :: int
  ss_DatasourceId :: int

definition zero_snapshot :: SourceSnapshot where
  "zero_snapshot = \<lparr>ss_EventHash = [], ss_RuleName = [], ss_TagsCSV = [], ss_Severity = 0, ss_GroupId = 0, ss_DatasourceId = 0\<rparr>"

type_synonym matchKey = "int \<times> string"

record RootCauseIndex =
  rci_entries :: "(matchKey, rootCauseEntry) gomap"
  rci_defaultTTL :: int

definition NewRootCauseIndex :: "int \<Rightarrow> RootCauseIndex" where
  "NewRootCauseIndex defaultTTLSec =
     \<lparr>rci_entries = [], rci_defaultTTL = (if defaultTTLSec \<le> 0 then 600 else defaultTTLSec)\<rparr>"

definition RegisterFull ::
  "int \<Rightarrow> RootCauseIndex \<Rightarrow> int \<Rightarrow> string \<Rightarrow> tags \<Rightarrow> string \<Rightarrow> string \<Rightarrow> int \<Rightarrow> int \<Rightarrow> int \<Rightarrow> RootCauseIndex" where
  "RegisterFull now idx ruleId eventHash equalValues ruleName tagsCSV severity groupId datasourceId =
     idx\<lparr>rci_entries := mput (ruleId, eventHash)
       \<lparr>rc_equalLabelValues = equalValues, rc_expireAt = now + rci_defaultTTL idx, rc_ruleName = ruleName,
        rc_tagsCSV = tagsCSV, rc_severity = severity, rc_groupId = groupId, rc_datasourceId = datasourceId\<rparr>
       (rci_entries idx)\<rparr>"

definition Register :: "int \<Rightarrow> RootCauseIndex \<Rightarrow> int \<Rightarrow> string \<Rightarrow> tags \<Rightarrow> RootCauseIndex" where
  "Register now idx ruleId eventHash equalValues = RegisterFull now idx ruleId eventHash equalValues [] [] 0 0 0"

definition rci_Forget :: "RootCauseIndex \<Rightarrow> int \<Rightarrow> string \<Rightarrow> RootCauseIndex" where
  "rci_Forget idx ruleId eventHash = idx\<lparr>rci_entries := mdel (ruleId, eventHash) (rci_entries idx)\<rparr>"

text \<open>Deleting from a map while ranging over it is allowed: the loop visits every entry that is still there.\<close>

fun forget_event_loop :: "string \<Rightarrow> matchKey list \<Rightarrow> (matchKey, rootCauseEntry) gomap \<Rightarrow> (matchKey, rootCauseEntry) gomap" where
  "forget_event_loop h [] m = m"
| "forget_event_loop h (k # ks) m = forget_event_loop h ks (if snd k = h then mdel k m else m)"

definition ForgetEvent :: "RootCauseIndex \<Rightarrow> string \<Rightarrow> RootCauseIndex" where
  "ForgetEvent idx eventHash =
     idx\<lparr>rci_entries := forget_event_loop eventHash (map fst (rci_entries idx)) (rci_entries idx)\<rparr>"

text \<open>The loop over the labels of the source stops at the first that disagrees; its answer does not
  depend on the order.\<close>

fun equal_values_loop :: "(string \<times> string) list \<Rightarrow> tags \<Rightarrow> bool" where
  "equal_values_loop [] target = True"
| "equal_values_loop ((k, sv) # rest) target =
     (case mget target k of
        None \<Rightarrow> False
      | Some tv \<Rightarrow> if tv \<noteq> sv then False else equal_values_loop rest target)"

definition equalValuesMatch :: "tags \<Rightarrow> tags \<Rightarrow> bool" where
  "equalValuesMatch source target = (if length source = 0 then True else equal_values_loop source target)"

definition rc_expired :: "int \<Rightarrow> rootCauseEntry \<Rightarrow> bool" where
  "rc_expired now e \<longleftrightarrow> rc_expireAt e > 0 \<and> rc_expireAt e < now"

fun match_loop :: "int \<Rightarrow> int \<Rightarrow> tags \<Rightarrow> (matchKey \<times> rootCauseEntry) list \<Rightarrow> SourceSnapshot option" where
  "match_loop now ruleId targetValues [] = None"
| "match_loop now ruleId targetValues ((k, e) # rest) =
     (if fst k \<noteq> ruleId then match_loop now ruleId targetValues rest
      else if rc_expired now e then match_loop now ruleId targetValues rest
      else if equalValuesMatch (rc_equalLabelValues e) targetValues
        then Some \<lparr>ss_EventHash = snd k, ss_RuleName = rc_ruleName e, ss_TagsCSV = rc_tagsCSV e,
          ss_Severity = rc_severity e, ss_GroupId = rc_groupId e, ss_DatasourceId = rc_datasourceId e\<rparr>
      else match_loop now ruleId targetValues rest)"

type_synonym entry_order = "(matchKey \<times> rootCauseEntry) list \<Rightarrow> (matchKey \<times> rootCauseEntry) list"

definition MatchAnyFull :: "entry_order \<Rightarrow> int \<Rightarrow> RootCauseIndex \<Rightarrow> int \<Rightarrow> tags \<Rightarrow> SourceSnapshot option" where
  "MatchAnyFull ord now idx ruleId targetValues = match_loop now ruleId targetValues (ord (rci_entries idx))"

definition MatchAny :: "entry_order \<Rightarrow> int \<Rightarrow> RootCauseIndex \<Rightarrow> int \<Rightarrow> tags \<Rightarrow> string \<times> bool" where
  "MatchAny ord now idx ruleId targetValues =
     (case MatchAnyFull ord now idx ruleId targetValues of
        None \<Rightarrow> ([], False)
      | Some snap \<Rightarrow> (ss_EventHash snap, True))"

fun sweep_loop ::
  "int \<Rightarrow> (matchKey \<times> rootCauseEntry) list \<Rightarrow> (matchKey, rootCauseEntry) gomap \<Rightarrow> nat \<Rightarrow> (matchKey, rootCauseEntry) gomap \<times> nat" where
  "sweep_loop now [] m evicted = (m, evicted)"
| "sweep_loop now ((k, e) # rest) m evicted =
     (if rc_expired now e then sweep_loop now rest (mdel k m) (Suc evicted) else sweep_loop now rest m evicted)"

definition rci_Sweep :: "int \<Rightarrow> RootCauseIndex \<Rightarrow> RootCauseIndex \<times> nat" where
  "rci_Sweep now idx =
     (let (m, evicted) = sweep_loop now (rci_entries idx) (rci_entries idx) 0 in (idx\<lparr>rci_entries := m\<rparr>, evicted))"

definition rci_Len :: "RootCauseIndex \<Rightarrow> nat" where
  "rci_Len idx = length (rci_entries idx)"

section \<open>Inhibition rules\<close>

record CustomInhibitRule =
  ir_Id :: int
  ir_GroupId :: int
  ir_Name :: string
  ir_Note :: string
  ir_SourceMatch :: string
  ir_TargetMatch :: string
  ir_EqualLabels :: string
  ir_EqualLabelsJson :: "string list"
  ir_DatasourceIds :: string
  ir_DatasourceIdsJson :: "int list"
  ir_Disabled :: int
  ir_CreateBy :: string
  ir_UpdateBy :: string
  ir_CreateAt :: int
  ir_UpdateAt :: int

record CompiledRule =
  cr_Rule :: CustomInhibitRule
  cr_SourceMatch :: "TagFilter list"
  cr_TargetMatch :: "TagFilter list"
  cr_EqualLabels :: "string list"

definition CompileRule :: "stdlib \<Rightarrow> CustomInhibitRule option \<Rightarrow> string + CompiledRule" where
  "CompileRule L raw =
     (case raw of
        None \<Rightarrow> Inl ''nil rule''
      | Some r \<Rightarrow> (case decodeTagFilters L (ir_SourceMatch r) of
          Inl err \<Rightarrow> Inl (''source_match: '' @ err)
        | Inr src \<Rightarrow>
          if length src = 0 then Inl ''source_match must contain at least one filter''
          else (case decodeTagFilters L (ir_TargetMatch r) of
            Inl err \<Rightarrow> Inl (''target_match: '' @ err)
          | Inr tgt \<Rightarrow>
            if length tgt = 0 then Inl ''target_match must contain at least one filter''
            else (case (if length (ir_EqualLabels r) > 0 then json_strings L (ir_EqualLabels r) else Inr []) of
              Inl err \<Rightarrow> Inl (''equal_labels: '' @ err)
            | Inr equalLabels \<Rightarrow> Inr \<lparr>cr_Rule = r, cr_SourceMatch = src, cr_TargetMatch = tgt, cr_EqualLabels = equalLabels\<rparr>))))"

section \<open>The decision\<close>

type_synonym Registration = "int \<times> string"

record Decision =
  dc_Suppressed :: bool
  dc_BySourceHash :: string
  dc_ByRuleId :: int
  dc_ByRuleName :: string
  dc_BySource :: SourceSnapshot
  dc_NewRegistrations :: "Registration list"

definition zero_decision :: Decision where
  "zero_decision = \<lparr>dc_Suppressed = False, dc_BySourceHash = [], dc_ByRuleId = 0, dc_ByRuleName = [],
     dc_BySource = zero_snapshot, dc_NewRegistrations = []\<rparr>"

fun extract_loop :: "tags \<Rightarrow> string list \<Rightarrow> tags \<Rightarrow> tags" where
  "extract_loop tags [] out = out"
| "extract_loop tags (k # ks) out =
     extract_loop tags ks (case mget tags k of None \<Rightarrow> out | Some v \<Rightarrow> mput k v out)"

definition extractEqualValues :: "tags \<Rightarrow> string list \<Rightarrow> tags" where
  "extractEqualValues tags keys = (if length keys = 0 then [] else extract_loop tags keys [])"

fun contains :: "int list \<Rightarrow> int \<Rightarrow> bool" where
  "contains [] needle = False"
| "contains (v # vs) needle = (if v = needle then True else contains vs needle)"

text \<open>The scope tests of one rule, the registration of the event as a source, and the search for a source
  that suppresses it: the body of the loop of \<^verbatim>\<open>Decide\<close>.\<close>

definition out_of_scope :: "CompiledRule \<Rightarrow> AlertCurEvent \<Rightarrow> bool" where
  "out_of_scope r event \<longleftrightarrow>
     (case ir_DatasourceIdsJson (cr_Rule r) of
        [] \<Rightarrow> False
      | d # _ \<Rightarrow> d \<noteq> 0 \<and> ev_DatasourceId event \<noteq> 0
          \<and> \<not> contains (ir_DatasourceIdsJson (cr_Rule r)) (ev_DatasourceId event))
     \<or> ir_GroupId (cr_Rule r) \<noteq> 0 \<and> ir_GroupId (cr_Rule r) \<noteq> ev_GroupId event"

definition register_step :: "int \<Rightarrow> AlertCurEvent \<Rightarrow> CompiledRule \<Rightarrow> RootCauseIndex \<times> Decision \<Rightarrow> RootCauseIndex \<times> Decision" where
  "register_step now event r st =
     (let (idx, out) = st in
      if suppress_matchAllTagFilters (ev_TagsMap event) (cr_SourceMatch r) then
        (RegisterFull now idx (ir_Id (cr_Rule r)) (ev_Hash event)
           (extractEqualValues (ev_TagsMap event) (cr_EqualLabels r)) (ev_RuleName event) (ev_Tags event)
           (ev_Severity event) (ev_GroupId event) (ev_DatasourceId event),
         out\<lparr>dc_NewRegistrations := dc_NewRegistrations out @ [(ir_Id (cr_Rule r), ev_Hash event)]\<rparr>)
      else (idx, out))"

definition target_step :: "entry_order \<Rightarrow> int \<Rightarrow> AlertCurEvent \<Rightarrow> CompiledRule \<Rightarrow> RootCauseIndex \<times> Decision \<Rightarrow> RootCauseIndex \<times> Decision" where
  "target_step ord now event r st =
     (let (idx, out) = st in
      if dc_Suppressed out then (idx, out)
      else if \<not> suppress_matchAllTagFilters (ev_TagsMap event) (cr_TargetMatch r) then (idx, out)
      else case MatchAnyFull ord now idx (ir_Id (cr_Rule r)) (extractEqualValues (ev_TagsMap event) (cr_EqualLabels r)) of
        None \<Rightarrow> (idx, out)
      | Some snap \<Rightarrow>
          if ss_EventHash snap = ev_Hash event then (idx, out)
          else (idx, out\<lparr>dc_Suppressed := True, dc_BySourceHash := ss_EventHash snap,
            dc_ByRuleId := ir_Id (cr_Rule r), dc_ByRuleName := ir_Name (cr_Rule r), dc_BySource := snap\<rparr>))"

definition decide_rule :: "entry_order \<Rightarrow> int \<Rightarrow> AlertCurEvent \<Rightarrow> CompiledRule \<Rightarrow> RootCauseIndex \<times> Decision \<Rightarrow> RootCauseIndex \<times> Decision" where
  "decide_rule ord now event r st =
     (if out_of_scope r event then st else target_step ord now event r (register_step now event r st))"

fun decide_loop :: "(nat \<Rightarrow> entry_order) \<Rightarrow> int \<Rightarrow> AlertCurEvent \<Rightarrow> nat \<Rightarrow> CompiledRule list \<Rightarrow> RootCauseIndex \<times> Decision \<Rightarrow> RootCauseIndex \<times> Decision" where
  "decide_loop ords now event n [] st = st"
| "decide_loop ords now event n (r # rs) st = decide_loop ords now event (Suc n) rs (decide_rule (ords n) now event r st)"

definition Decide :: "(nat \<Rightarrow> entry_order) \<Rightarrow> int \<Rightarrow> CompiledRule list \<Rightarrow> RootCauseIndex \<Rightarrow> AlertCurEvent option \<Rightarrow> RootCauseIndex \<times> Decision" where
  "Decide ords now rules idx event =
     (case event of
        None \<Rightarrow> (idx, zero_decision)
      | Some ev \<Rightarrow> decide_loop ords now ev 0 rules (idx, zero_decision))"

section \<open>The hook\<close>

record SuppressionRecord =
  sr_RuleId :: int
  sr_RuleName :: string
  sr_SourceEventHash :: string
  sr_TargetEventHash :: string
  sr_SourceRuleName :: string
  sr_TargetRuleName :: string
  sr_SourceTags :: string
  sr_TargetTags :: string
  sr_SourceSeverity :: int
  sr_TargetSeverity :: int
  sr_GroupId :: int
  sr_DatasourceId :: int
  sr_SuppressedAt :: int

type_synonym 's RecordSink = "SuppressionRecord \<Rightarrow> 's \<Rightarrow> 's"

definition noopRecordSink :: "'s RecordSink" where
  "noopRecordSink rec s = s"

record 's suppress_HookAdapter =
  sh_rules :: "CompiledRule list"
  sh_previous :: "(RootCauseIndex \<times> 's) EventMuteHookFunc"
  sh_sink :: "'s RecordSink"

definition suppress_NewHookAdapter ::
  "CompiledRule list \<Rightarrow> (RootCauseIndex \<times> 's) EventMuteHookFunc option \<Rightarrow> 's suppress_HookAdapter" where
  "suppress_NewHookAdapter rules prev =
     \<lparr>sh_rules = rules, sh_previous = (case prev of None \<Rightarrow> (\<lambda>event s. (False, s)) | Some p \<Rightarrow> p),
      sh_sink = noopRecordSink\<rparr>"

definition SetRecordSink :: "'s suppress_HookAdapter \<Rightarrow> 's RecordSink option \<Rightarrow> 's suppress_HookAdapter" where
  "SetRecordSink h s = (case s of None \<Rightarrow> h | Some snk \<Rightarrow> h\<lparr>sh_sink := snk\<rparr>)"

definition suppression_record :: "AlertCurEvent \<Rightarrow> Decision \<Rightarrow> SuppressionRecord" where
  "suppression_record event decision =
     \<lparr>sr_RuleId = dc_ByRuleId decision, sr_RuleName = dc_ByRuleName decision,
      sr_SourceEventHash = dc_BySourceHash decision, sr_TargetEventHash = ev_Hash event,
      sr_SourceRuleName = ss_RuleName (dc_BySource decision), sr_TargetRuleName = ev_RuleName event,
      sr_SourceTags = ss_TagsCSV (dc_BySource decision), sr_TargetTags = ev_Tags event,
      sr_SourceSeverity = ss_Severity (dc_BySource decision), sr_TargetSeverity = ev_Severity event,
      sr_GroupId = ev_GroupId event, sr_DatasourceId = ev_DatasourceId event, sr_SuppressedAt = 0\<rparr>"

definition suppress_Hook ::
  "(nat \<Rightarrow> entry_order) \<Rightarrow> int \<Rightarrow> 's suppress_HookAdapter \<Rightarrow> (RootCauseIndex \<times> 's) EventMuteHookFunc" where
  "suppress_Hook ords now h event s =
     (case event of
        None \<Rightarrow> (False, s)
      | Some ev \<Rightarrow>
          (let (idx', decision) = Decide ords now (sh_rules h) (fst s) event in
           if dc_Suppressed decision
           then (True, (idx', sh_sink h (suppression_record ev decision) (snd s)))
           else sh_previous h event (idx', snd s)))"

section \<open>The laws of the index\<close>

lemma forget_event_loop_get:
  "mget (forget_event_loop h ks m) k = (if k \<in> set ks \<and> snd k = h then None else mget m k)"
  by (induction ks arbitrary: m) auto

lemma ForgetEvent_get:
  "mget (rci_entries (ForgetEvent idx h)) k = (if snd k = h then None else mget (rci_entries idx) k)"
  using map_of_eq_None_iff [of "rci_entries idx" k]
  by (auto simp: ForgetEvent_def forget_event_loop_get)

lemma sweep_loop_get:
  "mwf m \<Longrightarrow> set es \<subseteq> set m \<Longrightarrow>
   mget (fst (sweep_loop now es m' n)) k = (if (\<exists>e. (k, e) \<in> set es \<and> rc_expired now e) then None else mget m' k)"
  by (induction es arbitrary: m' n) auto

lemma sweep_loop_mwf: "mwf m \<Longrightarrow> mwf (fst (sweep_loop now es m n))"
  by (induction es arbitrary: m n) auto

lemma rci_Sweep_fst: "fst (rci_Sweep now idx) = idx\<lparr>rci_entries := fst (sweep_loop now (rci_entries idx) (rci_entries idx) 0)\<rparr>"
  by (simp add: rci_Sweep_def split: prod.splits)

lemma rci_Sweep_get:
  assumes "mwf (rci_entries idx)"
  shows "mget (rci_entries (fst (rci_Sweep now idx))) k =
    (case mget (rci_entries idx) k of None \<Rightarrow> None | Some e \<Rightarrow> if rc_expired now e then None else Some e)"
proof -
  have "mget (rci_entries (fst (rci_Sweep now idx))) k =
      (if (\<exists>e. (k, e) \<in> set (rci_entries idx) \<and> rc_expired now e) then None else mget (rci_entries idx) k)"
    using sweep_loop_get [OF assms subset_refl] by (simp add: rci_Sweep_fst)
  with assms show ?thesis by (auto simp: mget_iff_mem [symmetric] split: option.splits)
qed

text \<open>What a reader sees of the index at time \<open>now\<close>: the entry under a key, without its expiry.\<close>

type_synonym cause = "tags \<times> string \<times> string \<times> int \<times> int \<times> int"

definition live_cause :: "int \<Rightarrow> matchKey \<Rightarrow> RootCauseIndex \<Rightarrow> cause option" where
  "live_cause now k idx =
     (case mget (rci_entries idx) k of
        None \<Rightarrow> None
      | Some e \<Rightarrow> if rc_expired now e then None
          else Some (rc_equalLabelValues e, rc_ruleName e, rc_tagsCSV e, rc_severity e, rc_groupId e, rc_datasourceId e))"

definition put_cause :: "int \<Rightarrow> matchKey \<Rightarrow> cause \<Rightarrow> RootCauseIndex \<Rightarrow> RootCauseIndex" where
  "put_cause now k c idx =
     (case k of (r, h) \<Rightarrow> case c of (vs, n, t, s, g, d) \<Rightarrow> RegisterFull now idx r h vs n t s g d)"

definition rci_inv :: "int \<Rightarrow> RootCauseIndex \<Rightarrow> bool" where
  "rci_inv ttl idx \<longleftrightarrow> mwf (rci_entries idx) \<and> rci_defaultTTL idx = ttl \<and> 0 < ttl"

lemmas cause_defs = live_cause_def put_cause_def rci_inv_def RegisterFull_def rci_Forget_def rc_expired_def

interpretation causes: ttl_index "rci_inv ttl" ttl live_cause put_cause
  "\<lambda>k idx. rci_Forget idx (fst k) (snd k)" "\<lambda>t idx. fst (rci_Sweep t idx)"
proof (unfold_locales, goal_cases)
  case (3 i t)
  then show ?case by (simp add: rci_inv_def rci_Sweep_fst sweep_loop_mwf)
next
  case (7 i t now k)
  then show ?case by (auto simp: live_cause_def rci_inv_def rci_Sweep_get rc_expired_def split: option.splits)
qed (auto simp: cause_defs split: prod.splits)

text \<open>A registered root cause stays in force for its time to live and no longer. Whatever is
  registered or forgotten under other keys, and whatever is swept, until \<open>now\<close>, a lookup finds it up to
  and including \<open>t + ttl\<close> and never afterwards.\<close>

theorem root_cause_ttl:
  assumes "mwf (rci_entries idx)" "rci_defaultTTL idx = ttl" "0 < ttl" "0 \<le> t"
    and "\<forall>op \<in> set ops. spares (r, h) now op"
  shows "live_cause now (r, h) (run_ops put_cause (\<lambda>k i. rci_Forget i (fst k) (snd k)) (\<lambda>u i. fst (rci_Sweep u i)) ops
      (RegisterFull t idx r h vs n tg s g d)) = (if now \<le> t + ttl then Some (vs, n, tg, s, g, d) else None)"
  using causes.run_put [of ttl idx t ops "(r, h)" now "(vs, n, tg, s, g, d)"] assms
  by (simp add: rci_inv_def put_cause_def)

theorem root_cause_ttl_witness:
  "live_cause 700 (1, ''a'') (run_ops put_cause (\<lambda>k i. rci_Forget i (fst k) (snd k)) (\<lambda>u i. fst (rci_Sweep u i))
     [Put 200 (1, ''b'') ([], [], [], 0, 0, 0), Forget (2, ''a''), Sweep 650]
     (RegisterFull 100 (NewRootCauseIndex 600) 1 ''a'' [] [] [] 0 0 0)) = Some ([], [], [], 0, 0, 0)"
  using root_cause_ttl [of "NewRootCauseIndex 600" 600 100
      "[Put 200 (1, ''b'') ([], [], [], 0, 0, 0), Forget (2, ''a''), Sweep 650]" 1 "''a''" 700]
  by (simp add: NewRootCauseIndex_def)

section \<open>Equal labels\<close>

lemma equal_values_loop_iff: "equal_values_loop source target \<longleftrightarrow> (\<forall>(k, v) \<in> set source. mget target k = Some v)"
  by (induction source target rule: equal_values_loop.induct) (auto split: option.splits)

lemma equalValuesMatch_iff: "mwf source \<Longrightarrow> equalValuesMatch source target \<longleftrightarrow> (\<forall>k v. mget source k = Some v \<longrightarrow> mget target k = Some v)"
  by (auto simp: equalValuesMatch_def equal_values_loop_iff mget_iff_mem)

lemma extract_loop_get:
  "mget (extract_loop tags ks out) k = (if k \<in> set ks \<and> mget tags k \<noteq> None then mget tags k else mget out k)"
  by (induction ks arbitrary: out) (auto split: option.splits)

lemma extract_loop_mwf: "mwf out \<Longrightarrow> mwf (extract_loop tags ks out)"
  by (induction ks arbitrary: out) (auto split: option.splits)

lemma extractEqualValues_get:
  "mget (extractEqualValues tags ks) k = (if k \<in> set ks then mget tags k else None)"
  by (simp add: extractEqualValues_def extract_loop_get)

lemma extractEqualValues_mwf [simp]: "mwf (extractEqualValues tags ks)"
  by (simp add: extractEqualValues_def extract_loop_mwf)

text \<open>What \<^verbatim>\<open>EqualLabels\<close> means: source and target agree on every listed label the source carries. A
  listed label that only the target carries is not compared, so a source that carries none of them
  matches every target, as with an empty list.\<close>

theorem equal_labels_meaning:
  "equalValuesMatch (extractEqualValues src labels) (extractEqualValues tgt labels) \<longleftrightarrow>
     (\<forall>l \<in> set labels. mget src l = None \<or> mget tgt l = mget src l)"
proof -
  have "mget src l = None \<or> mget tgt l = mget src l \<longleftrightarrow> (\<forall>v. mget src l = Some v \<longrightarrow> mget tgt l = Some v)" for l
    by (cases "mget src l") auto
  then show ?thesis by (auto simp: equalValuesMatch_iff extractEqualValues_get)
qed

theorem equal_labels_meaning_witness:
  "equalValuesMatch (extractEqualValues [] [''host'']) (extractEqualValues [(''host'', ''db01'')] [''host''])
   \<and> \<not> equalValuesMatch (extractEqualValues [(''host'', ''db01'')] [''host'']) (extractEqualValues [] [''host''])"
  by (simp add: equal_labels_meaning)

section \<open>Decisions\<close>

definition sources :: "int \<Rightarrow> RootCauseIndex \<Rightarrow> int \<Rightarrow> tags \<Rightarrow> string set" where
  "sources now idx ruleId target =
     {h. \<exists>e. mget (rci_entries idx) (ruleId, h) = Some e \<and> \<not> rc_expired now e \<and> equalValuesMatch (rc_equalLabelValues e) target}"

lemma match_loop_Some:
  "match_loop now r tv es = Some snap \<Longrightarrow>
   \<exists>e. ((r, ss_EventHash snap), e) \<in> set es \<and> \<not> rc_expired now e \<and> equalValuesMatch (rc_equalLabelValues e) tv"
  by (induction now r tv es rule: match_loop.induct) (fastforce split: if_splits)+

lemma match_loop_None:
  "match_loop now r tv es = None \<Longrightarrow> ((r, h), e) \<in> set es \<Longrightarrow> \<not> rc_expired now e \<Longrightarrow>
   \<not> equalValuesMatch (rc_equalLabelValues e) tv"
  by (induction now r tv es rule: match_loop.induct) (auto split: if_splits)

lemma MatchAnyFull_Some:
  "range_order ord \<Longrightarrow> mwf (rci_entries idx) \<Longrightarrow> MatchAnyFull ord now idx r tv = Some snap \<Longrightarrow>
   ss_EventHash snap \<in> sources now idx r tv"
  using match_loop_Some [of now r tv "ord (rci_entries idx)" snap]
  by (simp add: MatchAnyFull_def sources_def range_order_set mget_iff_mem)

lemma MatchAnyFull_None:
  "range_order ord \<Longrightarrow> mwf (rci_entries idx) \<Longrightarrow> MatchAnyFull ord now idx r tv = None \<Longrightarrow> sources now idx r tv = {}"
  using match_loop_None [of now r tv "ord (rci_entries idx)"]
  by (auto simp: MatchAnyFull_def sources_def range_order_set mget_iff_mem)

lemmas step_defs = decide_rule_def register_step_def target_step_def RegisterFull_def Let_def

text \<open>A decision writes only under the hash of the event.\<close>

lemma decide_rule_frame:
  "h \<noteq> ev_Hash ev \<Longrightarrow> mget (rci_entries (fst (decide_rule ord now ev r st))) (i, h) = mget (rci_entries (fst st)) (i, h)"
  by (cases st) (simp add: step_defs split: option.split)

lemma decide_rule_mwf: "mwf (rci_entries (fst st)) \<Longrightarrow> mwf (rci_entries (fst (decide_rule ord now ev r st)))"
  by (cases st) (simp add: step_defs split: option.split)

lemma decide_rule_other_rule:
  "i \<noteq> ir_Id (cr_Rule r) \<or> \<not> suppress_matchAllTagFilters (ev_TagsMap ev) (cr_SourceMatch r) \<Longrightarrow>
   mget (rci_entries (fst (decide_rule ord now ev r st))) (i, h) = mget (rci_entries (fst st)) (i, h)"
  by (cases st) (auto simp: step_defs split: option.split)

text \<open>The source \<open>h\<close> suppresses the event by rule \<open>r\<close>.\<close>

definition inhibits :: "int \<Rightarrow> RootCauseIndex \<Rightarrow> AlertCurEvent \<Rightarrow> CompiledRule \<Rightarrow> string \<Rightarrow> bool" where
  "inhibits now idx ev r h \<longleftrightarrow> \<not> out_of_scope r ev
     \<and> suppress_matchAllTagFilters (ev_TagsMap ev) (cr_TargetMatch r) \<and> h \<noteq> ev_Hash ev
     \<and> h \<in> sources now idx (ir_Id (cr_Rule r)) (extractEqualValues (ev_TagsMap ev) (cr_EqualLabels r))"

lemma inhibits_frame:
  "inhibits now (fst (decide_rule ord now ev r st)) ev r' h \<longleftrightarrow> inhibits now (fst st) ev r' h"
  by (auto simp: inhibits_def sources_def decide_rule_frame)

lemma decide_rule_sound:
  assumes "range_order ord" "mwf (rci_entries (fst st))" "\<not> dc_Suppressed (snd st)"
    and "dc_Suppressed (snd (decide_rule ord now ev r st))"
  shows "inhibits now (fst st) ev r (dc_BySourceHash (snd (decide_rule ord now ev r st)))
    \<and> dc_ByRuleId (snd (decide_rule ord now ev r st)) = ir_Id (cr_Rule r)"
proof -
  let ?st = "register_step now ev r st"
  let ?tv = "extractEqualValues (ev_TagsMap ev) (cr_EqualLabels r)"
  have wf: "mwf (rci_entries (fst ?st))" and ns: "\<not> dc_Suppressed (snd ?st)"
    using assms(2,3) by (cases st; simp add: register_step_def RegisterFull_def)+
  have fr: "h \<noteq> ev_Hash ev \<Longrightarrow> mget (rci_entries (fst ?st)) (i, h) = mget (rci_entries (fst st)) (i, h)" for i h
    by (cases st) (simp add: register_step_def RegisterFull_def)
  from assms(3,4) ns obtain snap where sc: "\<not> out_of_scope r ev"
      and tm: "suppress_matchAllTagFilters (ev_TagsMap ev) (cr_TargetMatch r)"
      and m: "MatchAnyFull ord now (fst ?st) (ir_Id (cr_Rule r)) ?tv = Some snap"
      and ne: "ss_EventHash snap \<noteq> ev_Hash ev"
      and res: "snd (decide_rule ord now ev r st) = (snd ?st)\<lparr>dc_Suppressed := True, dc_BySourceHash := ss_EventHash snap,
            dc_ByRuleId := ir_Id (cr_Rule r), dc_ByRuleName := ir_Name (cr_Rule r), dc_BySource := snap\<rparr>"
    by (auto simp: decide_rule_def target_step_def split: if_splits prod.splits option.splits)
  from MatchAnyFull_Some [OF assms(1) wf m] ne have "ss_EventHash snap \<in> sources now (fst st) (ir_Id (cr_Rule r)) ?tv"
    by (simp add: sources_def fr)
  with sc tm ne res show ?thesis by (simp add: inhibits_def)
qed

lemma decide_rule_keeps: "dc_Suppressed (snd st) \<Longrightarrow>
    dc_Suppressed (snd (decide_rule ord now ev r st))
    \<and> dc_BySourceHash (snd (decide_rule ord now ev r st)) = dc_BySourceHash (snd st)
    \<and> dc_ByRuleId (snd (decide_rule ord now ev r st)) = dc_ByRuleId (snd st)"
  by (cases st) (simp add: step_defs)

lemma decide_loop_keeps: "dc_Suppressed (snd st) \<Longrightarrow>
    dc_Suppressed (snd (decide_loop ords now ev n rs st))
    \<and> dc_BySourceHash (snd (decide_loop ords now ev n rs st)) = dc_BySourceHash (snd st)
    \<and> dc_ByRuleId (snd (decide_loop ords now ev n rs st)) = dc_ByRuleId (snd st)"
  by (induction rs arbitrary: n st) (simp_all add: decide_rule_keeps)

lemma decide_loop_sound:
  assumes "\<forall>i. range_order (ords i)" "mwf (rci_entries (fst st))" "\<not> dc_Suppressed (snd st)"
    and "dc_Suppressed (snd (decide_loop ords now ev n rs st))"
  shows "\<exists>r \<in> set rs. inhibits now (fst st) ev r (dc_BySourceHash (snd (decide_loop ords now ev n rs st)))
    \<and> dc_ByRuleId (snd (decide_loop ords now ev n rs st)) = ir_Id (cr_Rule r)"
  using assms
proof (induction rs arbitrary: n st)
  case (Cons r rs)
  let ?st = "decide_rule (ords n) now ev r st"
  show ?case
  proof (cases "dc_Suppressed (snd ?st)")
    case True
    with Cons.prems decide_rule_sound [of "ords n" st now ev r] decide_loop_keeps [OF True, of ords now ev "Suc n" rs]
    show ?thesis by auto
  next
    case False
    with Cons.prems Cons.IH [of ?st "Suc n"] show ?thesis by (auto simp: decide_rule_mwf inhibits_frame)
  qed
qed simp


definition host_rule :: CompiledRule where
  "host_rule = \<lparr>cr_Rule = \<lparr>ir_Id = 1, ir_GroupId = 0, ir_Name = ''host down'', ir_Note = [], ir_SourceMatch = [],
      ir_TargetMatch = [], ir_EqualLabels = [], ir_EqualLabelsJson = [], ir_DatasourceIds = [],
      ir_DatasourceIdsJson = [], ir_Disabled = 0, ir_CreateBy = [], ir_UpdateBy = [], ir_CreateAt = 0, ir_UpdateAt = 0\<rparr>,
    cr_SourceMatch = [raw_filter ''kind'' ''=='' (VString ''host'')],
    cr_TargetMatch = [raw_filter ''env'' ''=='' (VString ''prod'')], cr_EqualLabels = [''host'']\<rparr>"

definition host_event :: "string \<Rightarrow> string \<Rightarrow> AlertCurEvent" where
  "host_event h kind = zero_event\<lparr>ev_Hash := h,
     ev_TagsMap := [(''kind'', kind), (''env'', ''prod''), (''host'', ''db01'')]\<rparr>"

definition host_index :: RootCauseIndex where
  "host_index = Register 100 (NewRootCauseIndex 600) 1 ''a'' [(''host'', ''db01'')]"

lemmas host_defs = host_rule_def host_event_def host_index_def Decide_def zero_decision_def step_defs Register_def
  NewRootCauseIndex_def MatchAnyFull_def rc_expired_def out_of_scope_def suppress_matchSingleTagFilter_def raw_filter_def
  extractEqualValues_def equalValuesMatch_def mput_def


lemma decide_rule_complete:
  assumes "range_order ord" "mwf (rci_entries (fst st))" "inhibits now (fst st) ev r h"
    and "ev_Hash ev \<notin> sources now (fst st) (ir_Id (cr_Rule r)) (extractEqualValues (ev_TagsMap ev) (cr_EqualLabels r))"
    and "\<not> suppress_matchAllTagFilters (ev_TagsMap ev) (cr_SourceMatch r)"
  shows "dc_Suppressed (snd (decide_rule ord now ev r st))"
proof (rule ccontr)
  assume n: "\<not> dc_Suppressed (snd (decide_rule ord now ev r st))"
  let ?tv = "extractEqualValues (ev_TagsMap ev) (cr_EqualLabels r)"
  have "register_step now ev r st = st" using assms(5) by (cases st) (simp add: register_step_def)
  with n assms(3) have c: "case MatchAnyFull ord now (fst st) (ir_Id (cr_Rule r)) ?tv of
      None \<Rightarrow> True | Some snap \<Rightarrow> ss_EventHash snap = ev_Hash ev"
    by (cases st) (auto simp: decide_rule_def target_step_def inhibits_def split: if_splits option.splits)
  show False
  proof (cases "MatchAnyFull ord now (fst st) (ir_Id (cr_Rule r)) ?tv")
    case None
    with MatchAnyFull_None [OF assms(1,2)] assms(3) show False by (auto simp: inhibits_def)
  next
    case (Some snap)
    with MatchAnyFull_Some [OF assms(1,2) Some] assms(4) c show False by simp
  qed
qed

lemma decide_loop_complete:
  assumes "\<forall>i. range_order (ords i)" "mwf (rci_entries (fst st))" "r \<in> set rs" "inhibits now (fst st) ev r h"
    and "ev_Hash ev \<notin> sources now (fst st) (ir_Id (cr_Rule r)) (extractEqualValues (ev_TagsMap ev) (cr_EqualLabels r))"
    and "\<forall>r' \<in> set rs. ir_Id (cr_Rule r') = ir_Id (cr_Rule r) \<longrightarrow>
      \<not> suppress_matchAllTagFilters (ev_TagsMap ev) (cr_SourceMatch r')"
  shows "dc_Suppressed (snd (decide_loop ords now ev n rs st))"
  using assms
proof (induction rs arbitrary: n st)
  case (Cons q rs)
  let ?st = "decide_rule (ords n) now ev q st"
  show ?case
  proof (cases "dc_Suppressed (snd ?st)")
    case True
    then show ?thesis using decide_loop_keeps [OF True] by simp
  next
    case False
    with Cons.prems decide_rule_complete [of "ords n" st now ev q h] have "r \<in> set rs" by auto
    moreover have "mget (rci_entries (fst ?st)) (ir_Id (cr_Rule r), g) = mget (rci_entries (fst st)) (ir_Id (cr_Rule r), g)" for g
      using Cons.prems(6) by (intro decide_rule_other_rule) auto
    ultimately show ?thesis
      using Cons.prems Cons.IH [of ?st "Suc n"] by (auto simp: decide_rule_mwf inhibits_frame sources_def)
  qed
qed simp



text \<open>For an event that matches both sides of a rule the verdict depends on the iteration order of the
  index: with another live source present, visiting that one first suppresses the event, and visiting
  the event's own entry first lets it through, since the loop then gives up on the rule.\<close>

theorem Decide_order_dependent:
  "dc_Suppressed (snd (Decide (\<lambda>_ es. es) 200 [host_rule] host_index (Some (host_event ''b'' ''host''))))
   \<and> \<not> dc_Suppressed (snd (Decide (\<lambda>_. rev) 200 [host_rule] host_index (Some (host_event ''b'' ''host''))))
   \<and> range_order (\<lambda>es :: (matchKey \<times> rootCauseEntry) list. es) \<and> range_order (rev :: entry_order)"
  by (simp add: host_defs)

section \<open>Registration\<close>

definition is_source :: "AlertCurEvent \<Rightarrow> CompiledRule \<Rightarrow> bool" where
  "is_source ev r \<longleftrightarrow> \<not> out_of_scope r ev \<and> suppress_matchAllTagFilters (ev_TagsMap ev) (cr_SourceMatch r)"

lemma decide_rule_regs:
  "dc_NewRegistrations (snd (decide_rule ord now ev r st)) =
     dc_NewRegistrations (snd st) @ (if is_source ev r then [(ir_Id (cr_Rule r), ev_Hash ev)] else [])"
  by (cases st) (simp add: step_defs is_source_def split: option.split)

lemma decide_loop_regs:
  "dc_NewRegistrations (snd (decide_loop ords now ev n rs st)) =
     dc_NewRegistrations (snd st) @ map (\<lambda>r. (ir_Id (cr_Rule r), ev_Hash ev)) (filter (is_source ev) rs)"
  by (induction rs arbitrary: n st) (simp_all add: decide_rule_regs)

lemma decide_rule_ttl: "rci_defaultTTL (fst (decide_rule ord now ev r st)) = rci_defaultTTL (fst st)"
  by (cases st) (simp add: step_defs split: option.split)

definition is_live :: "int \<Rightarrow> matchKey \<Rightarrow> RootCauseIndex \<Rightarrow> bool" where
  "is_live now k idx \<longleftrightarrow> (case mget (rci_entries idx) k of None \<Rightarrow> False | Some e \<Rightarrow> \<not> rc_expired now e)"

lemma is_live_cause: "is_live now k idx \<longleftrightarrow> live_cause now k idx \<noteq> None"
  by (simp add: is_live_def live_cause_def split: option.split)

lemma decide_rule_live:
  assumes "0 < rci_defaultTTL (fst st)" "0 \<le> now" "u \<le> now + rci_defaultTTL (fst st)"
    and "is_source ev r \<and> k = (ir_Id (cr_Rule r), ev_Hash ev) \<or> is_live u k (fst st)"
  shows "is_live u k (fst (decide_rule ord now ev r st))"
proof -
  have "is_live u k (fst (register_step now ev r st))" if "\<not> out_of_scope r ev"
    using assms that by (cases st) (auto simp: is_live_def register_step_def RegisterFull_def is_source_def rc_expired_def)
  moreover have "fst (target_step ord now ev r st') = fst st'" for st'
    by (cases st') (simp add: target_step_def split: option.split)
  ultimately show ?thesis using assms(4) by (auto simp: decide_rule_def is_source_def)
qed

lemma decide_loop_live:
  assumes "0 < rci_defaultTTL (fst st)" "0 \<le> now" "u \<le> now + rci_defaultTTL (fst st)"
    and "(\<exists>r \<in> set rs. is_source ev r \<and> k = (ir_Id (cr_Rule r), ev_Hash ev)) \<or> is_live u k (fst st)"
  shows "is_live u k (fst (decide_loop ords now ev n rs st))"
  using assms
proof (induction rs arbitrary: n st)
  case (Cons r rs)
  let ?st = "decide_rule (ords n) now ev r st"
  have "(\<exists>r \<in> set rs. is_source ev r \<and> k = (ir_Id (cr_Rule r), ev_Hash ev)) \<or> is_live u k (fst ?st)"
    using Cons.prems decide_rule_live [of st now u ev r k "ords n"] by auto
  then show ?case using Cons.prems Cons.IH [of ?st "Suc n"] by (simp add: decide_rule_ttl)
qed simp

text \<open>Registration does not depend on the verdict. Every rule in scope whose source side the event matches
  is listed, once and in order, and the event is a live root cause under each of them for the whole
  time to live, whether or not the event itself was suppressed.\<close>

theorem Decide_registers:
  assumes "0 < rci_defaultTTL idx" "0 \<le> now" "u \<le> now + rci_defaultTTL idx"
  shows "dc_NewRegistrations (snd (Decide ords now rules idx (Some ev))) =
      map (\<lambda>r. (ir_Id (cr_Rule r), ev_Hash ev)) (filter (is_source ev) rules)
    \<and> (\<forall>k \<in> set (dc_NewRegistrations (snd (Decide ords now rules idx (Some ev)))).
        is_live u k (fst (Decide ords now rules idx (Some ev))))"
proof -
  have regs: "dc_NewRegistrations (snd (Decide ords now rules idx (Some ev))) =
      map (\<lambda>r. (ir_Id (cr_Rule r), ev_Hash ev)) (filter (is_source ev) rules)"
    by (simp add: Decide_def decide_loop_regs zero_decision_def)
  have "is_live u k (fst (Decide ords now rules idx (Some ev)))"
    if "k \<in> set (map (\<lambda>r. (ir_Id (cr_Rule r), ev_Hash ev)) (filter (is_source ev) rules))" for k
    using decide_loop_live [of "(idx, zero_decision)" now u rules ev k ords 0] assms that by (auto simp: Decide_def)
  with regs show ?thesis by simp
qed

theorem Decide_registers_witness:
  "dc_NewRegistrations (snd (Decide (\<lambda>_ es. es) 200 [host_rule] host_index (Some (host_event ''b'' ''host'')))) = [(1, ''b'')]
   \<and> is_live 800 (1, ''b'') (fst (Decide (\<lambda>_ es. es) 200 [host_rule] host_index (Some (host_event ''b'' ''host''))))"
proof -
  have "filter (is_source (host_event ''b'' ''host'')) [host_rule] = [host_rule]"
    by (simp add: is_source_def host_defs)
  moreover have "ir_Id (cr_Rule host_rule) = 1" "ev_Hash (host_event ''b'' ''host'') = ''b''" "rci_defaultTTL host_index = 600"
    by (simp_all add: host_defs)
  ultimately show ?thesis
    using Decide_registers [of host_index 200 800 "\<lambda>_ es. es" "[host_rule]" "host_event ''b'' ''host''"] by simp
qed

end
