(* ===== verification/Suppress_Record.thy ===== *)
theory Suppress_Record
  imports Suppress
begin

text \<open>
  The audit sink of suppressed events (\<^verbatim>\<open>internal/custom/suppressrec/sink.go\<close>, \<^verbatim>\<open>internal/custom/models/custom_suppressed_event.go\<close>): the
  suppression hook offers a record without blocking, a worker takes the records from a channel and writes them in
  batches. The hook and the worker run concurrently, so that the sink is a transition system: a step is a call of
  \<^verbatim>\<open>RecordSuppression\<close> or one round of the worker's \<^verbatim>\<open>select\<close>, in any order.

  The INSERT statements of the worker, with their outcome, are recorded in \<open>sk_log\<close>; a batch is never larger than the
  batch size (this is part of the invariant), so that \<^verbatim>\<open>CreateInBatches\<close> is one statement, which succeeds or fails as a whole.
  Whether it succeeds is the argument of a step. The ticker is a step that may happen at any time.
\<close>

section \<open>The sink\<close>

record CustomSuppressedEvent =
  se_Id :: int
  se_RuleId :: int
  se_RuleName :: string
  se_SourceEventHash :: string
  se_TargetEventHash :: string
  se_SourceRuleName :: string
  se_TargetRuleName :: string
  se_SourceTags :: string
  se_TargetTags :: string
  se_SourceSeverity :: int
  se_TargetSeverity :: int
  se_GroupId :: int
  se_DatasourceId :: int
  se_SuppressedAt :: int

text \<open>The control state of the worker: in the loop, after \<^verbatim>\<open>ctx.Done\<close>, and returned.\<close>

datatype worker = Running | Draining | Stopped

record asyncSink =
  sk_ch :: "CustomSuppressedEvent list"
  sk_bufferSize :: nat
  sk_batchSize :: nat
  sk_flushPeriod :: int
  sk_dropped :: nat
  sk_flushed :: nat
  sk_buf :: "CustomSuppressedEvent list"
  sk_log :: "(bool \<times> CustomSuppressedEvent list) list"
  sk_worker :: worker

text \<open>\<^verbatim>\<open>NewAsyncSink\<close> and \<^verbatim>\<open>Start\<close>; the period is in nanoseconds.\<close>

definition NewAsyncSink :: "int \<Rightarrow> int \<Rightarrow> int \<Rightarrow> asyncSink" where
  "NewAsyncSink bufferSize batchSize flushPeriod =
     \<lparr>sk_ch = [], sk_bufferSize = nat (if bufferSize \<le> 0 then 4096 else bufferSize),
      sk_batchSize = nat (if batchSize \<le> 0 then 100 else batchSize),
      sk_flushPeriod = (if flushPeriod \<le> 0 then 1000000000 else flushPeriod),
      sk_dropped = 0, sk_flushed = 0, sk_buf = [], sk_log = [], sk_worker = Running\<rparr>"

definition toRow :: "SuppressionRecord \<Rightarrow> CustomSuppressedEvent" where
  "toRow r = \<lparr>se_Id = 0, se_RuleId = sr_RuleId r, se_RuleName = sr_RuleName r, se_SourceEventHash = sr_SourceEventHash r,
     se_TargetEventHash = sr_TargetEventHash r, se_SourceRuleName = sr_SourceRuleName r, se_TargetRuleName = sr_TargetRuleName r,
     se_SourceTags = sr_SourceTags r, se_TargetTags = sr_TargetTags r, se_SourceSeverity = sr_SourceSeverity r,
     se_TargetSeverity = sr_TargetSeverity r, se_GroupId = sr_GroupId r, se_DatasourceId = sr_DatasourceId r,
     se_SuppressedAt = sr_SuppressedAt r\<rparr>"

definition stamped_row :: "int \<Rightarrow> SuppressionRecord \<Rightarrow> CustomSuppressedEvent" where
  "stamped_row now r = (let row = toRow r in if se_SuppressedAt row = 0 then row\<lparr>se_SuppressedAt := now\<rparr> else row)"

definition RecordSuppression :: "int \<Rightarrow> SuppressionRecord option \<Rightarrow> asyncSink \<Rightarrow> asyncSink" where
  "RecordSuppression now rec s =
     (case rec of
        None \<Rightarrow> s
      | Some r \<Rightarrow> if length (sk_ch s) < sk_bufferSize s then s\<lparr>sk_ch := sk_ch s @ [stamped_row now r]\<rparr>
                  else s\<lparr>sk_dropped := sk_dropped s + 1\<rparr>)"

definition insertBatch :: "bool \<Rightarrow> CustomSuppressedEvent list \<Rightarrow> asyncSink \<Rightarrow> asyncSink" where
  "insertBatch ok batch s =
     (if length batch = 0 then s
      else let s1 = s\<lparr>sk_log := sk_log s @ [(ok, batch)]\<rparr>
           in if ok then s1\<lparr>sk_flushed := sk_flushed s1 + length batch\<rparr> else s1)"

definition flush :: "bool \<Rightarrow> asyncSink \<Rightarrow> asyncSink" where
  "flush ok s = (if length (sk_buf s) = 0 then s else insertBatch ok (sk_buf s) (s\<lparr>sk_buf := []\<rparr>))"

text \<open>A record is taken from the channel, which is not empty.\<close>

definition receive :: "bool \<Rightarrow> asyncSink \<Rightarrow> asyncSink" where
  "receive ok s =
     (case sk_ch s of
        [] \<Rightarrow> s
      | r # rs \<Rightarrow>
          (let s1 = s\<lparr>sk_ch := rs, sk_buf := sk_buf s @ [r]\<rparr>
           in if length (sk_buf s1) \<ge> sk_batchSize s1 then flush ok s1 else s1))"

datatype action = Offer int "SuppressionRecord option" | Take bool | Tick bool | Cancel | Drain bool | Finish bool

inductive sink_step :: "asyncSink \<Rightarrow> action \<Rightarrow> asyncSink \<Rightarrow> bool" where
  offer: "sink_step s (Offer now r) (RecordSuppression now r s)"
| take_one: "sk_worker s = Running \<Longrightarrow> sk_ch s \<noteq> [] \<Longrightarrow> sink_step s (Take ok) (receive ok s)"
| tick: "sk_worker s = Running \<Longrightarrow> sink_step s (Tick ok) (flush ok s)"
| cancel: "sk_worker s = Running \<Longrightarrow> sink_step s Cancel (s\<lparr>sk_worker := Draining\<rparr>)"
| drain: "sk_worker s = Draining \<Longrightarrow> sk_ch s \<noteq> [] \<Longrightarrow> sink_step s (Drain ok) (receive ok s)"
| finish: "sk_worker s = Draining \<Longrightarrow> sk_ch s = [] \<Longrightarrow> sink_step s (Finish ok) ((flush ok s)\<lparr>sk_worker := Stopped\<rparr>)"

inductive_cases sink_stepE: "sink_step s a t"

text \<open>The rows a step puts on the channel.\<close>

fun accepts :: "asyncSink \<Rightarrow> action \<Rightarrow> CustomSuppressedEvent list" where
  "accepts s (Offer now (Some r)) = (if length (sk_ch s) < sk_bufferSize s then [stamped_row now r] else [])"
| "accepts s _ = []"

inductive sink_run :: "asyncSink \<Rightarrow> action list \<Rightarrow> CustomSuppressedEvent list \<Rightarrow> asyncSink \<Rightarrow> bool" where
  start: "sink_run s [] [] s"
| step: "sink_run s as acc t \<Longrightarrow> sink_step t a u \<Longrightarrow> sink_run s (as @ [a]) (acc @ accepts t a) u"

fun offers :: "action \<Rightarrow> bool" where
  "offers (Offer now (Some r)) = True"
| "offers _ = False"

definition table_rows :: "asyncSink \<Rightarrow> CustomSuppressedEvent list" where
  "table_rows s = concat (map snd (filter fst (sk_log s)))"

section \<open>No record is lost on the way or written twice\<close>

definition sink_inv :: "asyncSink \<Rightarrow> bool" where
  "sink_inv s \<longleftrightarrow> length (sk_ch s) \<le> sk_bufferSize s \<and> length (sk_buf s) < sk_batchSize s \<and> sk_flushed s = length (table_rows s)
     \<and> (\<forall>(ok, batch) \<in> set (sk_log s). batch \<noteq> [] \<and> length batch \<le> sk_batchSize s) \<and> (sk_worker s = Stopped \<longrightarrow> sk_buf s = [])"

definition rows_of :: "asyncSink \<Rightarrow> CustomSuppressedEvent list" where
  "rows_of s = concat (map snd (sk_log s)) @ sk_buf s @ sk_ch s"

lemma flush_inv:
  assumes "length (sk_buf s) \<le> sk_batchSize s" "0 < sk_batchSize s" "sk_flushed s = length (table_rows s)" "length (sk_ch s) \<le> sk_bufferSize s"
    and "\<forall>(ok, batch) \<in> set (sk_log s). batch \<noteq> [] \<and> length batch \<le> sk_batchSize s"
  shows "sink_inv (flush ok s)" "rows_of (flush ok s) = rows_of s" "sk_buf (flush ok s) = []" "sk_worker (flush ok s) = sk_worker s"
    "sk_ch (flush ok s) = sk_ch s" "sk_dropped (flush ok s) = sk_dropped s"
  using assms by (auto simp: flush_def insertBatch_def sink_inv_def rows_of_def table_rows_def Let_def)

lemma receive_inv:
  assumes "sink_inv s" "sk_ch s = r # rs" "sk_worker s \<noteq> Stopped"
  shows "sink_inv (receive ok s) \<and> rows_of (receive ok s) = rows_of s \<and> sk_worker (receive ok s) = sk_worker s
    \<and> sk_ch (receive ok s) = rs \<and> sk_dropped (receive ok s) = sk_dropped s"
proof -
  define t where "t = s\<lparr>sk_ch := rs, sk_buf := sk_buf s @ [r]\<rparr>"
  have rows: "rows_of t = rows_of s" using assms(2) by (simp add: t_def rows_of_def)
  show ?thesis
  proof (cases "length (sk_buf t) \<ge> sk_batchSize t")
    case True
    then have run: "receive ok s = flush ok t" using assms(2) by (simp add: receive_def t_def)
    have "length (sk_buf t) \<le> sk_batchSize t" "0 < sk_batchSize t" "sk_flushed t = length (table_rows t)" "length (sk_ch t) \<le> sk_bufferSize t"
      "\<forall>(ok, batch) \<in> set (sk_log t). batch \<noteq> [] \<and> length batch \<le> sk_batchSize t"
      using assms(1,2) by (simp_all add: t_def sink_inv_def table_rows_def)
    from flush_inv [OF this, of ok] show ?thesis unfolding run using rows by (simp add: t_def)
  next
    case False
    then have run: "receive ok s = t" using assms(2) by (simp add: receive_def t_def)
    show ?thesis unfolding run using False assms rows by (auto simp: t_def sink_inv_def table_rows_def)
  qed
qed

lemma sink_step_inv:
  assumes "sink_step s a t" "sink_inv s"
  shows "sink_inv t \<and> rows_of t = rows_of s @ accepts s a
    \<and> sk_dropped t + length (accepts s a) = sk_dropped s + (if offers a then 1 else 0)"
  using assms(1)
proof cases
  case (offer now r)
  then show ?thesis using assms(2)
    by (cases r) (auto simp: RecordSuppression_def sink_inv_def rows_of_def table_rows_def)
next
  case (take_one ok)
  obtain r rs where ch: "sk_ch s = r # rs" using take_one(4) by (cases "sk_ch s") auto
  have "sk_worker s \<noteq> Stopped" using take_one(3) by simp
  with receive_inv [OF assms(2) ch, of ok] show ?thesis using take_one(1,2) by simp
next
  case (tick ok)
  then show ?thesis using assms(2) flush_inv [of s ok] by (simp add: sink_inv_def)
next
  case cancel
  then show ?thesis using assms(2) by (simp add: sink_inv_def rows_of_def table_rows_def)
next
  case (drain ok)
  obtain r rs where ch: "sk_ch s = r # rs" using drain(4) by (cases "sk_ch s") auto
  have "sk_worker s \<noteq> Stopped" using drain(3) by simp
  with receive_inv [OF assms(2) ch, of ok] show ?thesis using drain(1,2) by simp
next
  case (finish ok)
  have f: "sink_inv (flush ok s)" "rows_of (flush ok s) = rows_of s" "sk_buf (flush ok s) = []" "sk_dropped (flush ok s) = sk_dropped s"
    using assms(2) flush_inv [of s ok] by (simp_all add: sink_inv_def)
  then show ?thesis using finish by (simp add: sink_inv_def rows_of_def table_rows_def)
qed

lemma NewAsyncSink_inv: "sink_inv (NewAsyncSink b n f)" "rows_of (NewAsyncSink b n f) = []" "sk_dropped (NewAsyncSink b n f) = 0"
  by (auto simp: NewAsyncSink_def sink_inv_def rows_of_def table_rows_def)

lemma sink_run_inv:
  assumes "sink_run s as acc t" "sink_inv s"
  shows "sink_inv t \<and> rows_of t = rows_of s @ acc \<and> sk_dropped t + length acc = sk_dropped s + length (filter offers as)"
  using assms
proof (induction rule: sink_run.induct)
  case (step s as acc t a u)
  from step.IH [OF step.prems] have ih: "sink_inv t" "rows_of t = rows_of s @ acc"
    "sk_dropped t + length acc = sk_dropped s + length (filter offers as)" by blast+
  from sink_step_inv [OF step.hyps(2) ih(1)] ih(2,3) show ?case by auto
qed simp

text \<open>(C22) No accepted record is lost on the way, written twice or overtaken. In every run of the sink, with calls of the hook and rounds of
  the worker in any order, the accepted records are, in the order of their acceptance, those of the batches written so
  far, then those in the buffer of the worker, then those in the channel. Every record that was offered is accepted
  or counted as dropped, the counter of flushed records is the number of rows written, the channel and the batches keep
  their bounds, and a worker that stopped left no record in its buffer.\<close>

theorem sink_keeps_records:
  assumes "sink_run (NewAsyncSink bufferSize batchSize flushPeriod) as acc s"
  shows "acc = concat (map snd (sk_log s)) @ sk_buf s @ sk_ch s
    \<and> sk_dropped s + length acc = length (filter offers as)
    \<and> sk_flushed s = length (table_rows s)
    \<and> length (sk_ch s) \<le> sk_bufferSize s \<and> length (sk_buf s) < sk_batchSize s
    \<and> (\<forall>(ok, batch) \<in> set (sk_log s). batch \<noteq> [] \<and> length batch \<le> sk_batchSize s)
    \<and> (sk_worker s = Stopped \<longrightarrow> sk_buf s = [])"
  using sink_run_inv [OF assms NewAsyncSink_inv(1)] NewAsyncSink_inv(2,3) [of bufferSize batchSize flushPeriod]
  by (simp add: sink_inv_def rows_of_def)

section \<open>Stopping\<close>

fun is_offer :: "action \<Rightarrow> bool" where
  "is_offer (Offer now r) = True"
| "is_offer _ = False"

lemma draining_step:
  assumes "sink_step s a t" "sink_inv s" "sk_worker s = Draining" "\<not> is_offer a"
  shows "if sk_ch s = [] then sk_worker t = Stopped \<and> sk_ch t = [] else sk_worker t = Draining \<and> length (sk_ch t) + 1 = length (sk_ch s)"
  using assms(1)
proof cases
  case (drain ok)
  obtain r rs where ch: "sk_ch s = r # rs" using drain(4) by (cases "sk_ch s") auto
  from receive_inv [OF assms(2) ch, of ok] show ?thesis using drain ch by simp
next
  case (finish ok)
  then show ?thesis using assms(2) flush_inv [of s ok] by (simp add: sink_inv_def)
qed (use assms(3,4) in auto)

text \<open>The number of rounds a worker still has after its context was cancelled.\<close>

definition rounds_left :: "asyncSink \<Rightarrow> nat" where
  "rounds_left s = (if sk_worker s = Stopped then 0 else Suc (length (sk_ch s)))"

lemma stopped_step: "sink_step s a t \<Longrightarrow> sk_worker s = Stopped \<Longrightarrow> is_offer a"
  by (erule sink_stepE) simp_all

lemma draining_run:
  assumes "sink_run s as acc t" "sink_inv s" "sk_worker s = Draining" "\<forall>a \<in> set as. \<not> is_offer a"
  shows "rounds_left t + length as = Suc (length (sk_ch s)) \<and> sk_worker t \<noteq> Running \<and> (sk_worker t = Stopped \<longrightarrow> sk_ch t = []) \<and> acc = []"
  using assms
proof (induction rule: sink_run.induct)
  case (start s)
  then show ?case by (simp add: rounds_left_def)
next
  case (step s as acc t a u)
  have ih: "rounds_left t + length as = Suc (length (sk_ch s))" "sk_worker t \<noteq> Running" "acc = []"
    using step.IH step.prems by auto
  have inv: "sink_inv t" using sink_run_inv [OF step.hyps(1) step.prems(1)] by blast
  have a: "\<not> is_offer a" using step.prems(3) by simp
  then have "sk_worker t = Draining" using stopped_step [OF step.hyps(2)] ih(2) by (cases "sk_worker t") auto
  moreover have "accepts t a = []" using a by (cases a) auto
  ultimately show ?case using ih draining_step [OF step.hyps(2) inv _ a] by (auto simp: rounds_left_def split: if_splits)
qed


section \<open>A run\<close>

definition audit :: SuppressionRecord where
  "audit = \<lparr>sr_RuleId = 1, sr_RuleName = ''r'', sr_SourceEventHash = ''a'', sr_TargetEventHash = ''b'', sr_SourceRuleName = [],
     sr_TargetRuleName = [], sr_SourceTags = [], sr_TargetTags = [], sr_SourceSeverity = 1, sr_TargetSeverity = 2, sr_GroupId = 1,
     sr_DatasourceId = 1, sr_SuppressedAt = 0\<rparr>"

definition offered_once :: asyncSink where
  "offered_once = RecordSuppression 5 (Some audit) (NewAsyncSink 4 2 0)"

definition cancelled :: asyncSink where
  "cancelled = offered_once\<lparr>sk_worker := Draining\<rparr>"

definition drained :: asyncSink where
  "drained = (flush True (receive True cancelled))\<lparr>sk_worker := Stopped\<rparr>"

lemma cancelled_run: "sink_run (NewAsyncSink 4 2 0) ([Offer 5 (Some audit)] @ [Cancel]) ([stamped_row 5 audit] @ []) cancelled"
proof -
  have "sink_run (NewAsyncSink 4 2 0) ([] @ [Offer 5 (Some audit)]) ([] @ accepts (NewAsyncSink 4 2 0) (Offer 5 (Some audit))) offered_once"
    unfolding offered_once_def by (intro sink_run.step sink_run.start offer)
  then have one: "sink_run (NewAsyncSink 4 2 0) [Offer 5 (Some audit)] [stamped_row 5 audit] offered_once" by (simp add: NewAsyncSink_def)
  have "sk_worker offered_once = Running" by (simp add: offered_once_def NewAsyncSink_def RecordSuppression_def)
  from sink_run.step [OF one cancel [OF this]] show ?thesis by (simp add: cancelled_def)
qed

lemma drained_run: "sink_run cancelled ([Drain True] @ [Finish True]) ([] @ []) drained"
proof -
  have c: "sk_worker cancelled = Draining" "sk_ch cancelled \<noteq> []" "sk_ch (receive True cancelled) = []" "sk_worker (receive True cancelled) = Draining"
    by (simp_all add: cancelled_def offered_once_def NewAsyncSink_def RecordSuppression_def receive_def)
  have "sink_run cancelled ([] @ [Drain True]) ([] @ accepts cancelled (Drain True)) (receive True cancelled)"
    by (intro sink_run.step sink_run.start drain c)
  from sink_run.step [OF this finish [OF c(4,3), of True]] show ?thesis by (simp add: drained_def)
qed

theorem sink_keeps_records_witness:
  "[stamped_row 5 audit] = concat (map snd (sk_log cancelled)) @ sk_buf cancelled @ sk_ch cancelled
   \<and> sk_dropped cancelled = 0 \<and> sk_flushed cancelled = length (table_rows cancelled)"
  using sink_keeps_records [OF cancelled_run] by simp


end
