(* ===== verification/Custom_Wiring.thy ===== *)
theory Custom_Wiring
  imports Custom_Mute Suppress_Record Denoise
begin

text \<open>
  How the custom modules are put together (\<^verbatim>\<open>internal/custom/bootstrap\<close>, \<^verbatim>\<open>internal/custom/refresher\<close>): the lists in the columns of the
  rule tables, the providers that reload the rules, the refresh of the emergency switch, and the chain of hooks that
  decides whether an event is dropped. A query of a table is an argument: an error, or the rows of the table. The
  decoder of a JSON list of integers is the argument \<open>json_ints\<close>; an absent list and an empty one are both the empty list, which
  the code does not tell apart.
\<close>

section \<open>Lists in columns\<close>

fun split_any :: "string \<Rightarrow> string \<Rightarrow> string \<Rightarrow> string list" where
  "split_any seps piece [] = [piece]"
| "split_any seps piece (c # cs) =
     (if c \<in> set seps then piece # split_any seps [] cs else split_any seps (piece @ [c]) cs)"

definition splitOnAny :: "string \<Rightarrow> string \<Rightarrow> string list" where
  "splitOnAny s seps = split_any seps [] s"

fun int_parts :: "string list \<Rightarrow> int list" where
  "int_parts [] = []"
| "int_parts (p # ps) =
     (if p = [] then int_parts ps
      else case ParseInt p of None \<Rightarrow> int_parts ps | Some v \<Rightarrow> v # int_parts ps)"

definition parseInt64CSV :: "(string \<Rightarrow> string + int list) \<Rightarrow> string \<Rightarrow> int list" where
  "parseInt64CSV json_ints s0 =
     (let s = TrimSpace s0 in
      if s = [] \<or> s = ''null'' then []
      else if hd s = CHR ''['' then (case json_ints s of Inl err \<Rightarrow> [] | Inr out \<Rightarrow> out)
      else int_parts (splitOnAny s '', ''))"

definition parseIntCSV :: "(string \<Rightarrow> string + int list) \<Rightarrow> string \<Rightarrow> int list" where
  "parseIntCSV json_ints s0 =
     (let s = TrimSpace s0 in
      if s = [] \<or> s = ''null'' then []
      else if hd s = CHR ''['' then (case json_ints s of Inl err \<Rightarrow> [] | Inr out \<Rightarrow> out)
      else int_parts (splitOnAny s '', ''))"

section \<open>The refresher\<close>

record 'a Refresher =
  rf_name :: string
  rf_interval :: int
  rf_current :: "'a list"

definition rf_New :: "string \<Rightarrow> int \<Rightarrow> 'a Refresher" where
  "rf_New name interval = \<lparr>rf_name = name, rf_interval = (if interval < Second then Second else interval), rf_current = []\<rparr>"

definition rf_Get :: "'a Refresher \<Rightarrow> 'a list" where
  "rf_Get r = rf_current r"

definition rf_tick :: "string + 'a list \<Rightarrow> 'a Refresher \<Rightarrow> 'a Refresher" where
  "rf_tick loaded r = (case loaded of Inl err \<Rightarrow> r | Inr rows \<Rightarrow> r\<lparr>rf_current := rows\<rparr>)"

text \<open>\<^verbatim>\<open>Start\<close> and the loop: the refresher after the given loads, the first of which is synchronous.\<close>

fun rf_run :: "(string + 'a list) list \<Rightarrow> 'a Refresher \<Rightarrow> 'a Refresher" where
  "rf_run [] r = r"
| "rf_run (loaded # ls) r = rf_run ls (rf_tick loaded r)"

section \<open>Loading the rules\<close>

text \<open>\<^verbatim>\<open>decodeRuleJSON\<close>, and the same two assignments in the provider.\<close>

definition decodeRuleJSON :: "(string \<Rightarrow> string + int list) \<Rightarrow> CustomAggregateRule \<Rightarrow> CustomAggregateRule" where
  "decodeRuleJSON J r = r\<lparr>gr_DatasourceIdsJson := parseInt64CSV J (gr_DatasourceIds r), gr_SeveritiesJson := parseIntCSV J (gr_Severities r)\<rparr>"

definition aggregate_load :: "(string \<Rightarrow> string + int list) \<Rightarrow> string + CustomAggregateRule list \<Rightarrow> string + CustomAggregateRule list" where
  "aggregate_load J queried =
     (case queried of
        Inl err \<Rightarrow> Inl err
      | Inr table \<Rightarrow> Inr (map (decodeRuleJSON J) (filter (\<lambda>r. gr_Disabled r = 0) table)))"

fun inhibit_rows :: "stdlib \<Rightarrow> (string \<Rightarrow> string + int list) \<Rightarrow> CustomInhibitRule list \<Rightarrow> CompiledRule list" where
  "inhibit_rows L J [] = []"
| "inhibit_rows L J (row # rows) =
     (case CompileRule L (Some (row\<lparr>ir_DatasourceIdsJson := parseInt64CSV J (ir_DatasourceIds row)\<rparr>)) of
        Inl err \<Rightarrow> inhibit_rows L J rows
      | Inr crule \<Rightarrow> crule # inhibit_rows L J rows)"

definition inhibit_load :: "stdlib \<Rightarrow> (string \<Rightarrow> string + int list) \<Rightarrow> string + CustomInhibitRule list \<Rightarrow> string + CompiledRule list" where
  "inhibit_load L J queried =
     (case queried of
        Inl err \<Rightarrow> Inl err
      | Inr table \<Rightarrow> Inr (inhibit_rows L J (filter (\<lambda>r. ir_Disabled r = 0) table)))"

fun cron_rows :: "stdlib \<Rightarrow> cron_lib \<Rightarrow> (string \<Rightarrow> string + int list) \<Rightarrow> CustomMuteCron list \<Rightarrow> CompiledCronRule list" where
  "cron_rows L C J [] = []"
| "cron_rows L C J (row # rows) =
     (case CompileCronRule L C (Some (row\<lparr>mc_DatasourceIdsJson := parseInt64CSV J (mc_DatasourceIds row),
                                         mc_SeveritiesJson := parseIntCSV J (mc_Severities row)\<rparr>)) of
        Inl err \<Rightarrow> cron_rows L C J rows
      | Inr crule \<Rightarrow> crule # cron_rows L C J rows)"

definition cron_load :: "stdlib \<Rightarrow> cron_lib \<Rightarrow> (string \<Rightarrow> string + int list) \<Rightarrow> string + CustomMuteCron list \<Rightarrow> string + CompiledCronRule list" where
  "cron_load L C J queried =
     (case queried of
        Inl err \<Rightarrow> Inl err
      | Inr table \<Rightarrow> Inr (cron_rows L C J (filter (\<lambda>r. mc_Disabled r = 0) table)))"

text \<open>The loaders of the static wiring, in which a failed query gives no rules.\<close>

definition loadAggregateRules :: "(string \<Rightarrow> string + int list) \<Rightarrow> string + CustomAggregateRule list \<Rightarrow> CustomAggregateRule list" where
  "loadAggregateRules J queried =
     (case queried of Inl err \<Rightarrow> [] | Inr table \<Rightarrow> map (decodeRuleJSON J) (filter (\<lambda>r. gr_Disabled r = 0) table))"

definition loadInhibitRules :: "stdlib \<Rightarrow> (string \<Rightarrow> string + int list) \<Rightarrow> string + CustomInhibitRule list \<Rightarrow> CompiledRule list" where
  "loadInhibitRules L J queried =
     (case queried of Inl err \<Rightarrow> [] | Inr table \<Rightarrow> inhibit_rows L J (filter (\<lambda>r. ir_Disabled r = 0) table))"

definition loadMuteCronRules :: "stdlib \<Rightarrow> cron_lib \<Rightarrow> (string \<Rightarrow> string + int list) \<Rightarrow> string + CustomMuteCron list \<Rightarrow> CompiledCronRule list" where
  "loadMuteCronRules L C J queried =
     (case queried of Inl err \<Rightarrow> [] | Inr table \<Rightarrow> cron_rows L C J (filter (\<lambda>r. mc_Disabled r = 0) table))"

text \<open>The row of the emergency switch: an error of the query, a missing row among them, gives nil.\<close>

definition loadEmergencyMute :: "(string \<Rightarrow> string + int list) \<Rightarrow> string + CustomEmergencyMute \<Rightarrow> EmergencyState option" where
  "loadEmergencyMute J queried =
     (case queried of
        Inl err \<Rightarrow> None
      | Inr row \<Rightarrow> Some (FromModel (Some (row\<lparr>em_DatasourceIdsJson := parseInt64CSV J (em_DatasourceIds row),
                                              em_GroupIdsJson := parseInt64CSV J (em_GroupIds row)\<rparr>))))"

text \<open>One tick of \<^verbatim>\<open>startEmergencyRefresh\<close>.\<close>

definition emergency_tick :: "(string \<Rightarrow> string + int list) \<Rightarrow> string + CustomEmergencyMute \<Rightarrow> EmergencyHolder \<Rightarrow> EmergencyHolder" where
  "emergency_tick J queried holder = emergency_Set holder (loadEmergencyMute J queried)"

section \<open>The chain of hooks\<close>

fun first_sink :: "'s RecordSink option list \<Rightarrow> 's suppress_HookAdapter \<Rightarrow> 's suppress_HookAdapter" where
  "first_sink [] h = h"
| "first_sink (s # ss) h = (if s \<noteq> None then SetRecordSink h s else first_sink ss h)"

text \<open>The hook that \<^verbatim>\<open>wireMuteAndSuppressWithProviders\<close> installs, called at time \<open>now\<close> with what the providers return then.\<close>

definition wireMuteAndSuppressWithProviders ::
  "(nat \<Rightarrow> entry_order) \<Rightarrow> int \<Rightarrow> CompiledCronRule list \<Rightarrow> EmergencyHolder \<Rightarrow> CompiledRule list \<Rightarrow> 's RecordSink option list \<Rightarrow>
   (RootCauseIndex \<times> 's) EventMuteHookFunc" where
  "wireMuteAndSuppressWithProviders ords now cronRules emergencyHolder suppressRules sinks =
     (let suppressHook = first_sink sinks (suppress_NewHookAdapter suppressRules None)
      in mute_Hook \<lparr>evr_cron = Some cronRules, evr_emergency = Some emergencyHolder\<rparr> now
           (Some (suppress_Hook ords (Unix now) suppressHook)))"

definition wireMuteAndSuppress ::
  "(nat \<Rightarrow> entry_order) \<Rightarrow> int \<Rightarrow> CompiledCronRule list \<Rightarrow> EmergencyState option \<Rightarrow> CompiledRule list \<Rightarrow> (RootCauseIndex \<times> 's) EventMuteHookFunc" where
  "wireMuteAndSuppress ords now cronRules emergency suppressRules =
     (let emergencyHolder = (case emergency of None \<Rightarrow> NewEmergencyHolder | Some e \<Rightarrow> emergency_Set NewEmergencyHolder (Some e))
      in wireMuteAndSuppressWithProviders ords now cronRules emergencyHolder suppressRules [])"

section \<open>The interface of a loader\<close>

text \<open>A loader reports a failed query, and otherwise keeps the rows that are enabled and compile, each on its own. Behind a
  refresher it then serves the rules of the last query that did not fail.\<close>

locale rule_loader =
  fixes load :: "string + 'r list \<Rightarrow> string + 'c list" and enabled :: "'r \<Rightarrow> bool" and compile :: "'r \<Rightarrow> 'c option"
  assumes failed: "load (Inl err) = Inl err"
    and rows: "load (Inr table) = Inr (List.map_filter compile (filter enabled table))"
begin

lemma snapshot:
  "rf_current (rf_run (map load qs) r) =
     (case rev (List.map_filter (\<lambda>q. case q of Inl err \<Rightarrow> None | Inr t \<Rightarrow> Some t) qs) of
        [] \<Rightarrow> rf_current r
      | t # _ \<Rightarrow> List.map_filter compile (filter enabled t))"
proof (induction qs rule: rev_induct)
  case (snoc q qs)
  have run: "rf_run (xs @ [y]) r = rf_tick y (rf_run xs r)" for xs and y :: "string + 'c list" and r
    by (induction xs arbitrary: r) simp_all
  show ?case
  proof (cases q)
    case (Inl err)
    with snoc show ?thesis by (simp add: run rf_tick_def failed map_filter_def)
  next
    case (Inr t)
    then show ?thesis by (simp add: run rf_tick_def rows map_filter_def)
  qed
qed (simp add: map_filter_def)

lemma bad_row: "compile x = None \<Longrightarrow> load (Inr (xs @ x # ys)) = load (Inr (xs @ ys))"
  by (simp add: rows map_filter_def)

lemma served:
  assumes "c \<in> set (rf_current (rf_run (map load qs) (rf_New name i)))"
  shows "\<exists>t r. Inr t \<in> set qs \<and> r \<in> set t \<and> enabled r \<and> compile r = Some c"
proof -
  let ?oks = "List.map_filter (\<lambda>q. case q of Inl err \<Rightarrow> None | Inr t \<Rightarrow> Some t) qs"
  obtain t ts where t: "rev ?oks = t # ts" "c \<in> set (List.map_filter compile (filter enabled t))"
    using assms unfolding snapshot by (cases "rev ?oks") (auto simp: rf_New_def)
  have "t \<in> set (rev ?oks)" unfolding t(1) by simp
  then have "Inr t \<in> set qs" by (auto simp: map_filter_def split: sum.splits)
  moreover obtain r where "r \<in> set t" "enabled r" "compile r = Some c" using t(2) by (auto simp: map_filter_def)
  ultimately show ?thesis by blast
qed

end

definition compiled_inhibit :: "stdlib \<Rightarrow> (string \<Rightarrow> string + int list) \<Rightarrow> CustomInhibitRule \<Rightarrow> CompiledRule option" where
  "compiled_inhibit L J row =
     (case CompileRule L (Some (row\<lparr>ir_DatasourceIdsJson := parseInt64CSV J (ir_DatasourceIds row)\<rparr>)) of Inl err \<Rightarrow> None | Inr c \<Rightarrow> Some c)"

definition compiled_cron :: "stdlib \<Rightarrow> cron_lib \<Rightarrow> (string \<Rightarrow> string + int list) \<Rightarrow> CustomMuteCron \<Rightarrow> CompiledCronRule option" where
  "compiled_cron L C J row =
     (case CompileCronRule L C (Some (row\<lparr>mc_DatasourceIdsJson := parseInt64CSV J (mc_DatasourceIds row),
                                         mc_SeveritiesJson := parseIntCSV J (mc_Severities row)\<rparr>)) of Inl err \<Rightarrow> None | Inr c \<Rightarrow> Some c)"

lemma inhibit_rows_filter: "inhibit_rows L J rows = List.map_filter (compiled_inhibit L J) rows"
  by (induction rows) (auto simp: compiled_inhibit_def map_filter_def split: sum.splits)

lemma cron_rows_filter: "cron_rows L C J rows = List.map_filter (compiled_cron L C J) rows"
  by (induction rows) (auto simp: compiled_cron_def map_filter_def split: sum.splits)

interpretation aggregate_rules: rule_loader "aggregate_load J" "\<lambda>r. gr_Disabled r = 0" "\<lambda>r. Some (decodeRuleJSON J r)"
  by unfold_locales (simp_all add: aggregate_load_def map_filter_def)

interpretation inhibit_rules: rule_loader "inhibit_load L J" "\<lambda>r. ir_Disabled r = 0" "compiled_inhibit L J"
  by unfold_locales (simp_all add: inhibit_load_def inhibit_rows_filter)

interpretation cron_rules: rule_loader "cron_load L C J" "\<lambda>r. mc_Disabled r = 0" "compiled_cron L C J"
  by unfold_locales (simp_all add: cron_load_def cron_rows_filter)

section \<open>Providers\<close>

text \<open>The successful queries among the given ones.\<close>

definition good :: "(string + 'r list) list \<Rightarrow> 'r list list" where
  "good qs = List.map_filter (\<lambda>q. case q of Inl err \<Rightarrow> None | Inr t \<Rightarrow> Some t) qs"

text \<open>(C31) A provider of inhibit or of cron mute rules serves, after any sequence of reloads, the enabled rows that compile of the last query
  that did not fail, and no rules before the first one; failed reloads change nothing, and a row that does not compile
  only loses itself.\<close>

theorem providers_serve_last_load:
  "rf_Get (rf_run (map (inhibit_load L J) qs) (rf_New name i)) =
     (case rev (good qs) of [] \<Rightarrow> [] | t # _ \<Rightarrow> List.map_filter (compiled_inhibit L J) (filter (\<lambda>r. ir_Disabled r = 0) t))
   \<and> rf_Get (rf_run (map (cron_load L C J) qs') (rf_New name' i')) =
     (case rev (good qs') of [] \<Rightarrow> [] | t # _ \<Rightarrow> List.map_filter (compiled_cron L C J) (filter (\<lambda>r. mc_Disabled r = 0) t))"
  unfolding rf_Get_def inhibit_rules.snapshot cron_rules.snapshot good_def by (simp add: rf_New_def split: list.split)

text \<open>A failed query of the emergency row switches the emergency mute off.\<close>

lemma emergency_lost_on_error: "emergency_Match (emergency_tick J (Inl err) holder) event now = (False, [])"
  by (simp add: emergency_tick_def loadEmergencyMute_def emergency_Set_def emergency_Match_def disabled_state_def split: option.split)

section \<open>Lists come back\<close>

lemma lead_space_plain: "33 \<le> (of_char c :: nat) \<Longrightarrow> (of_char c :: nat) < 127 \<Longrightarrow> lead_space (c # cs) = 0"
  by (simp add: lead_space_def split: list.split)

lemma TrimSpace_plain:
  assumes "\<forall>c \<in> set s. 33 \<le> (of_char c :: nat) \<and> (of_char c :: nat) < 127"
  shows "TrimSpace s = s"
proof -
  have lead: "lead_space (drop n s) = 0" for n
  proof (cases "drop n s")
    case (Cons c cs)
    then have "c \<in> set s" by (metis in_set_dropD list.set_intros(1))
    with assms Cons show ?thesis by (simp add: lead_space_plain)
  qed simp
  have "trim_left s = s" using lead [of 0] by (simp add: trim_left.simps)
  moreover have "trail_space s = 0" by (simp add: trail_space_def lead)
  ultimately show ?thesis by (simp add: TrimSpace_def trim_right.simps)
qed

lemma split_any_piece: "\<forall>c \<in> set w. c \<notin> set seps \<Longrightarrow> split_any seps piece (w @ cs) = split_any seps (piece @ w) cs"
  by (induction w arbitrary: piece) auto

lemma splitOnAny_Join:
  assumes "ws \<noteq> []" "\<forall>w \<in> set ws. \<forall>c \<in> set w. c \<notin> set seps" "d \<in> set seps"
  shows "splitOnAny (Join [d] ws) seps = ws"
  using assms unfolding splitOnAny_def
proof (induction "[d]" ws rule: Join.induct)
  case (2 w)
  then show ?case using split_any_piece [of w seps "[]" "[]"] by simp
next
  case (3 w v ws)
  then show ?case using split_any_piece [of w seps "[]" "d # Join [d] (v # ws)"] by simp
qed simp

lemma digit_code: "d < 10 \<Longrightarrow> (of_char (digit_char d) :: nat) = 48 + d"
  unfolding digit_char_def of_char_of by simp

lemma dec_nat_plain:
  assumes "c \<in> set (dec_nat n)"
  shows "48 \<le> (of_char c :: nat) \<and> (of_char c :: nat) \<le> 57"
proof -
  obtain d where "d < 10" "c = digit_char d" using dec_nat_chars assms by blast
  then show ?thesis by (simp add: digit_code)
qed

lemma Itoa_plain: "\<forall>c \<in> set (Itoa i). 45 \<le> (of_char c :: nat) \<and> (of_char c :: nat) \<le> 57"
proof
  fix c assume "c \<in> set (Itoa i)"
  then consider "c = CHR ''-''" | n where "c \<in> set (dec_nat n)" by (auto simp: Itoa_def split: if_splits)
  then show "45 \<le> (of_char c :: nat) \<and> (of_char c :: nat) \<le> 57"
  proof cases
    case (2 n)
    from dec_nat_plain [OF this] show ?thesis by linarith
  qed simp
qed

lemma Itoa_seps: "c \<in> set (Itoa i) \<Longrightarrow> c \<notin> set '', ''"
proof
  assume "c \<in> set (Itoa i)" "c \<in> set '', ''"
  from bspec [OF Itoa_plain this(1)] have "45 \<le> (of_char c :: nat)" by blast
  moreover have "(of_char c :: nat) \<le> 44" using \<open>c \<in> set '', ''\<close> by auto
  ultimately show False by linarith
qed

lemma Itoa_not_Nil [simp]: "Itoa i \<noteq> []"
  by (simp add: Itoa_def)

lemma int_parts_Itoa: "\<forall>i \<in> set is. is_int64 i \<Longrightarrow> int_parts (map Itoa is) = is"
  by (induction "is") (simp_all add: ParseInt_Itoa)

lemma Join_set: "set (Join sep ws) \<subseteq> set sep \<union> (\<Union>w \<in> set ws. set w)"
  by (induction sep ws rule: Join.induct) auto

lemma Join_Cons_hd: "w \<noteq> [] \<Longrightarrow> Join sep (w # ws) \<noteq> [] \<and> hd (Join sep (w # ws)) = hd w"
  by (cases ws) auto

lemma ints_text_plain:
  assumes "c \<in> set (Join '','' (map Itoa is))"
  shows "44 \<le> (of_char c :: nat) \<and> (of_char c :: nat) \<le> 57"
proof -
  have "c = CHR '','' \<or> (\<exists>i. c \<in> set (Itoa i))" using assms Join_set [of "'',''" "map Itoa is"] by auto
  then consider "c = CHR '',''" | j where "c \<in> set (Itoa j)" by blast
  then show ?thesis
  proof cases
    case (2 j)
    then have "45 \<le> (of_char c :: nat) \<and> (of_char c :: nat) \<le> 57" using Itoa_plain [of j] by blast
    then show ?thesis by linarith
  qed simp
qed

text \<open>Data source, group and severity lists survive their column: a list of 64-bit integers written with commas is read back
  unchanged.\<close>

theorem csv_roundtrip:
  assumes "is \<noteq> []" "\<forall>i \<in> set is. is_int64 i"
  shows "parseInt64CSV json_ints (Join '','' (map Itoa is)) = is \<and> parseIntCSV json_ints (Join '','' (map Itoa is)) = is"
proof -
  let ?s = "Join '','' (map Itoa is)"
  have trim: "TrimSpace ?s = ?s" by (intro TrimSpace_plain ballI) (drule ints_text_plain, linarith)
  obtain i rest where i: "is = i # rest" using assms(1) by (cases "is") auto
  have s: "?s \<noteq> []" "hd ?s = hd (Itoa i)" using Join_Cons_hd [of "Itoa i" "'',''" "map Itoa rest"] by (simp_all add: i)
  have h: "(of_char (hd ?s) :: nat) \<le> 57" using Itoa_plain [of i] hd_in_set [OF Itoa_not_Nil, of i] unfolding s(2) by blast
  have no: "hd ?s \<noteq> CHR ''[''" "?s \<noteq> ''null''"
  proof -
    show "hd ?s \<noteq> CHR ''[''"
    proof
      assume "hd ?s = CHR ''[''"
      then have "(of_char (hd ?s) :: nat) = 91" by (simp only:) simp
      with h show False by linarith
    qed
    show "?s \<noteq> ''null''"
    proof
      assume "?s = ''null''"
      then have "(of_char (hd ?s) :: nat) = 110" by (simp only:) simp
      with h show False by linarith
    qed
  qed
  have "\<forall>w \<in> set (map Itoa is). \<forall>c \<in> set w. c \<notin> set '', ''" using Itoa_seps by auto
  then have "splitOnAny ?s '', '' = map Itoa is" using assms(1) by (intro splitOnAny_Join) simp_all
  then show ?thesis using s(1) no assms(2) by (simp add: parseInt64CSV_def parseIntCSV_def trim int_parts_Itoa)
qed

theorem csv_roundtrip_witness: "parseInt64CSV (\<lambda>s. Inl []) ''12,-3'' = [12, -3]"
proof -
  have "is_int64 12" "is_int64 (-3)" by (simp_all add: is_int64_def int64_min_def int64_max_def)
  then have "parseInt64CSV (\<lambda>s. Inl []) (Join '','' (map Itoa [12, -3])) = [12, -3]" using csv_roundtrip [of "[12, -3]" "\<lambda>s. Inl []"] by simp
  moreover have "Join '','' (map Itoa [12, -3]) = ''12,-3''" by code_simp
  ultimately show ?thesis by simp
qed

section \<open>What the installed hook does\<close>

lemma mute_verdict: "mv_Muted (Evaluate \<lparr>evr_cron = Some rules, evr_emergency = Some h\<rparr> (Some ev) now) \<longleftrightarrow>
    fst (emergency_Match h (Some ev) now) \<or> (\<exists>r \<in> set rules. cron_Match r (Some ev) now)"
  by (simp add: Evaluate_def Let_def cron_loop_muted)

lemma suppressed_by_rule:
  assumes "\<forall>i. range_order (ords i)" "mwf (rci_entries idx)" "dc_Suppressed (snd (Decide ords now rules idx (Some ev)))"
  shows "\<exists>r \<in> set rules. inhibits now idx ev r (dc_BySourceHash (snd (Decide ords now rules idx (Some ev))))"
proof -
  have run: "Decide ords now rules idx (Some ev) = decide_loop ords now ev 0 rules (idx, zero_decision)" by (simp add: Decide_def)
  have "\<exists>r \<in> set rules. inhibits now (fst (idx, zero_decision)) ev r (dc_BySourceHash (snd (decide_loop ords now ev 0 rules (idx, zero_decision))))
      \<and> dc_ByRuleId (snd (decide_loop ords now ev 0 rules (idx, zero_decision))) = ir_Id (cr_Rule r)"
    by (rule decide_loop_sound) (use assms in \<open>simp_all add: run zero_decision_def\<close>)
  then show ?thesis unfolding run fst_conv by blast
qed

text \<open>(C1) The installed chain of hooks. An event that the emergency switch or a cron rule mutes is dropped, and neither registered as a
  root cause nor recorded. Any other event is registered and decided by the inhibitor: it is dropped exactly when the
  inhibitor suppresses it, that is by a rule with a live source other than the event, and then one audit record with the
  verdict is handed to the sink.\<close>

theorem hook_chain_correct:
  assumes "\<forall>i. range_order (ords i)" "mwf (rci_entries idx)"
  shows "let (dropped, idx', s') = wireMuteAndSuppressWithProviders ords now cronRules holder rules [Some snk] (Some ev) (idx, s);
             (idx1, decision) = Decide ords (Unix now) rules idx (Some ev)
         in if fst (emergency_Match holder (Some ev) now) \<or> (\<exists>r \<in> set cronRules. cron_Match r (Some ev) now)
            then dropped \<and> idx' = idx \<and> s' = s
            else idx' = idx1 \<and> dropped = dc_Suppressed decision
              \<and> (if dropped then s' = snk (suppression_record ev decision) s
                              \<and> (\<exists>r \<in> set rules. inhibits (Unix now) idx ev r (dc_BySourceHash decision))
                 else s' = s)"
proof -
  obtain idx1 d where d: "Decide ords (Unix now) rules idx (Some ev) = (idx1, d)" by fastforce
  have sup: "dc_Suppressed d \<Longrightarrow> \<exists>r \<in> set rules. inhibits (Unix now) idx ev r (dc_BySourceHash d)"
    using suppressed_by_rule [OF assms, of "Unix now" rules ev] d by simp
  show ?thesis
    using sup by (simp add: wireMuteAndSuppressWithProviders_def mute_Hook_def mute_NewHookAdapter_def mute_verdict suppress_Hook_def
        SetRecordSink_def suppress_NewHookAdapter_def d Let_def)
qed

theorem hook_chain_correct_witness:
  "fst (wireMuteAndSuppressWithProviders (\<lambda>_ es. es) (200 * Second) [] NewEmergencyHolder [host_rule] [Some (\<lambda>rec rs. rec # rs)]
     (Some (host_event ''t'' ''service'')) (host_index, []))"
proof -
  let ?run = "wireMuteAndSuppressWithProviders (\<lambda>_ es. es) (200 * Second) [] NewEmergencyHolder [host_rule] [Some (\<lambda>rec rs. rec # rs)]
     (Some (host_event ''t'' ''service'')) (host_index, [])"
  have pre: "\<forall>i. range_order ((\<lambda>_ es. es) i :: entry_order)" "mwf (rci_entries host_index)"
    by (simp_all add: host_index_def Register_def RegisterFull_def NewRootCauseIndex_def)
  have off: "\<not> fst (emergency_Match NewEmergencyHolder (Some (host_event ''t'' ''service'')) (200 * Second))"
    by (simp add: emergency_Match_def NewEmergencyHolder_def disabled_state_def)
  have "dc_Suppressed (snd (Decide (\<lambda>_ es. es) 200 [host_rule] host_index (Some (host_event ''t'' ''service''))))"
    by (simp add: host_defs)
  moreover have "Unix (200 * Second) = 200" by (simp add: Unix_def Second_def)
  ultimately have "dc_Suppressed (snd (Decide (\<lambda>_ es. es) (Unix (200 * Second)) [host_rule] host_index (Some (host_event ''t'' ''service''))))"
    by simp
  with hook_chain_correct [OF pre, where now = "200 * Second" and cronRules = "[]" and holder = NewEmergencyHolder and rules = "[host_rule]"
      and snk = "\<lambda>rec rs. rec # rs" and ev = "host_event ''t'' ''service''" and s = "[]"] off
  show ?thesis by (auto split: prod.splits)
qed

end
