(* ===== verification/Custom_Api.thy ===== *)
theory Custom_Api
  imports Custom_Wiring Aggregator
begin

text \<open>
  The management interface of the custom modules (\<^verbatim>\<open>internal/custom/router\<close>): the handlers that list, show, create, change and
  delete aggregate, inhibit and cron mute rules, show and set the emergency switch, list the audit log and the suppressed
  events, and try a rule, with their validation, the conversion to rows and the audit log. A handler takes the table it
  works on and the audit log, and returns the answer with both. The caller record holds what a request brings along: the
  user name in its context, the address, the time, and the outcome of the queries it makes (\<open>None\<close> is success). Decoding of the
  request body is not modelled.

  \<open>api_json\<close> holds the functions of \<^verbatim>\<open>encoding/json\<close> in use: the encoders of the lists and of the rows, the decoders of the lists, and
  whether a text is a JSON array. A nil list and an empty one are both the empty list; \<^verbatim>\<open>encodeJSONList\<close> writes them alike. The
  fields the data base does not keep (tag \<^verbatim>\<open>gorm:"-"\<close>) are empty in a row of a table.
\<close>

section \<open>Helpers\<close>

record api_json =
  aj_ints :: "int list \<Rightarrow> string"
  aj_strings :: "string list \<Rightarrow> string"
  aj_decode_ints :: "string \<Rightarrow> string + int list"
  aj_decode_strings :: "string \<Rightarrow> string + string list"
  aj_is_array :: "string \<Rightarrow> bool"
  aj_inhibit :: "CustomInhibitRule option \<Rightarrow> string"
  aj_cron :: "CustomMuteCron option \<Rightarrow> string"
  aj_aggregate :: "CustomAggregateRule option \<Rightarrow> string"
  aj_emergency :: "CustomEmergencyMute option \<Rightarrow> string"

definition list_text :: "string \<Rightarrow> string" where
  "list_text b = (if b = ''null'' then ''[]'' else b)"

definition encode_ints :: "api_json \<Rightarrow> int list \<Rightarrow> string" where
  "encode_ints A v = list_text (aj_ints A v)"

definition encode_strings :: "api_json \<Rightarrow> string list \<Rightarrow> string" where
  "encode_strings A v = list_text (aj_strings A v)"

definition decodeJSONInt64List :: "api_json \<Rightarrow> string \<Rightarrow> int list" where
  "decodeJSONInt64List A s = (if s = [] then [] else case aj_decode_ints A s of Inl err \<Rightarrow> [] | Inr xs \<Rightarrow> xs)"

definition decodeJSONIntList :: "api_json \<Rightarrow> string \<Rightarrow> int list" where
  "decodeJSONIntList A s = (if s = [] then [] else case aj_decode_ints A s of Inl err \<Rightarrow> [] | Inr xs \<Rightarrow> xs)"

definition decodeJSONStringList :: "api_json \<Rightarrow> string \<Rightarrow> string list" where
  "decodeJSONStringList A s = (if s = [] then [] else case aj_decode_strings A s of Inl err \<Rightarrow> [] | Inr xs \<Rightarrow> xs)"

definition isValidJSONArray :: "api_json \<Rightarrow> string \<Rightarrow> bool" where
  "isValidJSONArray A s = (if s = [] then False else aj_is_array A s)"

text \<open>A table with its next id, as the data base keeps it.\<close>

record 'r table =
  tb_rows :: "(int, 'r) gomap"
  tb_next :: int

definition tb_First :: "int \<Rightarrow> 'r table \<Rightarrow> string + 'r" where
  "tb_First i t = (case mget (tb_rows t) i of None \<Rightarrow> Inl ''record not found'' | Some r \<Rightarrow> Inr r)"

definition tb_Create :: "'r \<Rightarrow> 'r table \<Rightarrow> 'r table" where
  "tb_Create r t = t\<lparr>tb_rows := tb_rows t @ [(tb_next t, r)], tb_next := tb_next t + 1\<rparr>"

definition tb_Save :: "int \<Rightarrow> 'r \<Rightarrow> 'r table \<Rightarrow> 'r table" where
  "tb_Save i r t = t\<lparr>tb_rows := mput i r (tb_rows t)\<rparr>"

definition tb_Delete :: "int \<Rightarrow> 'r table \<Rightarrow> 'r table" where
  "tb_Delete i t = t\<lparr>tb_rows := mdel i (tb_rows t)\<rparr>"

text \<open>The path parameter of a route, and a parameter of a query with its default and its bound.\<close>

definition urlParamID :: "string \<Rightarrow> string + int" where
  "urlParamID v =
     (if v = [] then Inl ''missing id in URL''
      else case ParseInt v of None \<Rightarrow> Inl (''invalid id '' @ Quote v) | Some i \<Rightarrow> Inr i)"

definition parseQueryIntDefault :: "string \<Rightarrow> int \<Rightarrow> int \<Rightarrow> int" where
  "parseQueryIntDefault s def bound =
     (if s = [] then def
      else case ParseInt s of
        None \<Rightarrow> def
      | Some v \<Rightarrow> if v < 0 then def else if v > bound then bound else v)"

record caller =
  ca_username :: "string option"
  ca_ip :: string
  ca_now :: int
  ca_read :: "string option"
  ca_write :: "string option"
  ca_audit :: "string option"

definition currentUsername :: "caller \<Rightarrow> string" where
  "currentUsername c = (case ca_username c of Some s \<Rightarrow> if s \<noteq> [] then s else ''unknown'' | None \<Rightarrow> ''unknown'')"

text \<open>The gate before every handler that writes: the flag of the user is absent, false or true.\<close>

definition requireAdmin :: "bool option \<Rightarrow> string option" where
  "requireAdmin isAdmin =
     (case isAdmin of None \<Rightarrow> Some ''unauthorized'' | Some b \<Rightarrow> if b then None else Some ''admin required'')"

definition admin_only :: "bool option \<Rightarrow> ('st \<Rightarrow> (string + 'a) \<times> 'st) \<Rightarrow> 'st \<Rightarrow> (string + 'a) \<times> 'st" where
  "admin_only isAdmin handler st = (case requireAdmin isAdmin of Some err \<Rightarrow> (Inl err, st) | None \<Rightarrow> handler st)"

section \<open>The audit log\<close>

record CustomAuditLog =
  al_Username :: string
  al_Action :: string
  al_Target :: string
  al_TargetId :: int
  al_Before :: string
  al_After :: string
  al_ClientIp :: string
  al_CreatedAt :: int

text \<open>A snapshot passed as \<^verbatim>\<open>interface{}\<close>: nil, or a pointer with its type, which itself may be nil. Only the former is equal to nil.\<close>

datatype 'r snapshot = NoSnapshot | Snapshot "'r option"

definition encodeSnapshot :: "('r option \<Rightarrow> string) \<Rightarrow> 'r snapshot \<Rightarrow> string" where
  "encodeSnapshot json v = (case v of NoSnapshot \<Rightarrow> [] | Snapshot r \<Rightarrow> json r)"

definition idFrom :: "('r \<Rightarrow> int) \<Rightarrow> 'r snapshot \<Rightarrow> int" where
  "idFrom id_of v = (case v of Snapshot (Some r) \<Rightarrow> id_of r | _ \<Rightarrow> 0)"

definition extractTargetID :: "('r \<Rightarrow> int) \<Rightarrow> 'r snapshot \<Rightarrow> 'r snapshot \<Rightarrow> int" where
  "extractTargetID id_of primary fallback = (if idFrom id_of primary \<noteq> 0 then idFrom id_of primary else idFrom id_of fallback)"

definition audit_row ::
  "('r option \<Rightarrow> string) \<Rightarrow> ('r \<Rightarrow> int) \<Rightarrow> caller \<Rightarrow> string \<Rightarrow> string \<Rightarrow> 'r snapshot \<Rightarrow> 'r snapshot \<Rightarrow> CustomAuditLog" where
  "audit_row json id_of c action target before after =
     \<lparr>al_Username = currentUsername c, al_Action = action, al_Target = target, al_TargetId = extractTargetID id_of after before,
      al_Before = encodeSnapshot json before, al_After = encodeSnapshot json after, al_ClientIp = ca_ip c, al_CreatedAt = ca_now c\<rparr>"

definition audit_Write ::
  "('r option \<Rightarrow> string) \<Rightarrow> ('r \<Rightarrow> int) \<Rightarrow> caller \<Rightarrow> string \<Rightarrow> string \<Rightarrow> 'r snapshot \<Rightarrow> 'r snapshot \<Rightarrow> CustomAuditLog list \<Rightarrow> CustomAuditLog list" where
  "audit_Write json id_of c action target before after logs =
     (case ca_audit c of None \<Rightarrow> logs @ [audit_row json id_of c action target before after] | Some err \<Rightarrow> logs)"

section \<open>Cron mute rules\<close>

record muteCronWriteReq =
  mq_GroupId :: int
  mq_Note :: string
  mq_CronExpr :: string
  mq_DurationSec :: int
  mq_Timezone :: string
  mq_DatasourceIds :: "int list"
  mq_Severities :: "int list"
  mq_Tags :: string
  mq_Disabled :: int

definition muteCron_validate :: "api_json \<Rightarrow> cron_lib \<Rightarrow> muteCronWriteReq \<Rightarrow> string option" where
  "muteCron_validate A C req =
     (if mq_CronExpr req = [] then Some ''cron_expr is required''
      else if mq_DurationSec req \<le> 0 then Some ''duration_sec must be > 0''
      else case CompileCron C (mq_CronExpr req) (mq_Timezone req) (mq_DurationSec req) of
        Inl err \<Rightarrow> Some (''invalid cron config: '' @ err)
      | Inr _ \<Rightarrow>
          if mq_Tags req \<noteq> [] \<and> \<not> isValidJSONArray A (mq_Tags req) then Some (''tags must be a JSON array, got '' @ Quote (mq_Tags req)) else None)"

definition muteCron_toModel :: "api_json \<Rightarrow> muteCronWriteReq \<Rightarrow> int \<Rightarrow> string \<Rightarrow> CustomMuteCron" where
  "muteCron_toModel A req now username =
     \<lparr>mc_Id = 0, mc_GroupId = mq_GroupId req, mc_Note = mq_Note req, mc_CronExpr = mq_CronExpr req, mc_DurationSec = mq_DurationSec req,
      mc_Timezone = mq_Timezone req, mc_DatasourceIds = encode_ints A (mq_DatasourceIds req), mc_DatasourceIdsJson = mq_DatasourceIds req,
      mc_Severities = encode_ints A (mq_Severities req), mc_SeveritiesJson = mq_Severities req,
      mc_Tags = (if mq_Tags req = [] then ''[]'' else mq_Tags req), mc_Disabled = mq_Disabled req, mc_CreateBy = username,
      mc_UpdateBy = username, mc_CreateAt = now, mc_UpdateAt = now\<rparr>"

definition stored_muteCron :: "CustomMuteCron \<Rightarrow> CustomMuteCron" where
  "stored_muteCron rule = rule\<lparr>mc_DatasourceIdsJson := [], mc_SeveritiesJson := []\<rparr>"

definition hydrate_muteCron :: "api_json \<Rightarrow> CustomMuteCron \<Rightarrow> CustomMuteCron" where
  "hydrate_muteCron A rule = rule\<lparr>mc_DatasourceIdsJson := decodeJSONInt64List A (mc_DatasourceIds rule), mc_SeveritiesJson := decodeJSONIntList A (mc_Severities rule)\<rparr>"

definition muteCronList :: "api_json \<Rightarrow> caller \<Rightarrow> CustomMuteCron table \<Rightarrow> string + CustomMuteCron list \<times> int" where
  "muteCronList A c t =
     (case ca_read c of
        Some err \<Rightarrow> Inl err
      | None \<Rightarrow> let rules = map (hydrate_muteCron A) (sort_key mc_Id (map snd (tb_rows t))) in Inr (rules, int (length rules)))"

definition get_muteCron :: "caller \<Rightarrow> int \<Rightarrow> CustomMuteCron table \<Rightarrow> string + CustomMuteCron" where
  "get_muteCron c i t = (case ca_read c of Some err \<Rightarrow> Inl err | None \<Rightarrow> tb_First i t)"

definition muteCronGet :: "api_json \<Rightarrow> caller \<Rightarrow> int \<Rightarrow> CustomMuteCron table \<Rightarrow> string + CustomMuteCron" where
  "muteCronGet A c i t = (case get_muteCron c i t of Inl err \<Rightarrow> Inl err | Inr rule \<Rightarrow> Inr (hydrate_muteCron A rule))"

definition muteCronCreate ::
  "api_json \<Rightarrow> cron_lib \<Rightarrow> caller \<Rightarrow> muteCronWriteReq \<Rightarrow> CustomMuteCron table \<times> CustomAuditLog list \<Rightarrow>
   (string + CustomMuteCron) \<times> CustomMuteCron table \<times> CustomAuditLog list" where
  "muteCronCreate A C c req st =
     (case muteCron_validate A C req of
        Some err \<Rightarrow> (Inl err, st)
      | None \<Rightarrow>
          (let rule = (muteCron_toModel A req (ca_now c) (currentUsername c))\<lparr>mc_Id := tb_next (fst st)\<rparr>
           in case ca_write c of
                Some err \<Rightarrow> (Inl err, st)
              | None \<Rightarrow> (Inr rule, tb_Create (stored_muteCron rule) (fst st),
                         audit_Write (aj_cron A) mc_Id c ''create'' ''mute_cron'' NoSnapshot (Snapshot (Some rule)) (snd st))))"

definition muteCronUpdate ::
  "api_json \<Rightarrow> cron_lib \<Rightarrow> caller \<Rightarrow> int \<Rightarrow> muteCronWriteReq \<Rightarrow> CustomMuteCron table \<times> CustomAuditLog list \<Rightarrow>
   (string + CustomMuteCron) \<times> CustomMuteCron table \<times> CustomAuditLog list" where
  "muteCronUpdate A C c i req st =
     (case get_muteCron c i (fst st) of
        Inl err \<Rightarrow> (Inl err, st)
      | Inr existing \<Rightarrow>
          (case muteCron_validate A C req of
             Some err \<Rightarrow> (Inl err, st)
           | None \<Rightarrow>
               (let updated = (muteCron_toModel A req (ca_now c) (currentUsername c))\<lparr>mc_Id := i, mc_CreateBy := mc_CreateBy existing,
                                 mc_CreateAt := mc_CreateAt existing\<rparr>
                in case ca_write c of
                     Some err \<Rightarrow> (Inl err, st)
                   | None \<Rightarrow> (Inr (hydrate_muteCron A updated), tb_Save i (stored_muteCron updated) (fst st),
                              audit_Write (aj_cron A) mc_Id c ''update'' ''mute_cron'' (Snapshot (Some existing)) (Snapshot (Some updated)) (snd st)))))"

definition muteCronDelete ::
  "api_json \<Rightarrow> caller \<Rightarrow> int \<Rightarrow> CustomMuteCron table \<times> CustomAuditLog list \<Rightarrow> (string + int) \<times> CustomMuteCron table \<times> CustomAuditLog list" where
  "muteCronDelete A c i st =
     (case get_muteCron c i (fst st) of
        Inl err \<Rightarrow> (Inl err, st)
      | Inr existing \<Rightarrow>
          (case ca_write c of
             Some err \<Rightarrow> (Inl err, st)
           | None \<Rightarrow> (Inr i, tb_Delete i (fst st),
                      audit_Write (aj_cron A) mc_Id c ''delete'' ''mute_cron'' (Snapshot (Some existing)) NoSnapshot (snd st))))"

section \<open>Inhibit rules\<close>

record inhibitRuleWriteReq =
  iq_GroupId :: int
  iq_Name :: string
  iq_Note :: string
  iq_SourceMatch :: string
  iq_TargetMatch :: string
  iq_EqualLabels :: "string list"
  iq_DatasourceIds :: "int list"
  iq_Disabled :: int

definition inhibitRule_validate :: "api_json \<Rightarrow> inhibitRuleWriteReq \<Rightarrow> string option" where
  "inhibitRule_validate A req =
     (if iq_Name req = [] then Some ''name is required''
      else if \<not> isValidJSONArray A (iq_SourceMatch req) then Some (''source_match must be a JSON array, got '' @ Quote (iq_SourceMatch req))
      else if \<not> isValidJSONArray A (iq_TargetMatch req) then Some (''target_match must be a JSON array, got '' @ Quote (iq_TargetMatch req))
      else None)"

definition inhibitRule_toModel :: "api_json \<Rightarrow> inhibitRuleWriteReq \<Rightarrow> int \<Rightarrow> string \<Rightarrow> CustomInhibitRule" where
  "inhibitRule_toModel A req now username =
     \<lparr>ir_Id = 0, ir_GroupId = iq_GroupId req, ir_Name = iq_Name req, ir_Note = iq_Note req, ir_SourceMatch = iq_SourceMatch req,
      ir_TargetMatch = iq_TargetMatch req, ir_EqualLabels = encode_strings A (iq_EqualLabels req), ir_EqualLabelsJson = iq_EqualLabels req,
      ir_DatasourceIds = encode_ints A (iq_DatasourceIds req), ir_DatasourceIdsJson = iq_DatasourceIds req, ir_Disabled = iq_Disabled req,
      ir_CreateBy = username, ir_UpdateBy = username, ir_CreateAt = now, ir_UpdateAt = now\<rparr>"

definition stored_inhibitRule :: "CustomInhibitRule \<Rightarrow> CustomInhibitRule" where
  "stored_inhibitRule rule = rule\<lparr>ir_EqualLabelsJson := [], ir_DatasourceIdsJson := []\<rparr>"

definition hydrate_inhibitRule :: "api_json \<Rightarrow> CustomInhibitRule \<Rightarrow> CustomInhibitRule" where
  "hydrate_inhibitRule A rule = rule\<lparr>ir_EqualLabelsJson := decodeJSONStringList A (ir_EqualLabels rule), ir_DatasourceIdsJson := decodeJSONInt64List A (ir_DatasourceIds rule)\<rparr>"

definition inhibitRuleList :: "api_json \<Rightarrow> caller \<Rightarrow> CustomInhibitRule table \<Rightarrow> string + CustomInhibitRule list \<times> int" where
  "inhibitRuleList A c t =
     (case ca_read c of
        Some err \<Rightarrow> Inl err
      | None \<Rightarrow> let rules = map (hydrate_inhibitRule A) (sort_key ir_Id (map snd (tb_rows t))) in Inr (rules, int (length rules)))"

definition get_inhibitRule :: "caller \<Rightarrow> int \<Rightarrow> CustomInhibitRule table \<Rightarrow> string + CustomInhibitRule" where
  "get_inhibitRule c i t = (case ca_read c of Some err \<Rightarrow> Inl err | None \<Rightarrow> tb_First i t)"

definition inhibitRuleGet :: "api_json \<Rightarrow> caller \<Rightarrow> int \<Rightarrow> CustomInhibitRule table \<Rightarrow> string + CustomInhibitRule" where
  "inhibitRuleGet A c i t = (case get_inhibitRule c i t of Inl err \<Rightarrow> Inl err | Inr rule \<Rightarrow> Inr (hydrate_inhibitRule A rule))"

definition inhibitRuleCreate ::
  "api_json \<Rightarrow> caller \<Rightarrow> inhibitRuleWriteReq \<Rightarrow> CustomInhibitRule table \<times> CustomAuditLog list \<Rightarrow>
   (string + CustomInhibitRule) \<times> CustomInhibitRule table \<times> CustomAuditLog list" where
  "inhibitRuleCreate A c req st =
     (case inhibitRule_validate A req of
        Some err \<Rightarrow> (Inl err, st)
      | None \<Rightarrow>
          (let rule = (inhibitRule_toModel A req (ca_now c) (currentUsername c))\<lparr>ir_Id := tb_next (fst st)\<rparr>
           in case ca_write c of
                Some err \<Rightarrow> (Inl err, st)
              | None \<Rightarrow> (Inr rule, tb_Create (stored_inhibitRule rule) (fst st),
                         audit_Write (aj_inhibit A) ir_Id c ''create'' ''inhibit_rule'' NoSnapshot (Snapshot (Some rule)) (snd st))))"

definition inhibitRuleUpdate ::
  "api_json \<Rightarrow> caller \<Rightarrow> int \<Rightarrow> inhibitRuleWriteReq \<Rightarrow> CustomInhibitRule table \<times> CustomAuditLog list \<Rightarrow>
   (string + CustomInhibitRule) \<times> CustomInhibitRule table \<times> CustomAuditLog list" where
  "inhibitRuleUpdate A c i req st =
     (case get_inhibitRule c i (fst st) of
        Inl err \<Rightarrow> (Inl err, st)
      | Inr existing \<Rightarrow>
          (case inhibitRule_validate A req of
             Some err \<Rightarrow> (Inl err, st)
           | None \<Rightarrow>
               (let updated = (inhibitRule_toModel A req (ca_now c) (currentUsername c))\<lparr>ir_Id := i, ir_CreateBy := ir_CreateBy existing,
                                 ir_CreateAt := ir_CreateAt existing\<rparr>
                in case ca_write c of
                     Some err \<Rightarrow> (Inl err, st)
                   | None \<Rightarrow> (Inr (hydrate_inhibitRule A updated), tb_Save i (stored_inhibitRule updated) (fst st),
                              audit_Write (aj_inhibit A) ir_Id c ''update'' ''inhibit_rule'' (Snapshot (Some existing)) (Snapshot (Some updated)) (snd st)))))"

definition inhibitRuleDelete ::
  "api_json \<Rightarrow> caller \<Rightarrow> int \<Rightarrow> CustomInhibitRule table \<times> CustomAuditLog list \<Rightarrow> (string + int) \<times> CustomInhibitRule table \<times> CustomAuditLog list" where
  "inhibitRuleDelete A c i st =
     (case get_inhibitRule c i (fst st) of
        Inl err \<Rightarrow> (Inl err, st)
      | Inr existing \<Rightarrow>
          (case ca_write c of
             Some err \<Rightarrow> (Inl err, st)
           | None \<Rightarrow> (Inr i, tb_Delete i (fst st),
                      audit_Write (aj_inhibit A) ir_Id c ''delete'' ''inhibit_rule'' (Snapshot (Some existing)) NoSnapshot (snd st))))"

section \<open>Aggregate rules\<close>

record aggregateRuleWriteReq =
  gq_GroupId :: int
  gq_Name :: string
  gq_Note :: string
  gq_Dimensions :: "string list"
  gq_WindowSec :: int
  gq_Filters :: string
  gq_DatasourceIds :: "int list"
  gq_Severities :: "int list"
  gq_StormThreshold :: int
  gq_StormWindowSec :: int
  gq_Disabled :: int
  gq_Priority :: int

text \<open>Validation also fills in the defaults of the request.\<close>

definition aggregateRule_validate :: "aggregateRuleWriteReq \<Rightarrow> string + aggregateRuleWriteReq" where
  "aggregateRule_validate req =
     (if gq_Name req = [] then Inl ''name is required''
      else if length (gq_Dimensions req) = 0 then Inl ''dimensions must contain at least one label key''
      else let req1 = (if gq_WindowSec req \<le> 0 then req\<lparr>gq_WindowSec := 300\<rparr> else req)
           in Inr (if gq_StormWindowSec req1 \<le> 0 then req1\<lparr>gq_StormWindowSec := 60\<rparr> else req1))"

definition aggregateRule_toModel :: "api_json \<Rightarrow> aggregateRuleWriteReq \<Rightarrow> int \<Rightarrow> string \<Rightarrow> CustomAggregateRule" where
  "aggregateRule_toModel A req now username =
     \<lparr>gr_Id = 0, gr_GroupId = gq_GroupId req, gr_Name = gq_Name req, gr_Note = gq_Note req,
      gr_Dimensions = encode_strings A (gq_Dimensions req), gr_WindowSec = gq_WindowSec req,
      gr_Filters = (if gq_Filters req = [] then ''[]'' else gq_Filters req), gr_DatasourceIds = encode_ints A (gq_DatasourceIds req),
      gr_DatasourceIdsJson = gq_DatasourceIds req, gr_StormThreshold = gq_StormThreshold req, gr_StormWindowSec = gq_StormWindowSec req,
      gr_Severities = encode_ints A (gq_Severities req), gr_SeveritiesJson = gq_Severities req, gr_Disabled = gq_Disabled req,
      gr_Priority = gq_Priority req, gr_CreateBy = username, gr_UpdateBy = username, gr_CreateAt = now, gr_UpdateAt = now\<rparr>"

definition stored_aggregateRule :: "CustomAggregateRule \<Rightarrow> CustomAggregateRule" where
  "stored_aggregateRule rule = rule\<lparr>gr_DatasourceIdsJson := [], gr_SeveritiesJson := []\<rparr>"

definition hydrate_aggregateRule :: "api_json \<Rightarrow> CustomAggregateRule \<Rightarrow> CustomAggregateRule" where
  "hydrate_aggregateRule A rule = rule\<lparr>gr_DatasourceIdsJson := decodeJSONInt64List A (gr_DatasourceIds rule), gr_SeveritiesJson := decodeJSONIntList A (gr_Severities rule)\<rparr>"

definition aggregateRuleList :: "api_json \<Rightarrow> caller \<Rightarrow> CustomAggregateRule table \<Rightarrow> string + CustomAggregateRule list \<times> int" where
  "aggregateRuleList A c t =
     (case ca_read c of
        Some err \<Rightarrow> Inl err
      | None \<Rightarrow> let rules = map (hydrate_aggregateRule A) (sort_key (\<lambda>r. - gr_Priority r) (sort_key gr_Id (map snd (tb_rows t)))) in Inr (rules, int (length rules)))"

definition get_aggregateRule :: "caller \<Rightarrow> int \<Rightarrow> CustomAggregateRule table \<Rightarrow> string + CustomAggregateRule" where
  "get_aggregateRule c i t = (case ca_read c of Some err \<Rightarrow> Inl err | None \<Rightarrow> tb_First i t)"

definition aggregateRuleGet :: "api_json \<Rightarrow> caller \<Rightarrow> int \<Rightarrow> CustomAggregateRule table \<Rightarrow> string + CustomAggregateRule" where
  "aggregateRuleGet A c i t = (case get_aggregateRule c i t of Inl err \<Rightarrow> Inl err | Inr rule \<Rightarrow> Inr (hydrate_aggregateRule A rule))"

definition aggregateRuleCreate ::
  "api_json \<Rightarrow> caller \<Rightarrow> aggregateRuleWriteReq \<Rightarrow> CustomAggregateRule table \<times> CustomAuditLog list \<Rightarrow>
   (string + CustomAggregateRule) \<times> CustomAggregateRule table \<times> CustomAuditLog list" where
  "aggregateRuleCreate A c req st =
     (case aggregateRule_validate req of
        Inl err \<Rightarrow> (Inl err, st)
      | Inr req' \<Rightarrow>
          (let rule = (aggregateRule_toModel A req' (ca_now c) (currentUsername c))\<lparr>gr_Id := tb_next (fst st)\<rparr>
           in case ca_write c of
                Some err \<Rightarrow> (Inl err, st)
              | None \<Rightarrow> (Inr rule, tb_Create (stored_aggregateRule rule) (fst st),
                         audit_Write (aj_aggregate A) gr_Id c ''create'' ''aggregate_rule'' NoSnapshot (Snapshot (Some rule)) (snd st))))"

definition aggregateRuleUpdate ::
  "api_json \<Rightarrow> caller \<Rightarrow> int \<Rightarrow> aggregateRuleWriteReq \<Rightarrow> CustomAggregateRule table \<times> CustomAuditLog list \<Rightarrow>
   (string + CustomAggregateRule) \<times> CustomAggregateRule table \<times> CustomAuditLog list" where
  "aggregateRuleUpdate A c i req st =
     (case get_aggregateRule c i (fst st) of
        Inl err \<Rightarrow> (Inl err, st)
      | Inr existing \<Rightarrow>
          (case aggregateRule_validate req of
             Inl err \<Rightarrow> (Inl err, st)
           | Inr req' \<Rightarrow>
               (let updated = (aggregateRule_toModel A req' (ca_now c) (currentUsername c))\<lparr>gr_Id := i, gr_CreateBy := gr_CreateBy existing,
                                 gr_CreateAt := gr_CreateAt existing\<rparr>
                in case ca_write c of
                     Some err \<Rightarrow> (Inl err, st)
                   | None \<Rightarrow> (Inr (hydrate_aggregateRule A updated), tb_Save i (stored_aggregateRule updated) (fst st),
                              audit_Write (aj_aggregate A) gr_Id c ''update'' ''aggregate_rule'' (Snapshot (Some existing)) (Snapshot (Some updated)) (snd st)))))"

definition aggregateRuleDelete ::
  "api_json \<Rightarrow> caller \<Rightarrow> int \<Rightarrow> CustomAggregateRule table \<times> CustomAuditLog list \<Rightarrow> (string + int) \<times> CustomAggregateRule table \<times> CustomAuditLog list" where
  "aggregateRuleDelete A c i st =
     (case get_aggregateRule c i (fst st) of
        Inl err \<Rightarrow> (Inl err, st)
      | Inr existing \<Rightarrow>
          (case ca_write c of
             Some err \<Rightarrow> (Inl err, st)
           | None \<Rightarrow> (Inr i, tb_Delete i (fst st),
                      audit_Write (aj_aggregate A) gr_Id c ''delete'' ''aggregate_rule'' (Snapshot (Some existing)) NoSnapshot (snd st))))"

section \<open>The emergency switch\<close>

definition EmergencyMuteSingletonID :: int where "EmergencyMuteSingletonID = 1"

record emergencyMutePutReq =
  eq_Enabled :: int
  eq_Reason :: string
  eq_ExpireAt :: int
  eq_DatasourceIds :: "int list"
  eq_GroupIds :: "int list"

definition emergency_validate :: "emergencyMutePutReq \<Rightarrow> int \<Rightarrow> string option" where
  "emergency_validate req now =
     (if eq_Enabled req = 0 then None
      else if eq_Reason req = [] then Some ''reason is required when enabling emergency mute''
      else if eq_ExpireAt req \<noteq> 0 \<and> eq_ExpireAt req \<le> now
      then Some (''expire_at must be 0 (no expiry) or a future timestamp (got '' @ Itoa (eq_ExpireAt req) @ '', now='' @ Itoa now @ '')'')
      else None)"

text \<open>A missing row is not an error: \<open>Inr None\<close>.\<close>

definition getEmergencyMute :: "caller \<Rightarrow> CustomEmergencyMute table \<Rightarrow> string + CustomEmergencyMute option" where
  "getEmergencyMute c t = (case ca_read c of Some err \<Rightarrow> Inl err | None \<Rightarrow> Inr (mget (tb_rows t) EmergencyMuteSingletonID))"

definition stored_emergency :: "CustomEmergencyMute \<Rightarrow> CustomEmergencyMute" where
  "stored_emergency row = row\<lparr>em_DatasourceIdsJson := [], em_GroupIdsJson := []\<rparr>"

definition hydrateEmergencyMute :: "api_json \<Rightarrow> CustomEmergencyMute \<Rightarrow> CustomEmergencyMute" where
  "hydrateEmergencyMute A row =
     row\<lparr>em_DatasourceIdsJson := decodeJSONInt64List A (em_DatasourceIds row), em_GroupIdsJson := decodeJSONInt64List A (em_GroupIds row)\<rparr>"

definition emergencyMuteGet :: "api_json \<Rightarrow> caller \<Rightarrow> CustomEmergencyMute table \<Rightarrow> string + CustomEmergencyMute" where
  "emergencyMuteGet A c t =
     (case getEmergencyMute c t of
        Inl err \<Rightarrow> Inl err
      | Inr None \<Rightarrow> Inr \<lparr>em_Id = EmergencyMuteSingletonID, em_Enabled = 0, em_Reason = [], em_ExpireAt = 0, em_DatasourceIds = [],
                        em_DatasourceIdsJson = [], em_GroupIds = [], em_GroupIdsJson = [], em_CreateBy = [], em_UpdateBy = [],
                        em_CreateAt = 0, em_UpdateAt = 0\<rparr>
      | Inr (Some row) \<Rightarrow> Inr (hydrateEmergencyMute A row))"

definition emergencyMutePut ::
  "api_json \<Rightarrow> caller \<Rightarrow> emergencyMutePutReq \<Rightarrow> CustomEmergencyMute table \<times> CustomAuditLog list \<Rightarrow>
   (string + CustomEmergencyMute) \<times> CustomEmergencyMute table \<times> CustomAuditLog list" where
  "emergencyMutePut A c req st =
     (case emergency_validate req (ca_now c) of
        Some err \<Rightarrow> (Inl err, st)
      | None \<Rightarrow>
          (case getEmergencyMute c (fst st) of
             Inl err \<Rightarrow> (Inl err, st)
           | Inr existing \<Rightarrow>
               (let row = \<lparr>em_Id = EmergencyMuteSingletonID, em_Enabled = eq_Enabled req, em_Reason = eq_Reason req,
                           em_ExpireAt = eq_ExpireAt req, em_DatasourceIds = encode_ints A (eq_DatasourceIds req),
                           em_DatasourceIdsJson = eq_DatasourceIds req, em_GroupIds = encode_ints A (eq_GroupIds req),
                           em_GroupIdsJson = eq_GroupIds req,
                           em_CreateBy = (case existing of None \<Rightarrow> currentUsername c | Some e \<Rightarrow> em_CreateBy e), em_UpdateBy = currentUsername c,
                           em_CreateAt = (case existing of None \<Rightarrow> ca_now c | Some e \<Rightarrow> em_CreateAt e), em_UpdateAt = ca_now c\<rparr>
                in case ca_write c of
                     Some err \<Rightarrow> (Inl err, st)
                   | None \<Rightarrow> (Inr (hydrateEmergencyMute A row), tb_Save EmergencyMuteSingletonID (stored_emergency row) (fst st),
                              audit_Write (aj_emergency A) em_Id c ''put'' ''emergency_mute'' (Snapshot existing) (Snapshot (Some row)) (snd st)))))"

section \<open>The audit pages\<close>

text \<open>A page of a table in which the newest row is the last one: the number of all rows that pass the filters, and of these
  the newest first, from \<open>offset\<close> on and at most \<open>limit\<close>.\<close>

definition page_of :: "int \<Rightarrow> int \<Rightarrow> 'r list \<Rightarrow> int \<times> 'r list" where
  "page_of limit offset rows = (int (length rows), take (nat limit) (drop (nat offset) (rev rows)))"

definition text_filter :: "string \<Rightarrow> string \<Rightarrow> bool" where
  "text_filter v column \<longleftrightarrow> v \<noteq> [] \<longrightarrow> column = v"

definition int_filter :: "(int \<Rightarrow> bool) \<Rightarrow> string \<Rightarrow> (int \<Rightarrow> bool) \<Rightarrow> bool" where
  "int_filter ok v test \<longleftrightarrow> v \<noteq> [] \<longrightarrow> (case ParseInt v of None \<Rightarrow> True | Some i \<Rightarrow> ok i \<longrightarrow> test i)"

record audit_query =
  aq_limit :: string
  aq_offset :: string
  aq_target :: string
  aq_action :: string
  aq_username :: string
  aq_target_id :: string
  aq_since :: string

definition auditLogList :: "caller \<Rightarrow> audit_query \<Rightarrow> CustomAuditLog list \<Rightarrow> string + int \<times> CustomAuditLog list" where
  "auditLogList c q logs =
     (case ca_read c of
        Some err \<Rightarrow> Inl err
      | None \<Rightarrow> Inr (page_of (parseQueryIntDefault (aq_limit q) 50 500) (parseQueryIntDefault (aq_offset q) 0 (2 ^ 31))
          (filter (\<lambda>r. text_filter (aq_target q) (al_Target r) \<and> text_filter (aq_action q) (al_Action r)
             \<and> text_filter (aq_username q) (al_Username r) \<and> int_filter (\<lambda>i. True) (aq_target_id q) (\<lambda>i. al_TargetId r = i)
             \<and> int_filter (\<lambda>ts. ts > 0) (aq_since q) (\<lambda>ts. al_CreatedAt r \<ge> ts)) logs)))"

record suppressed_query =
  sq_limit :: string
  sq_offset :: string
  sq_rule_id :: string
  sq_source_hash :: string
  sq_target_hash :: string
  sq_since :: string

definition suppressedEventList ::
  "caller \<Rightarrow> suppressed_query \<Rightarrow> CustomSuppressedEvent list \<Rightarrow> string + int \<times> CustomSuppressedEvent list" where
  "suppressedEventList c q rows =
     (case ca_read c of
        Some err \<Rightarrow> Inl err
      | None \<Rightarrow> Inr (page_of (parseQueryIntDefault (sq_limit q) 50 500) (parseQueryIntDefault (sq_offset q) 0 (2 ^ 31))
          (filter (\<lambda>r. int_filter (\<lambda>i. i > 0) (sq_rule_id q) (\<lambda>i. se_RuleId r = i)
             \<and> text_filter (sq_source_hash q) (se_SourceEventHash r) \<and> text_filter (sq_target_hash q) (se_TargetEventHash r)
             \<and> int_filter (\<lambda>ts. ts > 0) (sq_since q) (\<lambda>ts. se_SuppressedAt r \<ge> ts)) rows)))"

section \<open>The incident pages\<close>

text \<open>The ids of the incidents grow with their place in the table. The links of an incident are shown newest first, at most 100.\<close>

definition incidentList :: "caller \<Rightarrow> string \<Rightarrow> string \<Rightarrow> string \<Rightarrow> string \<Rightarrow> tables \<Rightarrow> string + int \<times> CustomIncident list" where
  "incidentList c limit offset statusStr ruleIDStr db =
     (let status = (if statusStr = [] then Some (\<lambda>r. True)
                    else case ParseInt statusStr of
                      None \<Rightarrow> None
                    | Some s \<Rightarrow> if s \<ge> 0 \<and> s \<le> 2 then Some (\<lambda>r. ci_Status r = s) else None)
      in case status of
           None \<Rightarrow> Inl (''invalid status '' @ Quote statusStr)
         | Some has_status \<Rightarrow>
             (case ca_read c of
                Some err \<Rightarrow> Inl err
              | None \<Rightarrow> Inr (page_of (parseQueryIntDefault limit 50 500) (parseQueryIntDefault offset 0 (2 ^ 31))
                  (filter (\<lambda>r. has_status r \<and> int_filter (\<lambda>i. i > 0) ruleIDStr (\<lambda>i. ci_RuleId r = i)) (tb_incidents db)))))"

definition incidentGet :: "caller \<Rightarrow> int \<Rightarrow> tables \<Rightarrow> string + CustomIncident \<times> CustomIncidentEvent list" where
  "incidentGet c i db =
     (case ca_read c of
        Some err \<Rightarrow> Inl err
      | None \<Rightarrow>
          (case find (\<lambda>inc. ci_Id inc = i) (tb_incidents db) of
             None \<Rightarrow> Inl ''record not found''
           | Some incident \<Rightarrow>
               Inr (incident, take 100 (sort_key (\<lambda>l. - ce_MergedAt l) (sort_key (\<lambda>l. - ce_Id l)
                      (filter (\<lambda>l. ce_IncidentId l = i) (tb_links db)))))))"

section \<open>Trying a rule\<close>

record inhibitTryRunReq =
  tq_Hash :: string
  tq_RuleName :: string
  tq_Severity :: int
  tq_Tags :: string
  tq_TagsMap :: tags
  tq_GroupId :: int
  tq_Datasrc :: int

text \<open>The event goes through the installed hook.\<close>

definition inhibitTryRun :: "'s EventMuteHookFunc \<Rightarrow> inhibitTryRunReq \<Rightarrow> 's \<Rightarrow> bool \<times> 's" where
  "inhibitTryRun hook req s =
     hook (Some (zero_event\<lparr>ev_Hash := tq_Hash req, ev_RuleName := tq_RuleName req, ev_Severity := tq_Severity req, ev_Tags := tq_Tags req,
       ev_TagsMap := tq_TagsMap req, ev_GroupId := tq_GroupId req, ev_DatasourceId := tq_Datasrc req\<rparr>)) s"

section \<open>Lists come back\<close>

text \<open>What \<^verbatim>\<open>encoding/json\<close> documents of lists of 64-bit integers: the text is an array without surrounding space, and is decoded to the
  list.\<close>

definition json_lists :: "api_json \<Rightarrow> bool" where
  "json_lists A \<longleftrightarrow> (\<forall>xs. (\<forall>i \<in> set xs. is_int64 i) \<longrightarrow>
     aj_decode_ints A (aj_ints A xs) = Inr xs \<and> aj_ints A xs \<noteq> [] \<and> hd (aj_ints A xs) = CHR ''['' \<and> TrimSpace (aj_ints A xs) = aj_ints A xs)"

lemma encode_ints_text:
  assumes "json_lists A" "\<forall>i \<in> set xs. is_int64 i"
  shows "encode_ints A xs = aj_ints A xs" and "aj_ints A xs \<noteq> ''null''"
proof -
  have "hd (aj_ints A xs) = CHR ''[''" using assms by (simp add: json_lists_def)
  then show "aj_ints A xs \<noteq> ''null''" by auto
  then show "encode_ints A xs = aj_ints A xs" by (simp add: encode_ints_def list_text_def)
qed

lemma ints_back:
  assumes "json_lists A" "\<forall>i \<in> set xs. is_int64 i"
  shows "decodeJSONInt64List A (encode_ints A xs) = xs" and "decodeJSONIntList A (encode_ints A xs) = xs"
    and "parseInt64CSV (aj_decode_ints A) (encode_ints A xs) = xs" and "parseIntCSV (aj_decode_ints A) (encode_ints A xs) = xs"
proof -
  have J: "aj_decode_ints A (aj_ints A xs) = Inr xs" "aj_ints A xs \<noteq> []" "hd (aj_ints A xs) = CHR ''[''" "TrimSpace (aj_ints A xs) = aj_ints A xs"
    using assms by (simp_all add: json_lists_def)
  show "decodeJSONInt64List A (encode_ints A xs) = xs" "decodeJSONIntList A (encode_ints A xs) = xs"
    by (simp_all add: decodeJSONInt64List_def decodeJSONIntList_def encode_ints_text [OF assms] J)
  show "parseInt64CSV (aj_decode_ints A) (encode_ints A xs) = xs" "parseIntCSV (aj_decode_ints A) (encode_ints A xs) = xs"
    by (simp_all add: parseInt64CSV_def parseIntCSV_def Let_def encode_ints_text [OF assms] J)
qed

section \<open>The emergency switch takes effect\<close>

text \<open>(C30) A successful PUT of the emergency switch takes effect with the next refresh: from then on, an event is muted exactly when the
  request enabled the switch, its expiry is zero or not yet past, and its data source and its group are in the requested
  scopes, where a scope that is empty or starts with 0 holds everything and an event without the id is in every scope. The
  request leaves every other row alone, and adds one row to the audit log that names the user.\<close>

theorem emergency_put_takes_effect:
  assumes "json_lists A" "\<forall>i \<in> set (eq_DatasourceIds req) \<union> set (eq_GroupIds req). is_int64 i" "0 \<le> ca_now c" "ca_audit c = None"
    and "emergencyMutePut A c req (t, logs) = (Inr row, t', logs')"
  shows "(fst (emergency_Match (emergency_tick (aj_decode_ints A) (tb_First EmergencyMuteSingletonID t') holder) (Some ev) now) \<longleftrightarrow>
       eq_Enabled req = 1 \<and> (eq_ExpireAt req = 0 \<or> Unix now \<le> eq_ExpireAt req)
       \<and> \<not> scope_excludes (eq_DatasourceIds req) (ev_DatasourceId ev) \<and> \<not> scope_excludes (eq_GroupIds req) (ev_GroupId ev))
     \<and> (\<forall>i. i \<noteq> EmergencyMuteSingletonID \<longrightarrow> mget (tb_rows t') i = mget (tb_rows t) i)
     \<and> (\<exists>entry. logs' = logs @ [entry] \<and> al_Username entry = currentUsername c \<and> al_TargetId entry = EmergencyMuteSingletonID)"
proof -
  have ds: "\<forall>i \<in> set (eq_DatasourceIds req). is_int64 i" and gs: "\<forall>i \<in> set (eq_GroupIds req). is_int64 i" using assms(2) by auto
  have ok: "emergency_validate req (ca_now c) = None" using assms(5) by (auto simp: emergencyMutePut_def split: option.splits)
  have exp: "eq_Enabled req = 1 \<Longrightarrow> eq_ExpireAt req = 0 \<or> 0 < eq_ExpireAt req"
    using ok assms(3) by (auto simp: emergency_validate_def split: if_splits)
  obtain row' where t': "t' = tb_Save EmergencyMuteSingletonID row' t"
    and row': "em_Enabled row' = eq_Enabled req" "em_ExpireAt row' = eq_ExpireAt req" "em_DatasourceIds row' = encode_ints A (eq_DatasourceIds req)"
      "em_GroupIds row' = encode_ints A (eq_GroupIds req)"
    using assms(5) by (auto simp: emergencyMutePut_def Let_def ok stored_emergency_def split: sum.splits option.splits)
  have "tb_First EmergencyMuteSingletonID t' = Inr row'" by (simp add: t' tb_First_def tb_Save_def)
  then have "fst (emergency_Match (emergency_tick (aj_decode_ints A) (tb_First EmergencyMuteSingletonID t') holder) (Some ev) now) \<longleftrightarrow>
       eq_Enabled req = 1 \<and> (eq_ExpireAt req = 0 \<or> Unix now \<le> eq_ExpireAt req)
       \<and> \<not> scope_excludes (eq_DatasourceIds req) (ev_DatasourceId ev) \<and> \<not> scope_excludes (eq_GroupIds req) (ev_GroupId ev)"
    using exp by (auto simp: emergency_tick_def loadEmergencyMute_def emergency_Set_def FromModel_def emergency_Match_def row'
        ints_back [OF assms(1) ds] ints_back [OF assms(1) gs])
  moreover have "\<exists>entry. logs' = logs @ [entry] \<and> al_Username entry = currentUsername c \<and> al_TargetId entry = EmergencyMuteSingletonID"
    using assms(4,5) by (auto simp: emergencyMutePut_def Let_def ok audit_Write_def audit_row_def extractTargetID_def idFrom_def EmergencyMuteSingletonID_def
        split: sum.splits option.splits)
  ultimately show ?thesis by (simp add: t' tb_Save_def)
qed

text \<open>The first PUT passes a nil pointer in an interface as the snapshot before it: the log does not show an empty text then, but the
  encoding of the nil pointer.\<close>

lemma first_put_before:
  assumes "emergencyMutePut A c req (t, logs) = (Inr row, t', logs')" "mget (tb_rows t) EmergencyMuteSingletonID = None" "ca_audit c = None"
  shows "\<exists>entry. logs' = logs @ [entry] \<and> al_Before entry = aj_emergency A None"
  using assms by (auto simp: emergencyMutePut_def getEmergencyMute_def Let_def audit_Write_def audit_row_def encodeSnapshot_def split: option.splits)

section \<open>The audit log tells the table\<close>

datatype 'req api_op = ReqCreate caller 'req | ReqUpdate caller int 'req | ReqDelete caller int

primrec api_exec ::
  "(caller \<Rightarrow> 'req \<Rightarrow> 'st \<Rightarrow> 'a \<times> 'st) \<Rightarrow> (caller \<Rightarrow> int \<Rightarrow> 'req \<Rightarrow> 'st \<Rightarrow> 'a \<times> 'st) \<Rightarrow> (caller \<Rightarrow> int \<Rightarrow> 'st \<Rightarrow> 'b \<times> 'st) \<Rightarrow>
   'req api_op \<Rightarrow> 'st \<Rightarrow> 'st" where
  "api_exec create update delete (ReqCreate c req) st = snd (create c req st)"
| "api_exec create update delete (ReqUpdate c i req) st = snd (update c i req st)"
| "api_exec create update delete (ReqDelete c i) st = snd (delete c i st)"

primrec op_caller :: "'req api_op \<Rightarrow> caller" where
  "op_caller (ReqCreate c req) = c"
| "op_caller (ReqUpdate c i req) = c"
| "op_caller (ReqDelete c i) = c"

definition op_ok :: "('req \<Rightarrow> bool) \<Rightarrow> 'req api_op \<Rightarrow> bool" where
  "op_ok req_ok op \<longleftrightarrow> ca_audit (op_caller op) = None
     \<and> (case op of ReqCreate c req \<Rightarrow> req_ok req | ReqUpdate c i req \<Rightarrow> req_ok req | ReqDelete c i \<Rightarrow> True)"

text \<open>Reading the log: the snapshots of the rows of one kind, as its entries leave them.\<close>

definition replay_entry :: "string \<Rightarrow> CustomAuditLog \<Rightarrow> (int, string) gomap \<Rightarrow> (int, string) gomap" where
  "replay_entry target e m =
     (if al_Target e \<noteq> target then m
      else if al_Action e = ''delete'' then mdel (al_TargetId e) m
      else mput (al_TargetId e) (al_After e) m)"

definition replay :: "string \<Rightarrow> CustomAuditLog list \<Rightarrow> (int, string) gomap" where
  "replay target logs = fold (replay_entry target) logs []"

definition put_entry :: "string \<Rightarrow> int \<Rightarrow> string \<Rightarrow> CustomAuditLog \<Rightarrow> bool" where
  "put_entry target i snap e \<longleftrightarrow> al_Target e = target \<and> al_Action e \<noteq> ''delete'' \<and> al_TargetId e = i \<and> al_After e = snap"

definition delete_entry :: "string \<Rightarrow> int \<Rightarrow> CustomAuditLog \<Rightarrow> bool" where
  "delete_entry target i e \<longleftrightarrow> al_Target e = target \<and> al_Action e = ''delete'' \<and> al_TargetId e = i"

text \<open>A table whose rows are kept under their own, positive ids, all of them used up.\<close>

definition tb_ok :: "('r \<Rightarrow> int) \<Rightarrow> 'r table \<Rightarrow> bool" where
  "tb_ok id_of t \<longleftrightarrow> 0 < tb_next t \<and> (\<forall>i r. mget (tb_rows t) i = Some r \<longrightarrow> 0 < i \<and> i < tb_next t \<and> id_of r = i)"

definition audited :: "string \<Rightarrow> ('r \<Rightarrow> int) \<Rightarrow> ('r \<Rightarrow> string) \<Rightarrow> 'r table \<times> CustomAuditLog list \<Rightarrow> bool" where
  "audited target id_of snap st \<longleftrightarrow> tb_ok id_of (fst st)
     \<and> (\<forall>i. mget (replay target (snd st)) i = map_option snap (mget (tb_rows (fst st)) i))"

lemma replay_put: "put_entry target i text e \<Longrightarrow> mget (replay target (logs @ [e])) j = (if j = i then Some text else mget (replay target logs) j)"
  by (simp add: replay_def replay_entry_def put_entry_def)

lemma replay_delete: "delete_entry target i e \<Longrightarrow> mget (replay target (logs @ [e])) j = (if j = i then None else mget (replay target logs) j)"
  by (simp add: replay_def replay_entry_def delete_entry_def)

text \<open>The contract of the handlers of one kind of rule: a request changes nothing, or it changes the table and adds the entry that
  says so.\<close>

locale rule_api =
  fixes create :: "caller \<Rightarrow> 'req \<Rightarrow> 'r table \<times> CustomAuditLog list \<Rightarrow> (string + 'r) \<times> 'r table \<times> CustomAuditLog list"
    and update :: "caller \<Rightarrow> int \<Rightarrow> 'req \<Rightarrow> 'r table \<times> CustomAuditLog list \<Rightarrow> (string + 'r) \<times> 'r table \<times> CustomAuditLog list"
    and delete :: "caller \<Rightarrow> int \<Rightarrow> 'r table \<times> CustomAuditLog list \<Rightarrow> (string + int) \<times> 'r table \<times> CustomAuditLog list"
    and target :: string and id_of :: "'r \<Rightarrow> int" and snap :: "'r \<Rightarrow> string" and req_ok :: "'req \<Rightarrow> bool"
  assumes create_law: "\<lbrakk>ca_audit c = None; req_ok req; tb_ok id_of t\<rbrakk> \<Longrightarrow> snd (create c req (t, logs)) = (t, logs)
      \<or> (\<exists>row e. snd (create c req (t, logs)) = (tb_Create row t, logs @ [e]) \<and> id_of row = tb_next t \<and> put_entry target (tb_next t) (snap row) e)"
    and update_law: "\<lbrakk>ca_audit c = None; req_ok req; tb_ok id_of t\<rbrakk> \<Longrightarrow> snd (update c i req (t, logs)) = (t, logs)
      \<or> (\<exists>row e. snd (update c i req (t, logs)) = (tb_Save i row t, logs @ [e]) \<and> mget (tb_rows t) i \<noteq> None \<and> id_of row = i
           \<and> put_entry target i (snap row) e)"
    and delete_law: "\<lbrakk>ca_audit c = None; tb_ok id_of t\<rbrakk> \<Longrightarrow> snd (delete c i (t, logs)) = (t, logs)
      \<or> (\<exists>e. snd (delete c i (t, logs)) = (tb_Delete i t, logs @ [e]) \<and> delete_entry target i e)"
begin

lemma created:
  assumes "audited target id_of snap (t, logs)" "id_of row = tb_next t" "put_entry target (tb_next t) (snap row) e"
  shows "audited target id_of snap (tb_Create row t, logs @ [e])"
proof -
  have ok: "0 < tb_next t" "\<And>i r. mget (tb_rows t) i = Some r \<Longrightarrow> 0 < i \<and> i < tb_next t \<and> id_of r = i" using assms(1) by (auto simp: audited_def tb_ok_def)
  then have "mget (tb_rows t) (tb_next t) = None" by (metis less_irrefl option.exhaust)
  then have get: "mget (tb_rows (tb_Create row t)) i = (if i = tb_next t then Some row else mget (tb_rows t) i)" for i
    by (auto simp: tb_Create_def map_add_def split: option.split)
  have "0 < i \<and> i < tb_next t + 1 \<and> id_of r = i" if "mget (tb_rows (tb_Create row t)) i = Some r" for i r
    using that ok(1) ok(2) [of i r] assms(2) by (auto simp: get split: if_splits)
  then have "tb_ok id_of (tb_Create row t)" using ok(1) by (simp add: tb_ok_def tb_Create_def)
  with assms(1) show ?thesis by (simp add: audited_def get replay_put [OF assms(3)])
qed

lemma updated:
  assumes "audited target id_of snap (t, logs)" "mget (tb_rows t) i \<noteq> None" "id_of row = i" "put_entry target i (snap row) e"
  shows "audited target id_of snap (tb_Save i row t, logs @ [e])"
proof -
  have "tb_ok id_of (tb_Save i row t)" using assms(1-3) by (auto simp: audited_def tb_ok_def tb_Save_def)
  with assms(1) show ?thesis by (simp add: audited_def replay_put [OF assms(4)] tb_Save_def)
qed

lemma deleted:
  assumes "audited target id_of snap (t, logs)" "delete_entry target i e"
  shows "audited target id_of snap (tb_Delete i t, logs @ [e])"
proof -
  have "tb_ok id_of (tb_Delete i t)" using assms(1) by (auto simp: audited_def tb_ok_def tb_Delete_def split: if_splits)
  with assms(1) show ?thesis by (simp add: audited_def replay_delete [OF assms(2)] tb_Delete_def)
qed

lemma exec_audited:
  assumes "audited target id_of snap st" "op_ok req_ok op"
  shows "audited target id_of snap (api_exec create update delete op st)"
proof -
  obtain t logs where st: "st = (t, logs)" by fastforce
  have ok: "tb_ok id_of t" using assms(1) by (simp add: audited_def st)
  show ?thesis
  proof (cases op)
    case (ReqCreate c req)
    then show ?thesis using create_law [OF _ _ ok, of c req logs] created [OF assms(1) [unfolded st]] assms by (auto simp: st op_ok_def)
  next
    case (ReqUpdate c i req)
    then show ?thesis using update_law [OF _ _ ok, of c req i logs] updated [OF assms(1) [unfolded st]] assms by (auto simp: st op_ok_def)
  next
    case (ReqDelete c i)
    then show ?thesis using delete_law [OF _ ok, of c i logs] deleted [OF assms(1) [unfolded st]] assms by (auto simp: st op_ok_def)
  qed
qed

lemma run_audited:
  assumes "audited target id_of snap st" "\<forall>op \<in> set ops. op_ok req_ok op"
  shows "audited target id_of snap (fold (api_exec create update delete) ops st)"
  using assms by (induction ops arbitrary: st) (simp_all add: exec_audited)

end

section \<open>The handlers keep the contract\<close>

text \<open>A request that is decoded as \<^verbatim>\<open>encoding/json\<close> promises; the label names of an inhibit rule, which are text, are taken to come back.\<close>

definition muteCron_ok :: "api_json \<Rightarrow> muteCronWriteReq \<Rightarrow> bool" where
  "muteCron_ok A req \<longleftrightarrow> json_lists A \<and> (\<forall>i \<in> set (mq_DatasourceIds req) \<union> set (mq_Severities req). is_int64 i)"

definition muteCron_snap :: "api_json \<Rightarrow> CustomMuteCron \<Rightarrow> string" where
  "muteCron_snap A r = aj_cron A (Some (hydrate_muteCron A r))"

lemma muteCron_snap_stored:
  assumes "muteCron_ok A req"
  shows "muteCron_snap A (stored_muteCron (muteCron_toModel A req now user\<lparr>mc_Id := i\<rparr>)) = aj_cron A (Some (muteCron_toModel A req now user\<lparr>mc_Id := i\<rparr>))"
    and "muteCron_snap A (stored_muteCron (muteCron_toModel A req now user\<lparr>mc_Id := i, mc_CreateBy := author, mc_CreateAt := since\<rparr>))
           = aj_cron A (Some (muteCron_toModel A req now user\<lparr>mc_Id := i, mc_CreateBy := author, mc_CreateAt := since\<rparr>))"
  using assms by (simp_all add: muteCron_snap_def hydrate_muteCron_def stored_muteCron_def muteCron_toModel_def muteCron_ok_def ints_back)

definition inhibitRule_ok :: "api_json \<Rightarrow> inhibitRuleWriteReq \<Rightarrow> bool" where
  "inhibitRule_ok A req \<longleftrightarrow> json_lists A \<and> (\<forall>i \<in> set (iq_DatasourceIds req). is_int64 i)
     \<and> iq_EqualLabels req = decodeJSONStringList A (encode_strings A (iq_EqualLabels req))"

definition inhibitRule_snap :: "api_json \<Rightarrow> CustomInhibitRule \<Rightarrow> string" where
  "inhibitRule_snap A r = aj_inhibit A (Some (hydrate_inhibitRule A r))"

lemma inhibitRule_snap_stored:
  assumes "inhibitRule_ok A req"
  shows "inhibitRule_snap A (stored_inhibitRule (inhibitRule_toModel A req now user\<lparr>ir_Id := i\<rparr>)) = aj_inhibit A (Some (inhibitRule_toModel A req now user\<lparr>ir_Id := i\<rparr>))"
    and "inhibitRule_snap A (stored_inhibitRule (inhibitRule_toModel A req now user\<lparr>ir_Id := i, ir_CreateBy := author, ir_CreateAt := since\<rparr>))
           = aj_inhibit A (Some (inhibitRule_toModel A req now user\<lparr>ir_Id := i, ir_CreateBy := author, ir_CreateAt := since\<rparr>))"
  using assms by (simp_all add: inhibitRule_snap_def hydrate_inhibitRule_def stored_inhibitRule_def inhibitRule_toModel_def inhibitRule_ok_def ints_back)

definition aggregateRule_ok :: "api_json \<Rightarrow> aggregateRuleWriteReq \<Rightarrow> bool" where
  "aggregateRule_ok A req \<longleftrightarrow> json_lists A \<and> (\<forall>i \<in> set (gq_DatasourceIds req) \<union> set (gq_Severities req). is_int64 i)"

definition aggregateRule_snap :: "api_json \<Rightarrow> CustomAggregateRule \<Rightarrow> string" where
  "aggregateRule_snap A r = aj_aggregate A (Some (hydrate_aggregateRule A r))"

lemma aggregateRule_snap_stored:
  assumes "aggregateRule_ok A req"
  shows "aggregateRule_snap A (stored_aggregateRule (aggregateRule_toModel A req now user\<lparr>gr_Id := i\<rparr>)) = aj_aggregate A (Some (aggregateRule_toModel A req now user\<lparr>gr_Id := i\<rparr>))"
    and "aggregateRule_snap A (stored_aggregateRule (aggregateRule_toModel A req now user\<lparr>gr_Id := i, gr_CreateBy := author, gr_CreateAt := since\<rparr>))
           = aj_aggregate A (Some (aggregateRule_toModel A req now user\<lparr>gr_Id := i, gr_CreateBy := author, gr_CreateAt := since\<rparr>))"
  using assms by (simp_all add: aggregateRule_snap_def hydrate_aggregateRule_def stored_aggregateRule_def aggregateRule_toModel_def aggregateRule_ok_def ints_back)

lemma aggregateRule_ok_validate: "aggregateRule_validate req = Inr req' \<Longrightarrow> aggregateRule_ok A req \<Longrightarrow> aggregateRule_ok A req'"
  by (auto simp: aggregateRule_validate_def aggregateRule_ok_def Let_def split: if_splits)

lemmas entry_defs = audit_row_def put_entry_def delete_entry_def extractTargetID_def idFrom_def encodeSnapshot_def

lemma tb_First_Inr: "tb_First i t = Inr r \<Longrightarrow> tb_ok id_of t \<Longrightarrow> mget (tb_rows t) i = Some r \<and> 0 < i \<and> id_of r = i"
  by (auto simp: tb_First_def tb_ok_def split: option.splits)

lemma muteCronCreate_law:
  assumes h: "ca_audit c = None" "muteCron_ok A req" "tb_ok mc_Id t"
  shows "snd (muteCronCreate A C c req (t, logs)) = (t, logs)
      \<or> (\<exists>row e. snd (muteCronCreate A C c req (t, logs)) = (tb_Create row t, logs @ [e]) \<and> mc_Id row = tb_next t
           \<and> put_entry ''mute_cron'' (tb_next t) (muteCron_snap A row) e)"
proof (cases "snd (muteCronCreate A C c req (t, logs)) = (t, logs)")
  case w: False
  have v: "muteCron_validate A C req = None" using w by (cases "muteCron_validate A C req") (auto simp: muteCronCreate_def split: sum.splits)
  have r: "muteCron_ok A req" by (rule h(2))
  have n: "ca_write c = None" using w v by (auto simp: muteCronCreate_def Let_def split: option.splits)
  let ?row = "muteCron_toModel A req (ca_now c) (currentUsername c)\<lparr>mc_Id := tb_next t\<rparr>"
  have run: "snd (muteCronCreate A C c req (t, logs)) = (tb_Create (stored_muteCron ?row) t,
      logs @ [audit_row (aj_cron A) mc_Id c ''create'' ''mute_cron'' NoSnapshot (Snapshot (Some ?row))])"
    by (simp add: muteCronCreate_def v n h(1) Let_def audit_Write_def)
  have o: "0 < tb_next t" using h(3) by (simp add: tb_ok_def)
  show ?thesis
    by (intro disjI2 exI conjI, rule run) (use o in \<open>simp_all add: entry_defs muteCron_snap_stored [OF r]\<close>, simp_all add: stored_muteCron_def)
qed simp

lemma muteCronUpdate_law:
  assumes h: "ca_audit c = None" "muteCron_ok A req" "tb_ok mc_Id t"
  shows "snd (muteCronUpdate A C c i req (t, logs)) = (t, logs)
      \<or> (\<exists>row e. snd (muteCronUpdate A C c i req (t, logs)) = (tb_Save i row t, logs @ [e]) \<and> mget (tb_rows t) i \<noteq> None \<and> mc_Id row = i
           \<and> put_entry ''mute_cron'' i (muteCron_snap A row) e)"
proof (cases "snd (muteCronUpdate A C c i req (t, logs)) = (t, logs)")
  case w: False
  obtain old where g: "get_muteCron c i t = Inr old" using w by (cases "get_muteCron c i t") (auto simp: muteCronUpdate_def)
  then have o: "mget (tb_rows t) i = Some old \<and> 0 < i \<and> mc_Id old = i"
    by (intro tb_First_Inr [OF _ h(3)]) (simp add: get_muteCron_def split: option.splits)
  have v: "muteCron_validate A C req = None" using w by (cases "muteCron_validate A C req") (auto simp: muteCronUpdate_def split: sum.splits)
  have r: "muteCron_ok A req" by (rule h(2))
  have n: "ca_write c = None" using w v g by (auto simp: muteCronUpdate_def Let_def split: option.splits)
  let ?row = "muteCron_toModel A req (ca_now c) (currentUsername c)\<lparr>mc_Id := i, mc_CreateBy := mc_CreateBy old, mc_CreateAt := mc_CreateAt old\<rparr>"
  have run: "snd (muteCronUpdate A C c i req (t, logs)) = (tb_Save i (stored_muteCron ?row) t,
      logs @ [audit_row (aj_cron A) mc_Id c ''update'' ''mute_cron'' (Snapshot (Some old)) (Snapshot (Some ?row))])"
    by (simp add: muteCronUpdate_def v n g h(1) Let_def audit_Write_def)
  show ?thesis
    by (intro disjI2 exI conjI, rule run) (use o in \<open>simp_all add: entry_defs muteCron_snap_stored [OF r]\<close>, simp_all add: stored_muteCron_def)
qed simp

lemma muteCronDelete_law:
  assumes h: "ca_audit c = None" "tb_ok mc_Id t"
  shows "snd (muteCronDelete A c i (t, logs)) = (t, logs)
      \<or> (\<exists>e. snd (muteCronDelete A c i (t, logs)) = (tb_Delete i t, logs @ [e]) \<and> delete_entry ''mute_cron'' i e)"
proof (cases "snd (muteCronDelete A c i (t, logs)) = (t, logs)")
  case w: False
  obtain old where g: "get_muteCron c i t = Inr old" using w by (cases "get_muteCron c i t") (auto simp: muteCronDelete_def)
  then have o: "mget (tb_rows t) i = Some old \<and> 0 < i \<and> mc_Id old = i"
    by (intro tb_First_Inr [OF _ h(2)]) (simp add: get_muteCron_def split: option.splits)
  have n: "ca_write c = None" using w g by (auto simp: muteCronDelete_def split: option.splits)
  show ?thesis using o by (simp add: muteCronDelete_def n g h(1) audit_Write_def entry_defs)
qed simp

interpretation muteCron_api: rule_api "muteCronCreate A C" "muteCronUpdate A C" "muteCronDelete A" "''mute_cron''" mc_Id "muteCron_snap A" "muteCron_ok A"
  by unfold_locales (rule muteCronCreate_law muteCronUpdate_law muteCronDelete_law; assumption)+

lemma inhibitRuleCreate_law:
  assumes h: "ca_audit c = None" "inhibitRule_ok A req" "tb_ok ir_Id t"
  shows "snd (inhibitRuleCreate A c req (t, logs)) = (t, logs)
      \<or> (\<exists>row e. snd (inhibitRuleCreate A c req (t, logs)) = (tb_Create row t, logs @ [e]) \<and> ir_Id row = tb_next t
           \<and> put_entry ''inhibit_rule'' (tb_next t) (inhibitRule_snap A row) e)"
proof (cases "snd (inhibitRuleCreate A c req (t, logs)) = (t, logs)")
  case w: False
  have v: "inhibitRule_validate A req = None" using w by (cases "inhibitRule_validate A req") (auto simp: inhibitRuleCreate_def split: sum.splits)
  have r: "inhibitRule_ok A req" by (rule h(2))
  have n: "ca_write c = None" using w v by (auto simp: inhibitRuleCreate_def Let_def split: option.splits)
  let ?row = "inhibitRule_toModel A req (ca_now c) (currentUsername c)\<lparr>ir_Id := tb_next t\<rparr>"
  have run: "snd (inhibitRuleCreate A c req (t, logs)) = (tb_Create (stored_inhibitRule ?row) t,
      logs @ [audit_row (aj_inhibit A) ir_Id c ''create'' ''inhibit_rule'' NoSnapshot (Snapshot (Some ?row))])"
    by (simp add: inhibitRuleCreate_def v n h(1) Let_def audit_Write_def)
  have o: "0 < tb_next t" using h(3) by (simp add: tb_ok_def)
  show ?thesis
    by (intro disjI2 exI conjI, rule run) (use o in \<open>simp_all add: entry_defs inhibitRule_snap_stored [OF r]\<close>, simp_all add: stored_inhibitRule_def)
qed simp

lemma inhibitRuleUpdate_law:
  assumes h: "ca_audit c = None" "inhibitRule_ok A req" "tb_ok ir_Id t"
  shows "snd (inhibitRuleUpdate A c i req (t, logs)) = (t, logs)
      \<or> (\<exists>row e. snd (inhibitRuleUpdate A c i req (t, logs)) = (tb_Save i row t, logs @ [e]) \<and> mget (tb_rows t) i \<noteq> None \<and> ir_Id row = i
           \<and> put_entry ''inhibit_rule'' i (inhibitRule_snap A row) e)"
proof (cases "snd (inhibitRuleUpdate A c i req (t, logs)) = (t, logs)")
  case w: False
  obtain old where g: "get_inhibitRule c i t = Inr old" using w by (cases "get_inhibitRule c i t") (auto simp: inhibitRuleUpdate_def)
  then have o: "mget (tb_rows t) i = Some old \<and> 0 < i \<and> ir_Id old = i"
    by (intro tb_First_Inr [OF _ h(3)]) (simp add: get_inhibitRule_def split: option.splits)
  have v: "inhibitRule_validate A req = None" using w by (cases "inhibitRule_validate A req") (auto simp: inhibitRuleUpdate_def split: sum.splits)
  have r: "inhibitRule_ok A req" by (rule h(2))
  have n: "ca_write c = None" using w v g by (auto simp: inhibitRuleUpdate_def Let_def split: option.splits)
  let ?row = "inhibitRule_toModel A req (ca_now c) (currentUsername c)\<lparr>ir_Id := i, ir_CreateBy := ir_CreateBy old, ir_CreateAt := ir_CreateAt old\<rparr>"
  have run: "snd (inhibitRuleUpdate A c i req (t, logs)) = (tb_Save i (stored_inhibitRule ?row) t,
      logs @ [audit_row (aj_inhibit A) ir_Id c ''update'' ''inhibit_rule'' (Snapshot (Some old)) (Snapshot (Some ?row))])"
    by (simp add: inhibitRuleUpdate_def v n g h(1) Let_def audit_Write_def)
  show ?thesis
    by (intro disjI2 exI conjI, rule run) (use o in \<open>simp_all add: entry_defs inhibitRule_snap_stored [OF r]\<close>, simp_all add: stored_inhibitRule_def)
qed simp

lemma inhibitRuleDelete_law:
  assumes h: "ca_audit c = None" "tb_ok ir_Id t"
  shows "snd (inhibitRuleDelete A c i (t, logs)) = (t, logs)
      \<or> (\<exists>e. snd (inhibitRuleDelete A c i (t, logs)) = (tb_Delete i t, logs @ [e]) \<and> delete_entry ''inhibit_rule'' i e)"
proof (cases "snd (inhibitRuleDelete A c i (t, logs)) = (t, logs)")
  case w: False
  obtain old where g: "get_inhibitRule c i t = Inr old" using w by (cases "get_inhibitRule c i t") (auto simp: inhibitRuleDelete_def)
  then have o: "mget (tb_rows t) i = Some old \<and> 0 < i \<and> ir_Id old = i"
    by (intro tb_First_Inr [OF _ h(2)]) (simp add: get_inhibitRule_def split: option.splits)
  have n: "ca_write c = None" using w g by (auto simp: inhibitRuleDelete_def split: option.splits)
  show ?thesis using o by (simp add: inhibitRuleDelete_def n g h(1) audit_Write_def entry_defs)
qed simp

interpretation inhibitRule_api: rule_api "inhibitRuleCreate A" "inhibitRuleUpdate A" "inhibitRuleDelete A" "''inhibit_rule''" ir_Id "inhibitRule_snap A" "inhibitRule_ok A"
  by unfold_locales (rule inhibitRuleCreate_law inhibitRuleUpdate_law inhibitRuleDelete_law; assumption)+

lemma aggregateRuleCreate_law:
  assumes h: "ca_audit c = None" "aggregateRule_ok A req" "tb_ok gr_Id t"
  shows "snd (aggregateRuleCreate A c req (t, logs)) = (t, logs)
      \<or> (\<exists>row e. snd (aggregateRuleCreate A c req (t, logs)) = (tb_Create row t, logs @ [e]) \<and> gr_Id row = tb_next t
           \<and> put_entry ''aggregate_rule'' (tb_next t) (aggregateRule_snap A row) e)"
proof (cases "snd (aggregateRuleCreate A c req (t, logs)) = (t, logs)")
  case w: False
  obtain req' where v: "aggregateRule_validate req = Inr req'" using w by (cases "aggregateRule_validate req") (auto simp: aggregateRuleCreate_def)
  have r: "aggregateRule_ok A req'" by (rule aggregateRule_ok_validate [OF v h(2)])
  have n: "ca_write c = None" using w v by (auto simp: aggregateRuleCreate_def Let_def split: option.splits)
  let ?row = "aggregateRule_toModel A req' (ca_now c) (currentUsername c)\<lparr>gr_Id := tb_next t\<rparr>"
  have run: "snd (aggregateRuleCreate A c req (t, logs)) = (tb_Create (stored_aggregateRule ?row) t,
      logs @ [audit_row (aj_aggregate A) gr_Id c ''create'' ''aggregate_rule'' NoSnapshot (Snapshot (Some ?row))])"
    by (simp add: aggregateRuleCreate_def v n h(1) Let_def audit_Write_def)
  have o: "0 < tb_next t" using h(3) by (simp add: tb_ok_def)
  show ?thesis
    by (intro disjI2 exI conjI, rule run) (use o in \<open>simp_all add: entry_defs aggregateRule_snap_stored [OF r]\<close>, simp_all add: stored_aggregateRule_def)
qed simp

lemma aggregateRuleUpdate_law:
  assumes h: "ca_audit c = None" "aggregateRule_ok A req" "tb_ok gr_Id t"
  shows "snd (aggregateRuleUpdate A c i req (t, logs)) = (t, logs)
      \<or> (\<exists>row e. snd (aggregateRuleUpdate A c i req (t, logs)) = (tb_Save i row t, logs @ [e]) \<and> mget (tb_rows t) i \<noteq> None \<and> gr_Id row = i
           \<and> put_entry ''aggregate_rule'' i (aggregateRule_snap A row) e)"
proof (cases "snd (aggregateRuleUpdate A c i req (t, logs)) = (t, logs)")
  case w: False
  obtain old where g: "get_aggregateRule c i t = Inr old" using w by (cases "get_aggregateRule c i t") (auto simp: aggregateRuleUpdate_def)
  then have o: "mget (tb_rows t) i = Some old \<and> 0 < i \<and> gr_Id old = i"
    by (intro tb_First_Inr [OF _ h(3)]) (simp add: get_aggregateRule_def split: option.splits)
  obtain req' where v: "aggregateRule_validate req = Inr req'" using w by (cases "aggregateRule_validate req") (auto simp: aggregateRuleUpdate_def split: sum.splits)
  have r: "aggregateRule_ok A req'" by (rule aggregateRule_ok_validate [OF v h(2)])
  have n: "ca_write c = None" using w v g by (auto simp: aggregateRuleUpdate_def Let_def split: option.splits)
  let ?row = "aggregateRule_toModel A req' (ca_now c) (currentUsername c)\<lparr>gr_Id := i, gr_CreateBy := gr_CreateBy old, gr_CreateAt := gr_CreateAt old\<rparr>"
  have run: "snd (aggregateRuleUpdate A c i req (t, logs)) = (tb_Save i (stored_aggregateRule ?row) t,
      logs @ [audit_row (aj_aggregate A) gr_Id c ''update'' ''aggregate_rule'' (Snapshot (Some old)) (Snapshot (Some ?row))])"
    by (simp add: aggregateRuleUpdate_def v n g h(1) Let_def audit_Write_def)
  show ?thesis
    by (intro disjI2 exI conjI, rule run) (use o in \<open>simp_all add: entry_defs aggregateRule_snap_stored [OF r]\<close>, simp_all add: stored_aggregateRule_def)
qed simp

lemma aggregateRuleDelete_law:
  assumes h: "ca_audit c = None" "tb_ok gr_Id t"
  shows "snd (aggregateRuleDelete A c i (t, logs)) = (t, logs)
      \<or> (\<exists>e. snd (aggregateRuleDelete A c i (t, logs)) = (tb_Delete i t, logs @ [e]) \<and> delete_entry ''aggregate_rule'' i e)"
proof (cases "snd (aggregateRuleDelete A c i (t, logs)) = (t, logs)")
  case w: False
  obtain old where g: "get_aggregateRule c i t = Inr old" using w by (cases "get_aggregateRule c i t") (auto simp: aggregateRuleDelete_def)
  then have o: "mget (tb_rows t) i = Some old \<and> 0 < i \<and> gr_Id old = i"
    by (intro tb_First_Inr [OF _ h(2)]) (simp add: get_aggregateRule_def split: option.splits)
  have n: "ca_write c = None" using w g by (auto simp: aggregateRuleDelete_def split: option.splits)
  show ?thesis using o by (simp add: aggregateRuleDelete_def n g h(1) audit_Write_def entry_defs)
qed simp

interpretation aggregateRule_api: rule_api "aggregateRuleCreate A" "aggregateRuleUpdate A" "aggregateRuleDelete A" "''aggregate_rule''" gr_Id "aggregateRule_snap A" "aggregateRule_ok A"
  by unfold_locales (rule aggregateRuleCreate_law aggregateRuleUpdate_law aggregateRuleDelete_law; assumption)+

definition new_table :: "'r table" where
  "new_table = \<lparr>tb_rows = [], tb_next = 1\<rparr>"

lemma audited_new: "audited target id_of snap (new_table, [])"
  by (simp add: audited_def tb_ok_def new_table_def replay_def)


section \<open>An accepted cron rule is served\<close>

lemma muteCronCreate_Inr:
  assumes "muteCronCreate A C c req (t, logs) = (Inr rule, t', logs')"
  shows "rule = (muteCron_toModel A req (ca_now c) (currentUsername c))\<lparr>mc_Id := tb_next t\<rparr>" "t' = tb_Create (stored_muteCron rule) t"
    "muteCron_validate A C req = None"
  using assms by (auto simp: muteCronCreate_def Let_def split: option.splits)

lemma validated_cron: "muteCron_validate A C req = None \<Longrightarrow> \<exists>cc. CompileCron C (mq_CronExpr req) (mq_Timezone req) (mq_DurationSec req) = Inr cc"
  by (auto simp: muteCron_validate_def split: if_splits sum.splits)

text \<open>(C29) A cron mute rule that is accepted and enabled is served after the next reload, if its tag filters can be decoded, and then
  mutes exactly the events of its group, data sources, severities and tags, while the window of the requested schedule,
  zone and duration is open. A rule whose filters are an array but cannot be decoded is accepted all the same, and the
  provider serves what it would serve without it.\<close>

theorem cron_request_served:
  assumes "json_lists A" "\<forall>i \<in> set (mq_DatasourceIds req) \<union> set (mq_Severities req). is_int64 i" "mq_Disabled req = 0"
    and "muteCronCreate A C c req (t, logs) = (Inr rule, t', logs')"
  shows "let served = (\<lambda>t. rf_Get (rf_tick (cron_load L C (aj_decode_ints A) (Inr (map snd (tb_rows t)))) rf))
         in case decodeTagFilters L (mc_Tags rule) of
              Inl err \<Rightarrow> served t' = served t
            | Inr filters \<Rightarrow>
                (\<exists>cr cc. served t' = served t @ [cr] \<and> CompileCron C (mq_CronExpr req) (mq_Timezone req) (mq_DurationSec req) = Inr cc
                 \<and> (\<forall>ev now. cron_Match cr (Some ev) now \<longleftrightarrow>
                      (mq_GroupId req = 0 \<or> mq_GroupId req = ev_GroupId ev) \<and> \<not> scope_excludes (mq_DatasourceIds req) (ev_DatasourceId ev)
                      \<and> (mq_Severities req = [] \<or> ev_Severity ev \<in> set (mq_Severities req))
                      \<and> (filters = [] \<or> mute_matchAllTagFilters (ev_TagsMap ev) filters) \<and> IsActive cc now))"
proof -
  note made = muteCronCreate_Inr [OF assms(4)]
  have ds: "\<forall>i \<in> set (mq_DatasourceIds req). is_int64 i" and sv: "\<forall>i \<in> set (mq_Severities req). is_int64 i" using assms(2) by auto
  obtain cc where cc: "CompileCron C (mq_CronExpr req) (mq_Timezone req) (mq_DurationSec req) = Inr cc" using validated_cron [OF made(3)] by blast
  let ?row = "stored_muteCron rule"
  let ?loaded = "?row\<lparr>mc_DatasourceIdsJson := mq_DatasourceIds req, mc_SeveritiesJson := mq_Severities req\<rparr>"
  have rows: "map snd (tb_rows t') = map snd (tb_rows t) @ [?row]" by (simp add: made(2) tb_Create_def)
  have fields: "mc_Disabled ?row = 0" "mc_Tags ?row = mc_Tags rule" "mc_GroupId ?row = mq_GroupId req"
    by (simp_all add: made(1) stored_muteCron_def muteCron_toModel_def assms(3))
  have comp: "compiled_cron L C (aj_decode_ints A) ?row = (case decodeTagFilters L (mc_Tags rule) of Inl err \<Rightarrow> None
      | Inr filters \<Rightarrow> Some \<lparr>ccr_Rule = ?loaded, ccr_Cron = cc, ccr_TagFilters = filters, ccr_DatasourceIds = mq_DatasourceIds req,
                             ccr_Severities = mq_Severities req\<rparr>)"
    by (simp add: compiled_cron_def CompileCronRule_def made(1) stored_muteCron_def muteCron_toModel_def ints_back [OF assms(1) ds]
        ints_back [OF assms(1) sv] cc split: sum.split)
  show ?thesis
  proof (cases "decodeTagFilters L (mc_Tags rule)")
    case (Inl err)
    then show ?thesis by (simp add: Let_def rf_Get_def rf_tick_def cron_load_def cron_rows_filter rows fields comp map_filter_def)
  next
    case (Inr filters)
    let ?cr = "\<lparr>ccr_Rule = ?loaded, ccr_Cron = cc, ccr_TagFilters = filters, ccr_DatasourceIds = mq_DatasourceIds req, ccr_Severities = mq_Severities req\<rparr>"
    have "cron_Match ?cr (Some ev) now \<longleftrightarrow>
        (mq_GroupId req = 0 \<or> mq_GroupId req = ev_GroupId ev) \<and> \<not> scope_excludes (mq_DatasourceIds req) (ev_DatasourceId ev)
        \<and> (mq_Severities req = [] \<or> ev_Severity ev \<in> set (mq_Severities req))
        \<and> (filters = [] \<or> mute_matchAllTagFilters (ev_TagsMap ev) filters) \<and> IsActive cc now" for ev now
      by (auto simp: cron_Match_def fields)
    then show ?thesis using cc
      by (simp add: Inr Let_def rf_Get_def rf_tick_def cron_load_def cron_rows_filter rows fields comp map_filter_def)
  qed
qed

section \<open>Examples\<close>

definition ints_text :: "int list \<Rightarrow> string" where
  "ints_text xs = ''['' @ Join '','' (map Itoa xs) @ '']''"

definition ints_of :: "string \<Rightarrow> string + int list" where
  "ints_of s = Inr (int_parts (splitOnAny (butlast (tl s)) '',''))"

definition small_json :: api_json where
  "small_json = \<lparr>aj_ints = ints_text, aj_strings = (\<lambda>xs. ''[]''), aj_decode_ints = ints_of, aj_decode_strings = (\<lambda>s. Inr []),
     aj_is_array = (\<lambda>s. hd s = CHR ''[''), aj_inhibit = (\<lambda>r. []),
     aj_cron = (\<lambda>r. case r of None \<Rightarrow> ''null'' | Some r \<Rightarrow> mc_Note r), aj_aggregate = (\<lambda>r. []), aj_emergency = (\<lambda>r. [])\<rparr>"

lemma ints_of_text: "\<forall>i \<in> set xs. is_int64 i \<Longrightarrow> ints_of (ints_text xs) = Inr xs"
proof (cases "xs = []")
  case True
  then show ?thesis by (simp add: ints_of_def ints_text_def splitOnAny_def)
next
  case False
  assume "\<forall>i \<in> set xs. is_int64 i"
  moreover have "splitOnAny (Join '','' (map Itoa xs)) '','' = map Itoa xs"
    using False Itoa_seps by (intro splitOnAny_Join) auto
  ultimately show ?thesis by (simp add: ints_of_def ints_text_def butlast_append int_parts_Itoa)
qed

lemma ints_text_trim: "TrimSpace (ints_text xs) = ints_text xs"
proof (rule TrimSpace_plain, rule ballI)
  fix c assume "c \<in> set (ints_text xs)"
  then consider "c = CHR ''[''" | "c = CHR '']''" | "c \<in> set (Join '','' (map Itoa xs))" by (auto simp: ints_text_def)
  then show "33 \<le> (of_char c :: nat) \<and> (of_char c :: nat) < 127"
  proof cases
    case 3
    then show ?thesis using ints_text_plain [of c xs] by linarith
  qed simp_all
qed

lemma json_lists_small: "json_lists small_json"
  by (simp add: json_lists_def small_json_def ints_of_text ints_text_trim) (simp add: ints_text_def)

definition operator :: caller where
  "operator = \<lparr>ca_username = Some ''root'', ca_ip = ''10.0.0.1'', ca_now = 100, ca_read = None, ca_write = None, ca_audit = None\<rparr>"

definition mute_db :: emergencyMutePutReq where
  "mute_db = \<lparr>eq_Enabled = 1, eq_Reason = ''db upgrade'', eq_ExpireAt = 500, eq_DatasourceIds = [3], eq_GroupIds = []\<rparr>"

theorem emergency_put_takes_effect_witness:
  "\<exists>t'. fst (snd (emergencyMutePut small_json operator mute_db (new_table, []))) = t'
     \<and> fst (emergency_Match (emergency_tick ints_of (tb_First EmergencyMuteSingletonID t') NewEmergencyHolder)
          (Some (zero_event\<lparr>ev_DatasourceId := 3\<rparr>)) (400 * Second))
     \<and> \<not> fst (emergency_Match (emergency_tick ints_of (tb_First EmergencyMuteSingletonID t') NewEmergencyHolder)
          (Some (zero_event\<lparr>ev_DatasourceId := 4\<rparr>)) (400 * Second))"
proof -
  obtain res t' logs' where run: "emergencyMutePut small_json operator mute_db (new_table, []) = (res, t', logs')" by (metis prod.exhaust)
  moreover obtain row where "res = Inr row"
    using run by (auto simp: emergencyMutePut_def emergency_validate_def getEmergencyMute_def operator_def mute_db_def Let_def)
  ultimately have put: "emergencyMutePut small_json operator mute_db (new_table, []) = (Inr row, t', logs')" by simp
  have pre: "\<forall>i \<in> set (eq_DatasourceIds mute_db) \<union> set (eq_GroupIds mute_db). is_int64 i" "0 \<le> ca_now operator" "ca_audit operator = None"
    by (simp_all add: mute_db_def operator_def is_int64_def int64_min_def int64_max_def)
  have ints: "aj_decode_ints small_json = ints_of" by (simp add: small_json_def)
  have "fst (emergency_Match (emergency_tick ints_of (tb_First EmergencyMuteSingletonID t') NewEmergencyHolder)
      (Some (zero_event\<lparr>ev_DatasourceId := d\<rparr>)) (400 * Second)) \<longleftrightarrow> \<not> scope_excludes [3] d" for d
    using emergency_put_takes_effect [OF json_lists_small pre put, of NewEmergencyHolder "zero_event\<lparr>ev_DatasourceId := d\<rparr>" "400 * Second"]
    by (simp add: ints mute_db_def scope_excludes_def Unix_def Second_def)
  from this [of 3] this [of 4] show ?thesis by (simp add: put scope_excludes_def)
qed

definition small_cron :: cron_lib where
  "small_cron = \<lparr>cron_Parse = (\<lambda>_. Inr every_hour), LoadLocation = (\<lambda>_. Inl ''zone''), time_Local = (\<lambda>_. 0)\<rparr>"

definition backup_window :: "string \<Rightarrow> muteCronWriteReq" where
  "backup_window note = \<lparr>mq_GroupId = 0, mq_Note = note, mq_CronExpr = ''0 * * * *'', mq_DurationSec = 600, mq_Timezone = [], mq_DatasourceIds = [3],
     mq_Severities = [], mq_Tags = [], mq_Disabled = 0\<rparr>"


theorem cron_request_served_witness:
  "\<exists>cr. rf_Get (rf_tick (cron_load (literal_lib\<lparr>json_filters := (\<lambda>_. Inr [])\<rparr>) small_cron ints_of
        (Inr (map snd (tb_rows (fst (snd (muteCronCreate small_json small_cron operator (backup_window ''a'') (new_table, []))))))))
        (rf_New ''cron'' 0)) = [cr]
     \<and> cron_Match cr (Some (zero_event\<lparr>ev_DatasourceId := 3\<rparr>)) (7500 * Second)"
proof -
  let ?L = "literal_lib\<lparr>json_filters := (\<lambda>_. Inr [])\<rparr>"
  obtain res t' logs' where run: "muteCronCreate small_json small_cron operator (backup_window ''a'') (new_table, []) = (res, t', logs')" by (metis prod.exhaust)
  have ok: "muteCron_validate small_json small_cron (backup_window ''a'') = None"
    by (simp add: muteCron_validate_def backup_window_def CompileCron_def small_cron_def)
  obtain row where "res = Inr row"
    using run by (auto simp: muteCronCreate_def ok operator_def Let_def)
  with run have made: "muteCronCreate small_json small_cron operator (backup_window ''a'') (new_table, []) = (Inr row, t', logs')" by simp
  have pre: "\<forall>i \<in> set (mq_DatasourceIds (backup_window ''a'')) \<union> set (mq_Severities (backup_window ''a'')). is_int64 i" "mq_Disabled (backup_window ''a'') = 0"
    by (simp_all add: backup_window_def is_int64_def int64_min_def int64_max_def)
  have tags: "decodeTagFilters ?L (mc_Tags row) = Inr []" by (simp add: decodeTagFilters_def ParseTagFilter_def)
  have act: "CompileCron small_cron ''0 * * * *'' [] 600 = Inr cc \<Longrightarrow> IsActive cc (7500 * Second)" for cc
  proof -
    assume "CompileCron small_cron ''0 * * * *'' [] 600 = Inr cc"
    then have "cc = hourly_window 600" by (simp add: CompileCron_def small_cron_def hourly_window_def)
    moreover have "IsActive (hourly_window 600) (7500 * Second)" by code_simp
    ultimately show "IsActive cc (7500 * Second)" by simp
  qed
  have ints: "aj_decode_ints small_json = ints_of" by (simp add: small_json_def)
  have "\<exists>cr. rf_Get (rf_tick (cron_load ?L small_cron ints_of (Inr (map snd (tb_rows t')))) (rf_New ''cron'' 0)) = [cr]
     \<and> cron_Match cr (Some (zero_event\<lparr>ev_DatasourceId := 3\<rparr>)) (7500 * Second)"
    using cron_request_served [OF json_lists_small pre made, of ?L "rf_New ''cron'' 0"] act
    by (auto simp: Let_def tags ints backup_window_def scope_excludes_def new_table_def rf_Get_def rf_tick_def cron_load_def)
  then show ?thesis by (simp add: made)
qed

end
