(* ===== verification/Processors.thy ===== *)
theory Processors
  imports Workflow Tag_Matchers
begin

text \<open>
  The processors of the workflow engine that decide or rewrite without leaving the process
  (\<^verbatim>\<open>alert/pipeline/processor\<close>): the conditions \<^verbatim>\<open>logic.if\<close> and \<^verbatim>\<open>logic.switch\<close>, \<^verbatim>\<open>event_drop\<close> and
  \<^verbatim>\<open>relabel\<close>. The settings of a node are taken as decoded into the configuration of the processor.

  Templates are the argument \<open>tp_Parse\<close>: a text either fails to parse or is a function of the context that
  fails or returns a text. A panic is \<open>None\<close>.
\<close>

record tpl_lib =
  tp_Parse :: "string \<Rightarrow> string + (WorkflowContext \<Rightarrow> string + string)"

definition tpl_defs :: string where
  "tpl_defs = ''{{ $event := .Event }}{{ $labels := .Event.TagsMap }}{{ $value := .Event.TriggerValue }}{{ $env := .Env }}''"

definition ToLower :: "string \<Rightarrow> string" where
  "ToLower s = map (\<lambda>c. if CHR ''A'' \<le> c \<and> c \<le> CHR ''Z'' then char_of (of_char c + 32 :: nat) else c) s"

section \<open>The fields of an event as attributes\<close>

text \<open>The fields with a JSON name, in the order of the struct. The encoders of the struct values are the
  argument \<open>J\<close>.\<close>

record json_lib =
  js_Target :: "Target option \<Rightarrow> string"
  js_RecoverConfig :: "int \<Rightarrow> string \<Rightarrow> string"

definition VTags :: "tags \<Rightarrow> gval" where
  "VTags m = VMap (map (\<lambda>(k, v). (k, VString v)) m)"

definition fmt_bool :: "bool \<Rightarrow> string" where
  "fmt_bool b = (if b then ''true'' else ''false'')"

definition JsonTagsAndValue :: "stdlib \<Rightarrow> json_lib \<Rightarrow> AlertCurEvent \<Rightarrow> tags" where
  "JsonTagsAndValue L J e =
     [(''id'', Itoa (ev_Id e)), (''cate'', ev_Cate e), (''cluster'', ev_Cluster e), (''datasource_id'', Itoa (ev_DatasourceId e)),
      (''group_id'', Itoa (ev_GroupId e)), (''group_name'', ev_GroupName e), (''hash'', ev_Hash e), (''rule_id'', Itoa (ev_RuleId e)),
      (''rule_name'', ev_RuleName e), (''rule_note'', ev_RuleNote e), (''rule_prod'', ev_RuleProd e), (''rule_algo'', ev_RuleAlgo e),
      (''severity'', Itoa (ev_Severity e)), (''prom_for_duration'', Itoa (ev_PromForDuration e)), (''prom_ql'', ev_PromQl e),
      (''rule_config'', json_marshal L (ev_RuleConfigJson e)), (''prom_eval_interval'', Itoa (ev_PromEvalInterval e)),
      (''callbacks'', json_marshal L (VStrings (ev_CallbacksJSON e))), (''runbook_url'', ev_RunbookUrl e),
      (''notify_recovered'', Itoa (ev_NotifyRecovered e)), (''notify_channels'', json_marshal L (VStrings (ev_NotifyChannelsJSON e))),
      (''notify_groups'', json_marshal L (VStrings (ev_NotifyGroupsJSON e))), (''notify_groups_obj'', json_marshal L (ev_NotifyGroupsObj e)),
      (''target_ident'', ev_TargetIdent e), (''target_note'', ev_TargetNote e), (''trigger_time'', Itoa (ev_TriggerTime e)),
      (''trigger_value'', ev_TriggerValue e), (''trigger_values'', ev_TriggerValues e),
      (''trigger_values_json'', json_marshal L (ev_TriggerValuesJson e)), (''tags'', json_marshal L (VStrings (ev_TagsJSON e))),
      (''tags_map'', json_marshal L (VTags (ev_TagsMap e))), (''original_tags'', json_marshal L (VStrings (ev_OriginalTagsJSON e))),
      (''annotations'', json_marshal L (VTags (ev_AnnotationsJSON e))), (''is_recovered'', fmt_bool (ev_IsRecovered e)),
      (''notify_users_obj'', json_marshal L (ev_NotifyUsersObj e)), (''last_eval_time'', Itoa (ev_LastEvalTime e)),
      (''last_sent_time'', Itoa (ev_LastSentTime e)), (''first_eval_time'', Itoa (ev_FirstEvalTime e)),
      (''notify_cur_number'', Itoa (ev_NotifyCurNumber e)), (''first_trigger_time'', Itoa (ev_FirstTriggerTime e)),
      (''extra_config'', json_marshal L (ev_ExtraConfig e)), (''status'', Itoa (ev_Status e)), (''claimant'', ev_Claimant e),
      (''sub_rule_id'', Itoa (ev_SubRuleId e)), (''extra_info'', json_marshal L (VStrings (ev_ExtraInfo e))),
      (''target'', js_Target J (ev_Target e)), (''recover_config'', js_RecoverConfig J (ev_JudgeType e) (ev_RecoverExp e)),
      (''rule_hash'', ev_RuleHash e), (''extra_info_map'', json_marshal L (ev_ExtraInfoMap e)),
      (''notify_rule_ids'', json_marshal L (VInts (ev_NotifyRuleIds e))), (''notify_rule_id'', Itoa (ev_NotifyRuleId e)),
      (''notify_rule_name'', ev_NotifyRuleName e), (''notify_version'', Itoa (ev_NotifyVersion e)),
      (''notify_rules'', json_marshal L (ev_NotifyRules e)), (''recover_time'', Itoa (ev_RecoverTime e))]"

section \<open>Conditions\<close>

definition ConditionModeExpression :: string where "ConditionModeExpression = ''expression''"
definition ConditionModeTags :: string where "ConditionModeTags = ''tags''"

text \<open>A copy of the filters in which an empty \<^verbatim>\<open>Func\<close> is replaced by \<^verbatim>\<open>Op\<close>.\<close>

definition default_func :: "TagFilter list \<Rightarrow> TagFilter list" where
  "default_func fs = map (\<lambda>f. if tf_Func f = [] then f\<lparr>tf_Func := tf_Op f\<rparr> else f) fs"

definition parsed_filters :: "stdlib \<Rightarrow> TagFilter list \<Rightarrow> string + TagFilter list" where
  "parsed_filters L fs = (if fs = [] then Inr [] else ParseTagFilter L (default_func fs))"

definition truthy :: "string \<Rightarrow> bool" where
  "truthy text = (let result = TrimSpace (ToLower text) in result = ''true'' \<or> result = ''1'')"

definition run_template :: "tpl_lib \<Rightarrow> string \<Rightarrow> WorkflowContext \<Rightarrow> string + string" where
  "run_template T content wfCtx =
     (case tp_Parse T (tpl_defs @ content) of
        Inl err \<Rightarrow> Inl err
      | Inr tpl \<Rightarrow> tpl wfCtx)"

definition match_parsed :: "stdlib \<Rightarrow> json_lib \<Rightarrow> TagFilter list \<Rightarrow> TagFilter list \<Rightarrow> AlertCurEvent option \<Rightarrow> bool option" where
  "match_parsed L J labelKeys attributes event = do {
     ev \<leftarrow> event;
     tags \<leftarrow> (if labelKeys = [] then Some True else MatchTags L (ev_TagsMap ev) labelKeys);
     if \<not> tags then Some False
     else if attributes = [] then Some True
     else MatchTags L (JsonTagsAndValue L J ev) attributes
   }"

section \<open>If\<close>

record IfConfig =
  if_Mode :: string
  if_Condition :: string
  if_LabelKeys :: "TagFilter list"
  if_Attributes :: "TagFilter list"
  if_parsedLabelKeys :: "TagFilter list"
  if_parsedAttributes :: "TagFilter list"

definition if_Init :: "stdlib \<Rightarrow> IfConfig \<Rightarrow> string + IfConfig" where
  "if_Init L result =
     (case parsed_filters L (if_LabelKeys result) of
        Inl err \<Rightarrow> Inl (''failed to parse label_keys: '' @ err)
      | Inr labelKeys \<Rightarrow>
          (case parsed_filters L (if_Attributes result) of
             Inl err \<Rightarrow> Inl (''failed to parse attributes: '' @ err)
           | Inr attributes \<Rightarrow> Inr (result\<lparr>if_parsedLabelKeys := labelKeys, if_parsedAttributes := attributes\<rparr>)))"

definition if_evaluateExpressionCondition :: "tpl_lib \<Rightarrow> IfConfig \<Rightarrow> WorkflowContext \<Rightarrow> string + bool" where
  "if_evaluateExpressionCondition T c wfCtx =
     (if if_Condition c = [] then Inr True
      else case run_template T (if_Condition c) wfCtx of Inl err \<Rightarrow> Inl err | Inr text \<Rightarrow> Inr (truthy text))"

definition if_evaluateTagsCondition :: "stdlib \<Rightarrow> json_lib \<Rightarrow> IfConfig \<Rightarrow> AlertCurEvent option \<Rightarrow> bool option" where
  "if_evaluateTagsCondition L J c event =
     (if if_parsedLabelKeys c = [] \<and> if_parsedAttributes c = [] then Some True
      else match_parsed L J (if_parsedLabelKeys c) (if_parsedAttributes c) event)"

definition if_evaluateCondition :: "stdlib \<Rightarrow> json_lib \<Rightarrow> tpl_lib \<Rightarrow> IfConfig \<Rightarrow> WorkflowContext \<Rightarrow> (string + bool) option" where
  "if_evaluateCondition L J T c wfCtx =
     (let mode = (if if_Mode c = [] then ConditionModeExpression else if_Mode c) in
      if mode = ConditionModeTags then map_option Inr (if_evaluateTagsCondition L J c (wc_Event wfCtx))
      else Some (if_evaluateExpressionCondition T c wfCtx))"

definition if_Process :: "stdlib \<Rightarrow> json_lib \<Rightarrow> tpl_lib \<Rightarrow> IfConfig \<Rightarrow> WorkflowContext \<Rightarrow> (string + returned \<times> string) option" where
  "if_Process L J T c wfCtx =
     (case if_evaluateCondition L J T c wfCtx of
        None \<Rightarrow> None
      | Some (Inl err) \<Rightarrow> Some (Inl (''if processor: failed to evaluate condition: '' @ err))
      | Some (Inr result) \<Rightarrow>
          Some (Inr (Same, if result then ''condition matched (true branch)'' else ''condition not matched (false branch)'')))"

definition branch_output :: "int \<Rightarrow> string \<Rightarrow> NodeOutput" where
  "branch_output i msg = \<lparr>no_WfCtx = Same, no_Message = msg, no_Terminate = False, no_BranchIndex = Some i,
     no_Stream = False, no_StreamChan = False\<rparr>"

definition if_ProcessWithBranch :: "stdlib \<Rightarrow> json_lib \<Rightarrow> tpl_lib \<Rightarrow> IfConfig \<Rightarrow> WorkflowContext \<Rightarrow> (string + NodeOutput option) option" where
  "if_ProcessWithBranch L J T c wfCtx =
     (case if_evaluateCondition L J T c wfCtx of
        None \<Rightarrow> None
      | Some (Inl err) \<Rightarrow> Some (Inl (''if processor: failed to evaluate condition: '' @ err))
      | Some (Inr result) \<Rightarrow>
          Some (Inr (Some (if result then branch_output 0 ''condition matched (true branch)''
                           else branch_output 1 ''condition not matched (false branch)''))))"

section \<open>Switch\<close>

record SwitchCase =
  sc_Mode :: string
  sc_Condition :: string
  sc_LabelKeys :: "TagFilter list"
  sc_Attributes :: "TagFilter list"
  sc_Name :: string
  sc_parsedLabelKeys :: "TagFilter list"
  sc_parsedAttributes :: "TagFilter list"

record SwitchConfig =
  sw_Cases :: "SwitchCase list"
  sw_AllowMultiple :: bool

fun init_cases :: "stdlib \<Rightarrow> nat \<Rightarrow> SwitchCase list \<Rightarrow> string + SwitchCase list" where
  "init_cases L i [] = Inr []"
| "init_cases L i (c # cs) =
     (case parsed_filters L (sc_LabelKeys c) of
        Inl err \<Rightarrow> Inl (''failed to parse label_keys for case['' @ Itoa (int i) @ '']: '' @ err)
      | Inr labelKeys \<Rightarrow>
          (case parsed_filters L (sc_Attributes c) of
             Inl err \<Rightarrow> Inl (''failed to parse attributes for case['' @ Itoa (int i) @ '']: '' @ err)
           | Inr attributes \<Rightarrow>
               (case init_cases L (Suc i) cs of
                  Inl err \<Rightarrow> Inl err
                | Inr rest \<Rightarrow> Inr (c\<lparr>sc_parsedLabelKeys := labelKeys, sc_parsedAttributes := attributes\<rparr> # rest))))"

definition switch_Init :: "stdlib \<Rightarrow> SwitchConfig \<Rightarrow> string + SwitchConfig" where
  "switch_Init L result =
     (case init_cases L 0 (sw_Cases result) of Inl err \<Rightarrow> Inl err | Inr cs \<Rightarrow> Inr (result\<lparr>sw_Cases := cs\<rparr>))"

definition switch_evaluateExpressionCondition :: "tpl_lib \<Rightarrow> string \<Rightarrow> WorkflowContext \<Rightarrow> string + bool" where
  "switch_evaluateExpressionCondition T condition wfCtx =
     (if condition = [] then Inr False
      else case run_template T condition wfCtx of Inl err \<Rightarrow> Inl err | Inr text \<Rightarrow> Inr (truthy text))"

definition switch_evaluateTagsCondition :: "stdlib \<Rightarrow> json_lib \<Rightarrow> SwitchCase \<Rightarrow> AlertCurEvent option \<Rightarrow> bool option" where
  "switch_evaluateTagsCondition L J caseItem event =
     (if sc_parsedLabelKeys caseItem = [] \<and> sc_parsedAttributes caseItem = [] then Some False
      else match_parsed L J (sc_parsedLabelKeys caseItem) (sc_parsedAttributes caseItem) event)"

definition evaluateCaseCondition :: "stdlib \<Rightarrow> json_lib \<Rightarrow> tpl_lib \<Rightarrow> SwitchCase \<Rightarrow> WorkflowContext \<Rightarrow> (string + bool) option" where
  "evaluateCaseCondition L J T caseItem wfCtx =
     (let mode = (if sc_Mode caseItem = [] then ConditionModeExpression else sc_Mode caseItem) in
      if mode = ConditionModeTags then map_option Inr (switch_evaluateTagsCondition L J caseItem (wc_Event wfCtx))
      else Some (switch_evaluateExpressionCondition T (sc_Condition caseItem) wfCtx))"

fun evaluate_cases :: "stdlib \<Rightarrow> json_lib \<Rightarrow> tpl_lib \<Rightarrow> WorkflowContext \<Rightarrow> nat \<Rightarrow> SwitchCase list \<Rightarrow> (string + int \<times> string) option" where
  "evaluate_cases L J T wfCtx i [] = Some (Inr (-1, []))"
| "evaluate_cases L J T wfCtx i (c # cs) =
     (case evaluateCaseCondition L J T c wfCtx of
        None \<Rightarrow> None
      | Some (Inl err) \<Rightarrow> Some (Inl (''case['' @ Itoa (int i) @ ''] evaluation error: '' @ err))
      | Some (Inr matched) \<Rightarrow> if matched then Some (Inr (int i, sc_Name c)) else evaluate_cases L J T wfCtx (Suc i) cs)"

definition evaluateCases :: "stdlib \<Rightarrow> json_lib \<Rightarrow> tpl_lib \<Rightarrow> SwitchConfig \<Rightarrow> WorkflowContext \<Rightarrow> (string + int \<times> string) option" where
  "evaluateCases L J T c wfCtx = evaluate_cases L J T wfCtx 0 (sw_Cases c)"

definition case_message :: "int \<Rightarrow> string \<Rightarrow> string" where
  "case_message index caseName =
     ''matched case['' @ Itoa index @ '']'' @ (if caseName \<noteq> [] then '': '' @ caseName else [])"

definition switch_Process :: "stdlib \<Rightarrow> json_lib \<Rightarrow> tpl_lib \<Rightarrow> SwitchConfig \<Rightarrow> WorkflowContext \<Rightarrow> (string + returned \<times> string) option" where
  "switch_Process L J T c wfCtx =
     (case evaluateCases L J T c wfCtx of
        None \<Rightarrow> None
      | Some (Inl err) \<Rightarrow> Some (Inl (''switch processor: failed to evaluate cases: '' @ err))
      | Some (Inr (index, caseName)) \<Rightarrow>
          Some (Inr (Same, if index \<ge> 0 then case_message index caseName else ''no case matched, using default branch'')))"

definition switch_ProcessWithBranch :: "stdlib \<Rightarrow> json_lib \<Rightarrow> tpl_lib \<Rightarrow> SwitchConfig \<Rightarrow> WorkflowContext \<Rightarrow> (string + NodeOutput option) option" where
  "switch_ProcessWithBranch L J T c wfCtx =
     (case evaluateCases L J T c wfCtx of
        None \<Rightarrow> None
      | Some (Inl err) \<Rightarrow> Some (Inl (''switch processor: failed to evaluate cases: '' @ err))
      | Some (Inr (index, caseName)) \<Rightarrow>
          Some (Inr (Some (if index \<ge> 0 then branch_output index (case_message index caseName)
                           else branch_output (int (length (sw_Cases c))) ''no case matched, using default branch''))))"

section \<open>Drop\<close>

record EventDropConfig =
  ed_Content :: string

definition drop_Process :: "tpl_lib \<Rightarrow> string \<Rightarrow> EventDropConfig \<Rightarrow> 's process" where
  "drop_Process T shown c wfCtx s =
     (case tp_Parse T (tpl_defs @ ed_Content c) of
        Inl err \<Rightarrow> (Inl (''processor failed to parse template: '' @ err @ '' processor: '' @ shown), wfCtx, s)
      | Inr tpl \<Rightarrow>
          (case tpl wfCtx of
             Inl err \<Rightarrow> (Inl (''processor failed to execute template: '' @ err @ '' processor: '' @ shown), wfCtx, s)
           | Inr body \<Rightarrow>
               if TrimSpace body = ''true''
               then (Inr (Same, ''drop event success''), wfCtx\<lparr>wc_Event := None\<rparr>, s)
               else (Inr (Same, ''drop event failed''), wfCtx, s)))"

section \<open>Relabel\<close>

definition REPLACE_DOT :: string where "REPLACE_DOT = ''___''"

definition ReplaceAll :: "string \<Rightarrow> string \<Rightarrow> string \<Rightarrow> string" where
  "ReplaceAll s old new = Join new (SplitStr old s)"

text \<open>A tag without an equals sign leaves the zero value in both slices.\<close>

definition tag_label :: "string \<Rightarrow> label" where
  "tag_label tag = (case SplitN2 CHR ''='' tag of [k, v] \<Rightarrow> (ReplaceAll k ''.'' REPLACE_DOT, v) | _ \<Rightarrow> ([], []))"

definition original_tag :: "string \<Rightarrow> string" where
  "original_tag tag = (if length (SplitN2 CHR ''='' tag) = 2 then tag else [])"

definition default_config :: "RelabelConfig \<Rightarrow> RelabelConfig" where
  "default_config c = c\<lparr>rc_Replacement := (if rc_Replacement c = [] then ''$1'' else rc_Replacement c),
     rc_Separator := (if rc_Separator c = [] then '';'' else rc_Separator c),
     rc_Regex := (if rc_Regex c = [] then ''(.*)'' else rc_Regex c)\<rparr>"

fun tags_loop :: "tags \<Rightarrow> label list \<Rightarrow> tags" where
  "tags_loop m [] = m"
| "tags_loop m ((name, v) # ls) = tags_loop (mput name v m) ls"

definition EventRelabel :: "relabel_lib \<Rightarrow> AlertCurEvent \<Rightarrow> RelabelConfig list \<Rightarrow> AlertCurEvent option" where
  "EventRelabel R event relabelConfigs =
     (case Process R (map tag_label (ev_TagsJSON event)) (map default_config relabelConfigs) of
        None \<Rightarrow> None
      | Some got \<Rightarrow>
          (let gotLabels = map (\<lambda>(name, v). (ReplaceAll name REPLACE_DOT ''.'', v)) (case got of None \<Rightarrow> [] | Some ls \<Rightarrow> ls);
               json = map (\<lambda>(name, v). name @ ''='' @ v) gotLabels
           in Some (event\<lparr>ev_OriginalTagsJSON := map original_tag (ev_TagsJSON event), ev_TagsJSON := json,
                          ev_TagsMap := tags_loop [] gotLabels, ev_Tags := Join '',,'' json\<rparr>)))"

definition relabel_Process :: "relabel_lib \<Rightarrow> RelabelConfig \<Rightarrow> WorkflowContext \<Rightarrow> (WorkflowContext \<times> string) option" where
  "relabel_Process R r wfCtx =
     (case wc_Event wfCtx of
        None \<Rightarrow> None
      | Some event \<Rightarrow>
          (case EventRelabel R event [r\<lparr>rc_SourceLabels := map (\<lambda>l. ReplaceAll l ''.'' REPLACE_DOT) (rc_SourceLabels r)\<rparr>] of
             None \<Rightarrow> None
           | Some event' \<Rightarrow> Some (wfCtx\<lparr>wc_Event := Some event'\<rparr>, [])))"

section \<open>Correctness of the conditions\<close>

text \<open>No filter is on the key target_group, on which the native matcher expects a list that
  only \<^verbatim>\<open>GetTagFilters\<close> builds.\<close>

definition plain_keys :: "TagFilter list \<Rightarrow> bool" where
  "plain_keys fs \<longleftrightarrow> (\<forall>f \<in> set fs. tf_Key f \<noteq> ''target_group'')"

lemma parsed_filters_total:
  assumes "parsed_filters L fs = Inr gs" "plain_keys fs"
  shows "MatchTags L m gs \<noteq> None"
proof (cases "fs = []")
  case True
  with assms(1) show ?thesis by (auto simp: parsed_filters_def)
next
  case False
  have "\<forall>f \<in> set (default_func fs). tf_Key f \<noteq> ''target_group''"
    using assms(2) by (auto simp: default_func_def plain_keys_def)
  with False assms(1) show ?thesis using parsed_filters_never_panic [of L "default_func fs" gs m] by (auto simp: parsed_filters_def)
qed

lemma match_parsed_total:
  assumes "parsed_filters L fs = Inr gs" "plain_keys fs" "parsed_filters L fs' = Inr gs'" "plain_keys fs'"
  shows "match_parsed L J gs gs' (Some ev) \<noteq> None"
  using parsed_filters_total [OF assms(1,2), of "ev_TagsMap ev"] parsed_filters_total [OF assms(3,4), of "JsonTagsAndValue L J ev"]
  by (auto simp: match_parsed_def)

lemma init_cases_parsed:
  "init_cases L i cs = Inr ds \<Longrightarrow> list_all2 (\<lambda>c d. parsed_filters L (sc_LabelKeys c) = Inr (sc_parsedLabelKeys d)
     \<and> parsed_filters L (sc_Attributes c) = Inr (sc_parsedAttributes d)) cs ds"
  by (induction L i cs arbitrary: ds rule: init_cases.induct) (auto split: sum.splits)


lemma evaluate_cases_first:
  assumes "\<forall>c \<in> set cs. \<exists>b. evaluateCaseCondition L J T c wfCtx = Some (Inr b)"
  shows "evaluate_cases L J T wfCtx i cs =
    (let n = length (takeWhile (\<lambda>c. evaluateCaseCondition L J T c wfCtx \<noteq> Some (Inr True)) cs)
     in Some (Inr (if n < length cs then (int (i + n), sc_Name (cs ! n)) else (-1, []))))"
  using assms
proof (induction cs arbitrary: i)
  case (Cons c cs)
  then obtain b where "evaluateCaseCondition L J T c wfCtx = Some (Inr b)" by auto
  with Cons show ?case by (cases b) (auto simp: Let_def)
qed simp

text \<open>A switch takes the branch of the first case that matches, and the default branch, whose index is the number
  of cases, when none does; this also holds when several branches are allowed, since \<^verbatim>\<open>AllowMultiple\<close> is never
  read.\<close>

theorem switch_takes_first:
  assumes "\<forall>c \<in> set (sw_Cases sw). \<exists>b. evaluateCaseCondition L J T c wfCtx = Some (Inr b)"
  shows "\<exists>msg. switch_ProcessWithBranch L J T sw wfCtx = Some (Inr (Some (branch_output
    (int (length (takeWhile (\<lambda>c. evaluateCaseCondition L J T c wfCtx \<noteq> Some (Inr True)) (sw_Cases sw)))) msg)))"
proof -
  let ?n = "length (takeWhile (\<lambda>c. evaluateCaseCondition L J T c wfCtx \<noteq> Some (Inr True)) (sw_Cases sw))"
  have "?n \<le> length (sw_Cases sw)" by (rule length_takeWhile_le)
  then show ?thesis
    by (cases "?n < length (sw_Cases sw)")
      (auto simp add: switch_ProcessWithBranch_def evaluateCases_def evaluate_cases_first [OF assms] Let_def)
qed

section \<open>Correctness of relabelling events\<close>

lemma Join_append_Cons: "Join sep (xs @ [x]) = (if xs = [] then x else Join sep xs @ sep @ x)"
  by (induction sep xs rule: Join.induct) simp_all

lemma SplitStr_not_Nil: "split_from sep acc s \<noteq> []"
  by (induction sep acc s rule: split_from.induct) auto

lemma Join_SplitStr: "Join [d] (split_from [d] acc s) = acc @ s"
proof (induction "[d]" acc s rule: split_from.induct)
  case (2 acc c cs)
  show ?case
  proof (cases "c = d")
    case True
    then show ?thesis using 2(1) SplitStr_not_Nil [of "[d]" "[]" cs]
      by (cases "split_from [d] [] cs") auto
  qed (use 2 in simp)
qed simp

lemma split_from_chars: "w \<in> set (split_from [d] acc s) \<Longrightarrow> set w \<subseteq> set acc \<union> set s"
proof (induction "[d]" acc s arbitrary: w rule: split_from.induct)
  case (2 acc c cs)
  then show ?case by (cases "c = d") fastforce+
qed simp

text \<open>The names of labels survive relabelling: the dots that are hidden from the regular expressions as three
  underscores come back, for every name without an underscore.\<close>

theorem dots_come_back:
  assumes "CHR ''='' \<notin> set k" "CHR ''_'' \<notin> set k"
  shows "(let (name, value) = tag_label (k @ ''='' @ v) in (ReplaceAll name REPLACE_DOT ''.'', value)) = (k, v)"
proof -
  have ws: "\<forall>w \<in> set (SplitStr ''.'' k). CHR ''_'' \<notin> set w"
    using split_from_chars [of _ "CHR ''.''" "[]" k] assms(2) by (fastforce simp: SplitStr_def)
  have "SplitStr ''.'' k \<noteq> []" by (simp add: SplitStr_def SplitStr_not_Nil)
  with ws have "SplitStr REPLACE_DOT (ReplaceAll k ''.'' REPLACE_DOT) = SplitStr ''.'' k"
    unfolding ReplaceAll_def REPLACE_DOT_def by (intro SplitStr_Join) auto
  then have "ReplaceAll (ReplaceAll k ''.'' REPLACE_DOT) REPLACE_DOT ''.'' = k"
    using Join_SplitStr [of "CHR ''.''" "[]" k] by (simp add: ReplaceAll_def [of "ReplaceAll k ''.'' REPLACE_DOT"] SplitStr_def)
  with SplitN2_pair [OF assms(1), of v] show ?thesis by (simp add: tag_label_def)
qed

text \<open>A name in which an underscore stands next to a dot, or three in a row, comes back as another name.\<close>

lemma underscore_dot_swapped:
  "ReplaceAll (ReplaceAll ''a_.b'' ''.'' REPLACE_DOT) REPLACE_DOT ''.'' = ''a._b''"
  "ReplaceAll (ReplaceAll ''a___b'' ''.'' REPLACE_DOT) REPLACE_DOT ''.'' = ''a.b''"
  by code_simp+

text \<open>A rule whose action drops the series leaves the event in the pipeline, without labels.\<close>

lemma relabel_drop_keeps_event:
  assumes "Process R (map tag_label (ev_TagsJSON e)) (map default_config rc) = Some None"
  shows "\<exists>e'. EventRelabel R e rc = Some e' \<and> ev_TagsJSON e' = [] \<and> ev_TagsMap e' = []"
  using assms by (simp add: EventRelabel_def)

text \<open>An example: a condition and a switch on the tag env, and a template that says whether the event is severe.\<close>

definition severity_tpl :: tpl_lib where
  "severity_tpl = \<lparr>tp_Parse = (\<lambda>text. Inr (\<lambda>wfCtx. case wc_Event wfCtx of None \<Rightarrow> Inl ''nil event''
     | Some ev \<Rightarrow> Inr (if ev_Severity ev = 1 then '' True '' else ''no'')))\<rparr>"

definition plain_json :: json_lib where
  "plain_json = \<lparr>js_Target = (\<lambda>t. ''{}''), js_RecoverConfig = (\<lambda>i e. ''{}'')\<rparr>"

definition env_if :: IfConfig where
  "env_if = \<lparr>if_Mode = ''tags'', if_Condition = [], if_LabelKeys = [raw_filter ''env'' ''=='' (VString ''prod'')], if_Attributes = [],
     if_parsedLabelKeys = [], if_parsedAttributes = []\<rparr>"

definition env_case :: "string \<Rightarrow> SwitchCase" where
  "env_case v = \<lparr>sc_Mode = ''tags'', sc_Condition = [], sc_LabelKeys = [raw_filter ''env'' ''=='' (VString v)], sc_Attributes = [],
     sc_Name = v, sc_parsedLabelKeys = [], sc_parsedAttributes = []\<rparr>"

definition severe_case :: SwitchCase where
  "severe_case = \<lparr>sc_Mode = [], sc_Condition = ''{{ eq $event.Severity 1 }}'', sc_LabelKeys = [], sc_Attributes = [],
     sc_Name = ''severe'', sc_parsedLabelKeys = [], sc_parsedAttributes = []\<rparr>"

definition env_switch :: SwitchConfig where
  "env_switch = \<lparr>sw_Cases = [env_case ''test'', severe_case, env_case ''prod''], sw_AllowMultiple = True\<rparr>"

definition prod_ctx :: WorkflowContext where
  "prod_ctx = small_ctx\<lparr>wc_Event := Some (zero_event\<lparr>ev_TagsMap := [(''env'', ''prod'')], ev_Severity := 1\<rparr>)\<rparr>"

definition ready_switch :: SwitchConfig where
  "ready_switch = (case switch_Init literal_lib env_switch of Inr sw \<Rightarrow> sw)"

definition ready_if :: IfConfig where
  "ready_if = (case if_Init literal_lib env_if of Inr c \<Rightarrow> c)"


definition severe_switch :: SwitchConfig where
  "severe_switch = \<lparr>sw_Cases = [severe_case\<lparr>sc_Condition := []\<rparr>, severe_case, severe_case], sw_AllowMultiple = True\<rparr>"

theorem switch_takes_first_witness:
  "\<exists>msg. switch_ProcessWithBranch literal_lib plain_json severity_tpl severe_switch prod_ctx = Some (Inr (Some (branch_output 1 msg)))"
proof -
  have ev: "evaluateCaseCondition literal_lib plain_json severity_tpl (severe_case\<lparr>sc_Condition := []\<rparr>) prod_ctx = Some (Inr False)"
    "evaluateCaseCondition literal_lib plain_json severity_tpl severe_case prod_ctx = Some (Inr True)"
    by code_simp+
  then have "\<forall>c \<in> set (sw_Cases severe_switch). \<exists>b. evaluateCaseCondition literal_lib plain_json severity_tpl c prod_ctx = Some (Inr b)"
    by (auto simp: severe_switch_def)
  from switch_takes_first [OF this] ev show ?thesis by (simp add: severe_switch_def)
qed

theorem dots_come_back_witness:
  "(let (name, value) = tag_label ''a.b.c=x=y'' in (ReplaceAll name REPLACE_DOT ''.'', value)) = (''a.b.c'', ''x=y'')"
  using dots_come_back [of "''a.b.c''" "''x=y''"] by simp

end
