(* ===== verification/Native_Mute.thy ===== *)
theory Native_Mute
  imports Alert_Event Tag_Matchers
begin

text \<open>
  The native mute rules: \<^verbatim>\<open>models.AlertMute\<close> with its time windows (\<^verbatim>\<open>models/alert_mute.go\<close>), the
  strategies of \<^verbatim>\<open>alert/mute/mute.go\<close> that decide whether an event is muted, and the cache of mute
  rules (\<^verbatim>\<open>memsto/alert_mute_cache.go\<close>) the decision reads. The cache is refreshed only when the
  statistics of its table change; the locale \<open>stat_cache\<close> states that contract.
\<close>

section \<open>Mute rules\<close>

record PeriodicMute =
  pm_EnableStime :: string
  pm_EnableEtime :: string
  pm_EnableDaysOfWeek :: string

record AlertMute =
  am_Id :: int
  am_GroupId :: int
  am_DatasourceIdsJson :: "int list"
  am_Tags :: string
  am_Btime :: int
  am_Etime :: int
  am_Disabled :: int
  am_UpdateAt :: int
  am_ITags :: "TagFilter list"
  am_MuteTimeType :: int
  am_PeriodicMutesJson :: "PeriodicMute list"
  am_SeveritiesJson :: "int list"

definition TimeRange :: int where "TimeRange = 0"
definition Periodic :: int where "Periodic = 1"

fun IsAllDatasource :: "int list \<Rightarrow> bool" where
  "IsAllDatasource [] = False"
| "IsAllDatasource (i # is) = (if i = 0 then True else IsAllDatasource is)"

definition am_Parse :: "stdlib \<Rightarrow> AlertMute \<Rightarrow> string + AlertMute" where
  "am_Parse L m =
     (case GetTagFilters L (am_Tags m) of Inl e \<Rightarrow> Inl e | Inr fs \<Rightarrow> Inr (m\<lparr>am_ITags := fs\<rparr>))"

definition am_Verify :: "stdlib \<Rightarrow> AlertMute \<Rightarrow> string + AlertMute" where
  "am_Verify L m =
     (if am_GroupId m < 0 then Inl ''group_id invalid''
      else let m' = (if IsAllDatasource (am_DatasourceIdsJson m) then m\<lparr>am_DatasourceIdsJson := [0]\<rparr> else m) in
        if am_Etime m' \<le> am_Btime m' then
          Inl (''oops... etime('' @ Itoa (am_Etime m') @ '') <= btime('' @ Itoa (am_Btime m') @ '')'')
        else am_Parse L m')"

definition IsWithinTimeRange :: "AlertMute \<Rightarrow> int \<Rightarrow> bool" where
  "IsWithinTimeRange m checkTime = (if checkTime < am_Btime m \<or> checkTime > am_Etime m then False else True)"

fun periodic_loop :: "string \<Rightarrow> string \<Rightarrow> PeriodicMute list \<Rightarrow> bool" where
  "periodic_loop triggerTime triggerWeek [] = False"
| "periodic_loop triggerTime triggerWeek (p # ps) =
     (if Contains (pm_EnableDaysOfWeek p) triggerWeek then
        (let s = pm_EnableStime p; e = pm_EnableEtime p in
         if s = e \<or> s = ''00:00'' \<and> e = ''23:59'' then True
         else if s < e then
           (if triggerTime \<ge> s \<and> triggerTime < e then True else periodic_loop triggerTime triggerWeek ps)
         else
           (if triggerTime \<ge> s \<or> triggerTime < e then True else periodic_loop triggerTime triggerWeek ps))
      else periodic_loop triggerTime triggerWeek ps)"

definition IsWithinPeriodicMute :: "zone \<Rightarrow> AlertMute \<Rightarrow> int \<Rightarrow> bool" where
  "IsWithinPeriodicMute z m checkTime =
     periodic_loop (Format_hm z checkTime) (Itoa (Weekday z checkTime)) (am_PeriodicMutesJson m)"

section \<open>The strategies of alert/mute\<close>

text \<open>One pass of the loop of \<^verbatim>\<open>TimeSpanMuteStrategy\<close> after the day has matched: whether the trigger time
  is in the span. \<^verbatim>\<open>NotifyRuleMatchCheck\<close> of dispatch has the same comparisons.\<close>

definition span_open :: "string \<Rightarrow> string \<Rightarrow> string \<Rightarrow> bool" where
  "span_open triggerTime s e =
     (if s < e then
        (if e = ''23:59'' then \<not> triggerTime < s
         else \<not> (triggerTime < s \<or> triggerTime \<ge> e))
      else if s > e then \<not> (triggerTime < s \<and> triggerTime \<ge> e)
      else True)"

fun span_loop :: "string \<Rightarrow> string \<Rightarrow> string list \<Rightarrow> string list \<Rightarrow> nat \<Rightarrow> string list \<Rightarrow> bool option" where
  "span_loop tt tw stimes etimes i [] = Some True"
| "span_loop tt tw stimes etimes i (d # ds) =
     (if \<not> Contains (replace_first CHR ''7'' CHR ''0'' d) tw then span_loop tt tw stimes etimes (Suc i) ds
      else do {
        s \<leftarrow> at_idx stimes i;
        e \<leftarrow> at_idx etimes i;
        if span_open tt s e then Some False else span_loop tt tw stimes etimes (Suc i) ds
      })"

definition TimeSpanMuteStrategy :: "zone \<Rightarrow> AlertRule \<Rightarrow> AlertCurEvent \<Rightarrow> bool option" where
  "TimeSpanMuteStrategy z rule event =
     (let triggerTime = Format_hm z (ev_TriggerTime event);
          triggerWeek = Itoa (Weekday z (ev_TriggerTime event)) in
      if ar_EnableDaysOfWeek rule = [] then Some False
      else span_loop triggerTime triggerWeek (Fields (ar_EnableStime rule)) (Fields (ar_EnableEtime rule)) 0
             (Split CHR '';'' (ar_EnableDaysOfWeek rule)))"

type_synonym target_cache = "(string, Target) gomap"
type_synonym mute_cache = "(int, AlertMute list) gomap"

definition IdentNotExistsMuteStrategy :: "AlertRule \<Rightarrow> AlertCurEvent \<Rightarrow> target_cache \<Rightarrow> bool" where
  "IdentNotExistsMuteStrategy rule event targets =
     (case mget (ev_TagsMap event) ''ident'' of
        None \<Rightarrow> False
      | Some ident \<Rightarrow>
          if mget targets ident = None \<and> Contains (ar_PromQl rule) ''target_up'' then True else False)"

definition BgNotMatchMuteStrategy :: "AlertRule \<Rightarrow> AlertCurEvent \<Rightarrow> target_cache \<Rightarrow> bool" where
  "BgNotMatchMuteStrategy rule event targets =
     (if ar_EnableInBG rule = 0 then False
      else case mget (ev_TagsMap event) ''ident'' of
        None \<Rightarrow> False
      | Some ident \<Rightarrow>
          (case mget targets ident of
             None \<Rightarrow> False
           | Some target \<Rightarrow> if \<not> MatchGroupId target [ar_GroupId rule] then True else False))"

fun severity_match :: "int \<Rightarrow> int list \<Rightarrow> bool" where
  "severity_match sev [] = False"
| "severity_match sev (s # ss) = (if sev = s \<or> s = 0 then True else severity_match sev ss)"

definition MatchMute ::
  "stdlib \<Rightarrow> zone \<Rightarrow> AlertCurEvent \<Rightarrow> AlertMute \<Rightarrow> int option \<Rightarrow> (string + unit) option" where
  "MatchMute L z event m clock =
     (if am_Disabled m = 1 then Some (Inl ''mute is disabled'')
      else if scope_excludes (am_DatasourceIdsJson m) (ev_DatasourceId event) then
        Some (Inl ''datasource id not match'')
      else
        let time_check =
          (if am_MuteTimeType m = TimeRange then
             (if \<not> IsWithinTimeRange m (ev_TriggerTime event)
              then Some ''event trigger time not within mute time range'' else None)
           else if am_MuteTimeType m = Periodic then
             (let ts = (case clock of None \<Rightarrow> ev_TriggerTime event | Some c \<Rightarrow> c) in
              if \<not> IsWithinPeriodicMute z m ts
              then Some ''event trigger time not within periodic mute range'' else None)
           else Some ''mute time type invalid'')
        in case time_check of
             Some err \<Rightarrow> Some (Inl err)
           | None \<Rightarrow>
               if am_SeveritiesJson m \<noteq> [] \<and> \<not> severity_match (ev_Severity event) (am_SeveritiesJson m)
               then Some (Inl ''event severity not match mute severity'')
               else if am_ITags m = [] then Some (Inr ())
               else do {
                 ok \<leftarrow> MatchTags L (ev_TagsMap event) (am_ITags m);
                 Some (if ok then Inr () else Inl ''event tags not match mute tags'')
               })"

fun mute_loop :: "stdlib \<Rightarrow> zone \<Rightarrow> AlertCurEvent \<Rightarrow> AlertMute list \<Rightarrow> (bool \<times> int) option" where
  "mute_loop L z event [] = Some (False, 0)"
| "mute_loop L z event (m # ms) = do {
     r \<leftarrow> MatchMute L z event m None;
     case r of Inr _ \<Rightarrow> Some (True, am_Id m) | Inl _ \<Rightarrow> mute_loop L z event ms
   }"

definition EventMuteStrategy :: "stdlib \<Rightarrow> zone \<Rightarrow> AlertCurEvent \<Rightarrow> mute_cache \<Rightarrow> (bool \<times> int) option" where
  "EventMuteStrategy L z event cache =
     (case mget cache (ev_GroupId event) of
        None \<Rightarrow> Some (False, 0)
      | Some mutes \<Rightarrow> if mutes = [] then Some (False, 0) else mute_loop L z event mutes)"

definition IsMuted ::
  "stdlib \<Rightarrow> zone \<Rightarrow> AlertRule \<Rightarrow> AlertCurEvent \<Rightarrow> target_cache \<Rightarrow> mute_cache \<Rightarrow> (bool \<times> string \<times> int) option" where
  "IsMuted L z rule event targets mutes =
     (if ar_Disabled rule = 1 then Some (True, ''rule disabled'', 0)
      else do {
        span \<leftarrow> TimeSpanMuteStrategy z rule event;
        if span then Some (True, ''rule is not effective for period of time'', 0)
        else if IdentNotExistsMuteStrategy rule event targets then Some (True, ''ident not exists mute'', 0)
        else if BgNotMatchMuteStrategy rule event targets then Some (True, ''bg not match mute'', 0)
        else do {
          (hit, muteId) \<leftarrow> EventMuteStrategy L z event mutes;
          Some (if hit then (True, ''match mute rule'', muteId) else (False, [], 0))
        }
      })"

section \<open>The cache of mute rules (memsto/alert\_mute\_cache.go)\<close>

record AlertMuteCache =
  amc_statTotal :: int
  amc_statLastUpdated :: int
  amc_mutes :: mute_cache

definition NewAlertMuteCache :: AlertMuteCache where
  "NewAlertMuteCache = \<lparr>amc_statTotal = -1, amc_statLastUpdated = -1, amc_mutes = []\<rparr>"

definition amc_StatChanged :: "AlertMuteCache \<Rightarrow> int \<Rightarrow> int \<Rightarrow> bool" where
  "amc_StatChanged c statTotal lastUpdated =
     (if amc_statTotal c = statTotal \<and> amc_statLastUpdated c = lastUpdated then False else True)"

definition amc_Set :: "mute_cache \<Rightarrow> int \<Rightarrow> int \<Rightarrow> AlertMuteCache \<Rightarrow> AlertMuteCache" where
  "amc_Set ms statTotal lastUpdated c =
     c\<lparr>amc_mutes := ms, amc_statTotal := statTotal, amc_statLastUpdated := lastUpdated\<rparr>"

text \<open>The rows a center node reads (\<^verbatim>\<open>AlertMuteStatistics\<close> and \<^verbatim>\<open>AlertMuteGetsAll\<close>): the number of
  rules and the latest update of the table, and the enabled rules that are periodic or in their time
  range at \<open>now\<close>, with ten seconds of slack at the start.\<close>

definition AlertMuteStatistics :: "AlertMute list \<Rightarrow> int \<times> int" where
  "AlertMuteStatistics tbl = (int (length tbl), foldr max (map am_UpdateAt tbl) 0)"

definition AlertMuteGetsAll :: "int \<Rightarrow> AlertMute list \<Rightarrow> AlertMute list" where
  "AlertMuteGetsAll now tbl =
     filter (\<lambda>m. am_Disabled m = 0
        \<and> (am_MuteTimeType m = TimeRange \<and> am_Btime m \<le> now + 10 \<and> am_Etime m \<ge> now
           \<or> am_MuteTimeType m = Periodic)) tbl"

fun group_mutes :: "stdlib \<Rightarrow> mute_cache \<Rightarrow> AlertMute list \<Rightarrow> mute_cache" where
  "group_mutes L oks [] = oks"
| "group_mutes L oks (m # ms) =
     (case am_Parse L m of
        Inl e \<Rightarrow> group_mutes L oks ms
      | Inr m' \<Rightarrow>
          group_mutes L (mput (am_GroupId m')
            ((case mget oks (am_GroupId m') of None \<Rightarrow> [] | Some lst \<Rightarrow> lst) @ [m']) oks) ms)"

definition syncAlertMutes ::
  "stdlib \<Rightarrow> string + int \<times> int \<Rightarrow> string + AlertMute list \<Rightarrow> AlertMuteCache \<Rightarrow> AlertMuteCache \<times> string option" where
  "syncAlertMutes L stat rows c =
     (case stat of
        Inl e \<Rightarrow> (c, Some (''failed to exec AlertMuteStatistics: '' @ e))
      | Inr (statTotal, lastUpdated) \<Rightarrow>
          if \<not> amc_StatChanged c statTotal lastUpdated then (c, None)
          else case rows of
            Inl e \<Rightarrow> (c, Some (''failed to exec AlertMuteGetsByCluster: '' @ e))
          | Inr lst \<Rightarrow> (amc_Set (group_mutes L [] lst) statTotal lastUpdated c, None))"

text \<open>One turn of \<^verbatim>\<open>loopSyncAlertMutes\<close> on a reachable data base that holds the table \<open>tbl\<close>.\<close>

definition sync_mutes_at :: "stdlib \<Rightarrow> AlertMute list \<Rightarrow> int \<Rightarrow> AlertMuteCache \<Rightarrow> AlertMuteCache" where
  "sync_mutes_at L tbl now c =
     fst (syncAlertMutes L (Inr (AlertMuteStatistics tbl)) (Inr (AlertMuteGetsAll now tbl)) c)"

section \<open>Time spans\<close>

text \<open>What the spans mean, in minutes of the day: left closed and right open, across midnight when the
  end is before the start, the whole day when they are equal, and closed at 23:59.\<close>

definition span_minutes :: "int \<Rightarrow> int \<Rightarrow> int \<Rightarrow> bool" where
  "span_minutes s e m \<longleftrightarrow>
     (if s < e then s \<le> m \<and> (e = 1439 \<or> m < e) else if e < s then s \<le> m \<or> m < e else True)"

definition day_minute :: "int \<Rightarrow> bool" where
  "day_minute m \<longleftrightarrow> 0 \<le> m \<and> m \<le> 1440"

lemma hh_mm_2359: "''23:59'' = hh_mm 1439"
  by code_simp

lemma span_open_minutes:
  assumes "day_minute s" "day_minute e" "0 \<le> m" "m < 1440"
  shows "span_open (hh_mm m) (hh_mm s) (hh_mm e) = span_minutes s e m"
proof -
  have b: "0 \<le> s" "s < 6000" "0 \<le> e" "e < 6000" "0 \<le> m" "m < 6000"
    using assms by (simp_all add: day_minute_def)
  have cmp: "hh_mm s < hh_mm e \<longleftrightarrow> s < e" "hh_mm e < hh_mm s \<longleftrightarrow> e < s"
    "hh_mm m < hh_mm s \<longleftrightarrow> m < s" "hh_mm m < hh_mm e \<longleftrightarrow> m < e" "hh_mm e = ''23:59'' \<longleftrightarrow> e = 1439"
    using b by (simp_all add: hh_mm_less hh_mm_eq hh_mm_2359)
  show ?thesis
    unfolding span_open_def span_minutes_def cmp not_less [symmetric] by auto
qed

lemma at_idx_map: "at_idx (map f xs) i = map_option f (at_idx xs i)"
  by (simp add: at_idx_def)

lemma span_loop_spec:
  assumes "\<forall>s \<in> set ss. day_minute s" "\<forall>e \<in> set es. day_minute e" "0 \<le> m" "m < 1440"
    and "i + length ds \<le> length ss" "i + length ds \<le> length es"
  shows "span_loop (hh_mm m) tw (map hh_mm ss) (map hh_mm es) i ds =
    Some (\<not> (\<exists>j < length ds. Contains (replace_first CHR ''7'' CHR ''0'' (ds ! j)) tw
                \<and> span_minutes (ss ! (i + j)) (es ! (i + j)) m))"
  using assms(5,6)
proof (induction ds arbitrary: i)
  case (Cons d ds)
  have IH: "span_loop (hh_mm m) tw (map hh_mm ss) (map hh_mm es) (Suc i) ds =
    Some (\<not> (\<exists>j < length ds. Contains (replace_first CHR ''7'' CHR ''0'' (ds ! j)) tw
                \<and> span_minutes (ss ! (Suc i + j)) (es ! (Suc i + j)) m))"
    using Cons.prems by (intro Cons.IH) auto
  have lt: "i < length ss" "i < length es" using Cons.prems by auto
  then have "day_minute (ss ! i)" "day_minute (es ! i)"
    using assms(1,2) by auto
  then have "span_open (hh_mm m) (hh_mm (ss ! i)) (hh_mm (es ! i)) = span_minutes (ss ! i) (es ! i) m"
    by (rule span_open_minutes) (use assms in auto)
  with IH lt show ?case
    by (auto simp: at_idx_def less_Suc_eq_0_disj nth_Cons')
qed simp

text \<open>(C24) The effective period of an alert rule. For spans written as HH:MM, one start and one end per
  group of days, \<^verbatim>\<open>TimeSpanMuteStrategy\<close> neither panics nor errs: the event is muted exactly when no
  group enables the week day of the trigger time with a span that holds its minute of the day.\<close>

theorem time_span_mute_correct:
  assumes "ar_EnableDaysOfWeek rule \<noteq> []"
    and "Fields (ar_EnableStime rule) = map hh_mm ss" "Fields (ar_EnableEtime rule) = map hh_mm es"
    and "length (Split CHR '';'' (ar_EnableDaysOfWeek rule)) \<le> length ss" "length ss = length es"
    and "\<forall>s \<in> set ss. day_minute s" "\<forall>e \<in> set es. day_minute e"
  shows "TimeSpanMuteStrategy z rule event =
    Some (\<not> (\<exists>j < length (Split CHR '';'' (ar_EnableDaysOfWeek rule)).
       Contains (replace_first CHR ''7'' CHR ''0'' (Split CHR '';'' (ar_EnableDaysOfWeek rule) ! j))
                (Itoa (Weekday z (ev_TriggerTime event)))
       \<and> span_minutes (ss ! j) (es ! j) (minute_of_day z (ev_TriggerTime event))))"
  using assms span_loop_spec [of ss es "minute_of_day z (ev_TriggerTime event)" 0
      "Split CHR '';'' (ar_EnableDaysOfWeek rule)" "Itoa (Weekday z (ev_TriggerTime event))"]
    minute_of_day_bounds [of z "ev_TriggerTime event"]
  by (simp add: TimeSpanMuteStrategy_def Format_hm_def Let_def)

definition office_rule :: AlertRule where
  "office_rule = zero_rule\<lparr>ar_EnableStime := ''09:00'', ar_EnableEtime := ''18:00'',
     ar_EnableDaysOfWeek := ''1 2 3 4 5''\<rparr>"

theorem time_span_mute_correct_witness:
  "TimeSpanMuteStrategy (\<lambda>_. 0) office_rule (zero_event\<lparr>ev_TriggerTime := 36000\<rparr>) = Some False
   \<and> TimeSpanMuteStrategy (\<lambda>_. 0) office_rule (zero_event\<lparr>ev_TriggerTime := 68400\<rparr>) = Some True"
proof -
  have split: "Split CHR '';'' (ar_EnableDaysOfWeek office_rule) = [''1 2 3 4 5'']"
    and f: "Fields (ar_EnableStime office_rule) = map hh_mm [540]" "Fields (ar_EnableEtime office_rule) = map hh_mm [1080]"
    and t: "ar_EnableDaysOfWeek office_rule \<noteq> []"
    by code_simp+
  have d: "day_minute 540" "day_minute 1080" by (simp_all add: day_minute_def)
  note r = time_span_mute_correct [OF t f, where z = "\<lambda>_. 0", unfolded split]
  have "Contains (replace_first CHR ''7'' CHR ''0'' ''1 2 3 4 5'') (Itoa (Weekday (\<lambda>_. 0) 36000))"
    "minute_of_day (\<lambda>_. 0) 36000 = 600" "minute_of_day (\<lambda>_. 0) 68400 = 1140"
    by code_simp+
  with d show ?thesis
    using r [of "zero_event\<lparr>ev_TriggerTime := 36000\<rparr>"] r [of "zero_event\<lparr>ev_TriggerTime := 68400\<rparr>"]
    by (simp add: span_minutes_def)
qed

section \<open>Caches refreshed by statistics\<close>

text \<open>The contract of a cache that reloads only when the statistics of its source differ from those of
  its last load: what it holds is the content of the source at the time of that load.\<close>

locale stat_cache =
  fixes stats :: "'db \<Rightarrow> 's"
    and content :: "'db \<Rightarrow> int \<Rightarrow> 'v"
    and sync :: "'db \<Rightarrow> int \<Rightarrow> 'c \<Rightarrow> 'c"
    and seen :: "'c \<Rightarrow> 's"
    and data :: "'c \<Rightarrow> 'v"
  assumes sync_same: "seen c = stats db \<Longrightarrow> sync db t c = c"
    and sync_seen: "seen (sync db t c) = stats db"
    and sync_data: "seen c \<noteq> stats db \<Longrightarrow> data (sync db t c) = content db t"
begin

lemma sync_again: "sync db t' (sync db t c) = sync db t c"
  by (simp add: sync_same sync_seen)

lemma syncs_frozen: "fold (sync db) ts (sync db t c) = sync db t c"
  by (induction ts) (simp_all add: sync_again)

lemma syncs_data:
  "seen c \<noteq> stats db \<Longrightarrow> data (fold (sync db) ts (sync db t c)) = content db t"
  by (simp add: syncs_frozen sync_data)

end

definition amc_seen :: "AlertMuteCache \<Rightarrow> int \<times> int" where
  "amc_seen c = (amc_statTotal c, amc_statLastUpdated c)"

lemmas sync_mute_defs = sync_mutes_at_def syncAlertMutes_def amc_StatChanged_def amc_Set_def amc_seen_def

interpretation mutes: stat_cache AlertMuteStatistics
  "\<lambda>tbl now. group_mutes L [] (AlertMuteGetsAll now tbl)" "sync_mutes_at L" amc_seen amc_mutes
  by unfold_locales (auto simp: sync_mute_defs split: prod.splits)

text \<open>The cached rules of a group are the rules of the table that parse, in the order of the table.\<close>

fun parsed_in :: "stdlib \<Rightarrow> int \<Rightarrow> AlertMute list \<Rightarrow> AlertMute list" where
  "parsed_in L g [] = []"
| "parsed_in L g (m # ms) =
     (case am_Parse L m of
        Inl e \<Rightarrow> parsed_in L g ms
      | Inr m' \<Rightarrow> if am_GroupId m' = g then m' # parsed_in L g ms else parsed_in L g ms)"

lemma group_mutes_get:
  "mget (group_mutes L oks ms) g =
     (if parsed_in L g ms = [] then mget oks g
      else Some ((case mget oks g of None \<Rightarrow> [] | Some lst \<Rightarrow> lst) @ parsed_in L g ms))"
  by (induction ms arbitrary: oks) (auto split: sum.splits option.splits)

lemma EventMuteStrategy_groups:
  "EventMuteStrategy L z event (group_mutes L [] ms) = mute_loop L z event (parsed_in L (ev_GroupId event) ms)"
  by (auto simp: EventMuteStrategy_def group_mutes_get)

lemma parsed_in_filter:
  assumes "\<And>m fs. P (m\<lparr>am_ITags := fs\<rparr>) = P m"
  shows "parsed_in L g (filter P ms) = filter P (parsed_in L g ms)"
proof (induction ms)
  case (Cons m ms)
  have "P m' = P m" if "am_Parse L m = Inr m'" for m'
    using that assms by (auto simp: am_Parse_def split: sum.splits)
  with Cons.IH show ?case by (auto split: sum.splits)
qed simp

lemma mute_loop_filter:
  assumes "\<And>m. m \<in> set ms \<Longrightarrow> \<not> P m \<Longrightarrow> \<exists>e. MatchMute L z event m None = Some (Inl e)"
  shows "mute_loop L z event (filter P ms) = mute_loop L z event ms"
  using assms
proof (induction ms)
  case (Cons m ms)
  then have IH: "mute_loop L z event (filter P ms) = mute_loop L z event ms" by simp
  show ?case
  proof (cases "P m")
    case True
    with IH show ?thesis by (simp split: Option.bind_split sum.split)
  next
    case False
    with Cons.prems [of m] obtain e where "MatchMute L z event m None = Some (Inl e)" by auto
    with False IH show ?thesis by simp
  qed
qed simp

definition mute_active :: "int \<Rightarrow> AlertMute \<Rightarrow> bool" where
  "mute_active now m \<longleftrightarrow> am_Disabled m = 0
     \<and> (am_MuteTimeType m = TimeRange \<and> am_Btime m \<le> now + 10 \<and> am_Etime m \<ge> now
        \<or> am_MuteTimeType m = Periodic)"

lemma AlertMuteGetsAll_filter: "AlertMuteGetsAll now tbl = filter (mute_active now) tbl"
  unfolding AlertMuteGetsAll_def by (rule filter_cong) (simp_all add: mute_active_def)

lemma inactive_no_match:
  assumes "\<not> mute_active now m" "am_Disabled m \<in> {0, 1}"
    and "now \<le> ev_TriggerTime event" "ev_TriggerTime event \<le> now + 10"
  shows "\<exists>e. MatchMute L z event m None = Some (Inl e)"
  using assms
  by (auto simp: MatchMute_def mute_active_def IsWithinTimeRange_def TimeRange_def Periodic_def Let_def)

lemma parsed_in_Disabled:
  "m' \<in> set (parsed_in L g ms) \<Longrightarrow> \<exists>m \<in> set ms. am_Disabled m' = am_Disabled m"
  by (induction ms) (auto simp: am_Parse_def split: sum.splits if_splits)

text \<open>(C33) A fresh cache decides like the whole table. Right after a load at \<open>now\<close>, an event triggered
  within the next ten seconds is muted by the cache exactly when it is muted by going through all
  the rules of its group that parse, although the load keeps only rules in force.\<close>

theorem fresh_mute_cache_complete:
  assumes "amc_seen c \<noteq> AlertMuteStatistics tbl" and "\<forall>m \<in> set tbl. am_Disabled m \<in> {0, 1}"
    and "now \<le> ev_TriggerTime event" "ev_TriggerTime event \<le> now + 10"
  shows "EventMuteStrategy L z event (amc_mutes (sync_mutes_at L tbl now c)) =
    mute_loop L z event (parsed_in L (ev_GroupId event) tbl)"
proof -
  let ?g = "ev_GroupId event"
  have "EventMuteStrategy L z event (amc_mutes (sync_mutes_at L tbl now c)) =
      mute_loop L z event (parsed_in L ?g (filter (mute_active now) tbl))"
    by (simp add: mutes.sync_data [OF assms(1)] EventMuteStrategy_groups AlertMuteGetsAll_filter)
  also have "parsed_in L ?g (filter (mute_active now) tbl) = filter (mute_active now) (parsed_in L ?g tbl)"
    by (rule parsed_in_filter) (simp add: mute_active_def)
  also have "mute_loop L z event \<dots> = mute_loop L z event (parsed_in L ?g tbl)"
  proof (rule mute_loop_filter)
    fix m assume "m \<in> set (parsed_in L ?g tbl)" "\<not> mute_active now m"
    then show "\<exists>e. MatchMute L z event m None = Some (Inl e)"
      using assms(2-4) parsed_in_Disabled [of m L ?g tbl] by (intro inactive_no_match) auto
  qed
  finally show ?thesis .
qed

definition maintenance_mute :: AlertMute where
  "maintenance_mute = \<lparr>am_Id = 7, am_GroupId = 1, am_DatasourceIdsJson = [0], am_Tags = [],
     am_Btime = 1000, am_Etime = 2000, am_Disabled = 0, am_UpdateAt = 5, am_ITags = [],
     am_MuteTimeType = 0, am_PeriodicMutesJson = [], am_SeveritiesJson = []\<rparr>"

theorem fresh_mute_cache_complete_witness:
  "EventMuteStrategy literal_lib (\<lambda>_. 0) (zero_event\<lparr>ev_GroupId := 1, ev_TriggerTime := 1500\<rparr>)
     (amc_mutes (sync_mutes_at literal_lib [maintenance_mute] 1495 NewAlertMuteCache)) = Some (True, 7)"
  using fresh_mute_cache_complete [of NewAlertMuteCache "[maintenance_mute]" 1495
      "zero_event\<lparr>ev_GroupId := 1, ev_TriggerTime := 1500\<rparr>" literal_lib "\<lambda>_. 0"]
  by (simp add: amc_seen_def NewAlertMuteCache_def AlertMuteStatistics_def maintenance_mute_def am_Parse_def
      GetTagFilters_def MatchMute_def scope_excludes_def TimeRange_def IsWithinTimeRange_def)

lemma parsed_in_mem:
  "m' \<in> set (parsed_in L g ms) \<Longrightarrow>
   \<exists>m \<in> set ms. am_MuteTimeType m' = am_MuteTimeType m \<and> am_Btime m' = am_Btime m"
  by (induction ms) (auto simp: am_Parse_def split: sum.splits if_splits)

text \<open>A mute rule that starts in the future never takes effect by itself. As long as the table is
  not edited its statistics stay the same, so every later turn of the synchronisation loop leaves the
  cache as the first load at \<open>t\<close> left it, and that load dropped every time-range rule that starts more
  than ten seconds after \<open>t\<close>.\<close>

theorem future_mute_never_loaded:
  assumes "amc_seen c \<noteq> AlertMuteStatistics tbl"
    and "mget (amc_mutes (fold (sync_mutes_at L tbl) ts (sync_mutes_at L tbl t c))) g = Some ms"
    and "m \<in> set ms" "am_MuteTimeType m = TimeRange"
  shows "am_Btime m \<le> t + 10"
proof -
  have "mget (group_mutes L [] (AlertMuteGetsAll t tbl)) g = Some ms"
    using assms(2) by (simp add: mutes.syncs_data [OF assms(1)])
  with assms(3) have "m \<in> set (parsed_in L g (AlertMuteGetsAll t tbl))"
    by (auto simp: group_mutes_get split: if_splits)
  with assms(4) show ?thesis
    by (auto dest!: parsed_in_mem simp: AlertMuteGetsAll_def TimeRange_def Periodic_def)
qed

definition current_mute :: AlertMute where
  "current_mute = maintenance_mute\<lparr>am_Id := 8, am_Btime := 0\<rparr>"

theorem future_mute_never_loaded_witness:
  "mget (amc_mutes (fold (sync_mutes_at literal_lib [maintenance_mute, current_mute]) [9, 18, 1500]
       (sync_mutes_at literal_lib [maintenance_mute, current_mute] 0 NewAlertMuteCache))) 1 = Some [current_mute]
   \<and> am_Btime current_mute \<le> 0 + 10"
proof
  have seen: "amc_seen NewAlertMuteCache \<noteq> AlertMuteStatistics [maintenance_mute, current_mute]"
    by (simp add: amc_seen_def NewAlertMuteCache_def AlertMuteStatistics_def)
  show m: "mget (amc_mutes (fold (sync_mutes_at literal_lib [maintenance_mute, current_mute]) [9, 18, 1500]
       (sync_mutes_at literal_lib [maintenance_mute, current_mute] 0 NewAlertMuteCache))) 1 = Some [current_mute]"
    unfolding mutes.syncs_data [OF seen]
    by (simp add: AlertMuteGetsAll_def current_mute_def maintenance_mute_def am_Parse_def GetTagFilters_def
        TimeRange_def Periodic_def)
  show "am_Btime current_mute \<le> 0 + 10"
    by (rule future_mute_never_loaded [OF seen m])
      (simp_all add: current_mute_def maintenance_mute_def TimeRange_def)
qed

end
