(* ===== verification/Dispatch.thy ===== *)
theory Dispatch
  imports Processors Native_Mute
begin

text \<open>
  The way of an event through the pipelines and the notify rules (\<^verbatim>\<open>alert/dispatch/dispatch.go\<close>): which pipelines
  apply, what they leave of the event, which configurations of a notify rule it matches, and what is sent.
  Sending itself (a goroutine per notification) and the writing of notification records are the list of
  \<open>notice\<close>s a call returns, in order. A panic is \<open>None\<close>; \<open>'s\<close> is the state behind the processors.
\<close>

section \<open>Notify rules\<close>

record TimeRanges =
  tr_Start :: string
  tr_End :: string
  tr_Week :: "int list"

record NotifyConfig =
  nc_ChannelID :: int
  nc_TemplateID :: int
  nc_Params :: gval
  nc_Type :: string
  nc_Severities :: "int list"
  nc_TimeRanges :: "TimeRanges list"
  nc_LabelKeys :: "TagFilter list"
  nc_Attributes :: "TagFilter list"

record NotifyRule =
  nr_ID :: int
  nr_Name :: string
  nr_Description :: string
  nr_Enable :: bool
  nr_UserGroupIds :: "int list"
  nr_PipelineConfigs :: "PipelineConfig list"
  nr_NotifyConfigs :: "NotifyConfig list"

record NotifyChannelConfig =
  ch_ID :: int
  ch_Name :: string
  ch_RequestType :: string

datatype notice =
    NotifyRecord AlertCurEvent int string string
  | SendByNotifyRule AlertCurEvent int NotifyConfig NotifyChannelConfig

section \<open>Pipelines\<close>

definition filters_match :: "stdlib \<Rightarrow> tags \<Rightarrow> TagFilter list \<Rightarrow> string + bool option" where
  "filters_match L m fs =
     (if length fs > 0 then (case ParseTagFilter L fs of Inl err \<Rightarrow> Inl err | Inr tagFilters \<Rightarrow> Inr (MatchTags L m tagFilters))
      else Inr (Some True))"

definition PipelineApplicable :: "stdlib \<Rightarrow> json_lib \<Rightarrow> EventPipeline option \<Rightarrow> AlertCurEvent \<Rightarrow> bool option" where
  "PipelineApplicable L J pipeline event =
     (case pipeline of
        None \<Rightarrow> Some True
      | Some p \<Rightarrow>
          if \<not> ep_FilterEnable p then Some True
          else case filters_match L (ev_TagsMap event) (default_func (ep_LabelFilters p)) of
            Inl err \<Rightarrow> Some False
          | Inr tagMatch \<Rightarrow> do {
              tagMatch \<leftarrow> tagMatch;
              (case filters_match L (JsonTagsAndValue L J event) (ep_AttrFilters p) of
                 Inl err \<Rightarrow> Some False
               | Inr attributesMatch \<Rightarrow> do { attributesMatch \<leftarrow> attributesMatch; Some (tagMatch \<and> attributesMatch) })
            })"

definition event_trigger :: "string \<Rightarrow> WorkflowTriggerContext" where
  "event_trigger from = \<lparr>wt_Mode = ''event'', wt_TriggerBy = from, wt_RequestID = [], wt_EnvOverrides = [], wt_Stream = False\<rparr>"

type_synonym 's engine = "EventPipeline \<Rightarrow> AlertCurEvent option \<Rightarrow> WorkflowTriggerContext option \<Rightarrow> 's \<Rightarrow> AlertCurEvent option \<times> WorkflowResult \<times> 's"

definition drop_notice :: "string \<Rightarrow> AlertCurEvent \<Rightarrow> int \<Rightarrow> int \<Rightarrow> notice list" where
  "drop_notice from eventOrigin i pipelineId =
     (if from = ''notify_rule''
      then [NotifyRecord eventOrigin i [] (''processor_by_'' @ from @ ''_id:'' @ Itoa i @ '' pipeline_id:'' @ Itoa pipelineId @ '', drop by pipeline'')]
      else [])"

fun pipeline_loop ::
  "stdlib \<Rightarrow> json_lib \<Rightarrow> 's engine \<Rightarrow> (int, EventPipeline) gomap \<Rightarrow> AlertCurEvent \<Rightarrow> int \<Rightarrow> string \<Rightarrow>
   PipelineConfig list \<Rightarrow> AlertCurEvent \<Rightarrow> 's \<Rightarrow> (AlertCurEvent option \<times> notice list \<times> 's) option" where
  "pipeline_loop L J execute cache eventOrigin i from [] event s = Some (Some event, [], s)"
| "pipeline_loop L J execute cache eventOrigin i from (pc # pcs) event s =
     (if \<not> pc_Enable pc then pipeline_loop L J execute cache eventOrigin i from pcs event s
      else case mget cache (pc_PipelineId pc) of
        None \<Rightarrow> pipeline_loop L J execute cache eventOrigin i from pcs event s
      | Some eventPipeline \<Rightarrow> do {
          applicable \<leftarrow> PipelineApplicable L J (Some eventPipeline) event;
          if \<not> applicable then pipeline_loop L J execute cache eventOrigin i from pcs event s
          else (case execute eventPipeline (Some event) (Some (event_trigger from)) s of
            (None, result, s') \<Rightarrow> Some (None, drop_notice from eventOrigin i (pc_PipelineId pc), s')
          | (Some resultEvent, result, s') \<Rightarrow> pipeline_loop L J execute cache eventOrigin i from pcs resultEvent s')
        })"

definition HandleEventPipeline ::
  "stdlib \<Rightarrow> json_lib \<Rightarrow> 's engine \<Rightarrow> PipelineConfig list \<Rightarrow> AlertCurEvent \<Rightarrow> AlertCurEvent \<Rightarrow> (int, EventPipeline) gomap \<Rightarrow>
   int \<Rightarrow> string \<Rightarrow> 's \<Rightarrow> (AlertCurEvent option \<times> notice list \<times> 's) option" where
  "HandleEventPipeline L J execute pipelineConfigs eventOrigin event cache i from s =
     (case pipeline_loop L J execute cache eventOrigin i from pipelineConfigs event s of
        None \<Rightarrow> None
      | Some (None, ns, s') \<Rightarrow> Some (None, ns, s')
      | Some (Some ev, ns, s') \<Rightarrow> Some (Some (FillTagsMap (ev_FE2DB L ev)), ns, s'))"

section \<open>Matching a configuration\<close>

fun week_loop :: "string \<Rightarrow> int \<Rightarrow> string \<Rightarrow> string \<Rightarrow> int list \<Rightarrow> bool" where
  "week_loop triggerTime triggerWeek s e [] = False"
| "week_loop triggerTime triggerWeek s e (d # ds) =
     (if d \<noteq> triggerWeek then week_loop triggerTime triggerWeek s e ds
      else if \<not> span_open triggerTime s e then week_loop triggerTime triggerWeek s e ds
      else True)"

fun range_loop :: "string \<Rightarrow> int \<Rightarrow> TimeRanges list \<Rightarrow> bool" where
  "range_loop triggerTime triggerWeek [] = False"
| "range_loop triggerTime triggerWeek (r # rs) =
     (if week_loop triggerTime triggerWeek (tr_Start r) (tr_End r) (tr_Week r) then True
      else range_loop triggerTime triggerWeek rs)"

text \<open>An error of \<^verbatim>\<open>NotifyRuleMatchCheck\<close> is \<open>Some\<close> message, nil is \<open>None\<close>; the outer option is a panic.\<close>

definition NotifyRuleMatchCheck :: "stdlib \<Rightarrow> json_lib \<Rightarrow> zone \<Rightarrow> NotifyConfig \<Rightarrow> AlertCurEvent \<Rightarrow> string option option" where
  "NotifyRuleMatchCheck L J z notifyConfig event =
     (let triggerTime = Format_hm z (ev_TriggerTime event);
          triggerWeek = Weekday z (ev_TriggerTime event);
          timeMatch = (length (nc_TimeRanges notifyConfig) = 0 \<or> range_loop triggerTime triggerWeek (nc_TimeRanges notifyConfig))
      in if \<not> timeMatch then Some (Some ''event time not match time filter'')
         else if \<not> list_ex (\<lambda>s. s = ev_Severity event) (nc_Severities notifyConfig)
         then Some (Some ''event severity not match severity filter'')
         else case filters_match L (ev_TagsMap event) (default_func (nc_LabelKeys notifyConfig)) of
           Inl err \<Rightarrow> Some (Some (''failed to parse tag filter: '' @ err))
         | Inr None \<Rightarrow> None
         | Inr (Some tagMatch) \<Rightarrow>
             if \<not> tagMatch then Some (Some ''event tag not match tag filter'')
             else case filters_match L (JsonTagsAndValue L J event) (nc_Attributes notifyConfig) of
               Inl err \<Rightarrow> Some (Some (''failed to parse tag filter: '' @ err))
             | Inr None \<Rightarrow> None
             | Inr (Some attributesMatch) \<Rightarrow>
                 if \<not> attributesMatch then Some (Some ''event attributes not match attributes filter'') else Some None)"

section \<open>Notifying\<close>

definition shouldSkipNotify :: "AlertCurEvent option \<Rightarrow> bool" where
  "shouldSkipNotify event =
     (case event of
        None \<Rightarrow> True
      | Some ev \<Rightarrow> if ev_IsRecovered ev \<and> ev_NotifyRecovered ev = 0 then True else False)"

record 's dispatch_env =
  de_rules :: "(int, NotifyRule) gomap"
  de_pipelines :: "(int, EventPipeline) gomap"
  de_channels :: "(int, NotifyChannelConfig) gomap"
  de_templates :: "(int, string) gomap"
  de_execute :: "'s engine"
  de_zone :: zone

definition notify_config :: "('s, 'x) dispatch_env_scheme \<Rightarrow> int \<Rightarrow> AlertCurEvent \<Rightarrow> NotifyConfig \<Rightarrow> notice list" where
  "notify_config e notifyRuleId eventCopy c =
     (case mget (de_channels e) (nc_ChannelID c) of
        None \<Rightarrow> [NotifyRecord eventCopy notifyRuleId (''notify_channel_id:'' @ Itoa (nc_ChannelID c)) ''notify_channel not found'']
      | Some notifyChannel \<Rightarrow>
          if ch_RequestType notifyChannel \<noteq> ''flashduty'' \<and> ch_RequestType notifyChannel \<noteq> ''pagerduty''
             \<and> mget (de_templates e) (nc_TemplateID c) = None
          then [NotifyRecord eventCopy notifyRuleId (ch_Name notifyChannel) ''message_template not found'']
          else [SendByNotifyRule eventCopy notifyRuleId c notifyChannel])"

fun config_loop :: "stdlib \<Rightarrow> json_lib \<Rightarrow> ('s, 'x) dispatch_env_scheme \<Rightarrow> int \<Rightarrow> AlertCurEvent \<Rightarrow> NotifyConfig list \<Rightarrow> notice list option" where
  "config_loop L J e notifyRuleId eventCopy [] = Some []"
| "config_loop L J e notifyRuleId eventCopy (c # cs) = do {
     check \<leftarrow> NotifyRuleMatchCheck L J (de_zone e) c eventCopy;
     rest \<leftarrow> config_loop L J e notifyRuleId eventCopy cs;
     Some ((if check \<noteq> None then [] else notify_config e notifyRuleId eventCopy c) @ rest)
   }"

fun rule_loop :: "stdlib \<Rightarrow> json_lib \<Rightarrow> ('s, 'x) dispatch_env_scheme \<Rightarrow> AlertCurEvent \<Rightarrow> int list \<Rightarrow> 's \<Rightarrow> (notice list \<times> 's) option" where
  "rule_loop L J e eventOrigin [] s = Some ([], s)"
| "rule_loop L J e eventOrigin (notifyRuleId # ids) s =
     (case mget (de_rules e) notifyRuleId of
        None \<Rightarrow> rule_loop L J e eventOrigin ids s
      | Some notifyRule \<Rightarrow>
          if \<not> nr_Enable notifyRule then rule_loop L J e eventOrigin ids s
          else do {
            (eventCopy, ns, s1) \<leftarrow> HandleEventPipeline L J (de_execute e) (nr_PipelineConfigs notifyRule) eventOrigin
                (eventOrigin\<lparr>ev_NotifyRuleId := notifyRuleId, ev_NotifyRuleName := nr_Name notifyRule\<rparr>)
                (de_pipelines e) notifyRuleId ''notify_rule'' s;
            sent \<leftarrow> (case eventCopy of
                       Some ev \<Rightarrow> if shouldSkipNotify eventCopy then Some [] else config_loop L J e notifyRuleId ev (nr_NotifyConfigs notifyRule)
                     | None \<Rightarrow> Some []);
            (rest, s2) \<leftarrow> rule_loop L J e eventOrigin ids s1;
            Some (ns @ sent @ rest, s2)
          })"

definition HandleEventWithNotifyRule :: "stdlib \<Rightarrow> json_lib \<Rightarrow> ('s, 'x) dispatch_env_scheme \<Rightarrow> AlertCurEvent \<Rightarrow> 's \<Rightarrow> (notice list \<times> 's) option" where
  "HandleEventWithNotifyRule L J e eventOrigin s =
     (if length (ev_NotifyRuleIds eventOrigin) > 0 then rule_loop L J e eventOrigin (ev_NotifyRuleIds eventOrigin) s
      else Some ([], s))"

section \<open>When a configuration matches\<close>

definition accepts :: "stdlib \<Rightarrow> tags \<Rightarrow> TagFilter list \<Rightarrow> bool" where
  "accepts L m fs \<longleftrightarrow> fs = [] \<or> (\<exists>gs. ParseTagFilter L fs = Inr gs \<and> MatchTags L m gs = Some True)"

lemma filters_match_True: "filters_match L m fs = Inr (Some True) \<longleftrightarrow> accepts L m fs"
  by (auto simp: filters_match_def accepts_def split: sum.splits)

lemma week_loop_iff: "week_loop tt tw s e ds \<longleftrightarrow> tw \<in> set ds \<and> span_open tt s e"
  by (induction ds) auto

lemma range_loop_iff:
  "range_loop tt tw rs \<longleftrightarrow> (\<exists>r \<in> set rs. tw \<in> set (tr_Week r) \<and> span_open tt (tr_Start r) (tr_End r))"
  by (induction rs) (auto simp: week_loop_iff)

text \<open>The range is written as HH:MM, and holds the minute \<open>m\<close> of a day.\<close>

definition range_of :: "TimeRanges \<Rightarrow> int \<Rightarrow> int \<Rightarrow> bool" where
  "range_of r s e \<longleftrightarrow> day_minute s \<and> day_minute e \<and> tr_Start r = hh_mm s \<and> tr_End r = hh_mm e"

definition range_holds :: "TimeRanges \<Rightarrow> int \<Rightarrow> bool" where
  "range_holds r m \<longleftrightarrow> (\<exists>s e. range_of r s e \<and> span_minutes s e m)"

lemma span_open_range:
  assumes "\<exists>s e. range_of r s e"
  shows "span_open (Format_hm z t) (tr_Start r) (tr_End r) = range_holds r (minute_of_day z t)"
proof -
  have b: "0 \<le> minute_of_day z t" "minute_of_day z t < 1440" using minute_of_day_bounds by auto
  have "span_open (Format_hm z t) (tr_Start r) (tr_End r) = span_minutes s e (minute_of_day z t)" if "range_of r s e" for s e
    using that span_open_minutes [OF _ _ b] by (simp add: range_of_def Format_hm_def)
  with assms show ?thesis unfolding range_holds_def by blast
qed

text \<open>(C32) When a notification is due. For time ranges written as HH:MM, the check of a configuration accepts an event
  exactly when the minute and the day of its trigger time are in one of the ranges (or there are none), its
  severity is one of the configured ones, and the label and attribute filters compile and match. An empty
  list of severities accepts no event.\<close>

theorem notify_match_correct:
  assumes "\<forall>r \<in> set (nc_TimeRanges c). \<exists>s e. range_of r s e"
  shows "NotifyRuleMatchCheck L J z c ev = Some None \<longleftrightarrow>
    (nc_TimeRanges c = [] \<or> (\<exists>r \<in> set (nc_TimeRanges c). Weekday z (ev_TriggerTime ev) \<in> set (tr_Week r)
        \<and> range_holds r (minute_of_day z (ev_TriggerTime ev))))
    \<and> ev_Severity ev \<in> set (nc_Severities c)
    \<and> accepts L (ev_TagsMap ev) (default_func (nc_LabelKeys c))
    \<and> accepts L (JsonTagsAndValue L J ev) (nc_Attributes c)"
proof -
  have time: "range_loop (Format_hm z t) w (nc_TimeRanges c) \<longleftrightarrow>
      (\<exists>r \<in> set (nc_TimeRanges c). w \<in> set (tr_Week r) \<and> range_holds r (minute_of_day z t))" for t w
    unfolding range_loop_iff using assms span_open_range by blast
  show ?thesis
    unfolding NotifyRuleMatchCheck_def time filters_match_True [symmetric] list_ex_iff Let_def
    by (auto split: sum.splits option.splits)
qed

definition night_config :: NotifyConfig where
  "night_config = \<lparr>nc_ChannelID = 3, nc_TemplateID = 5, nc_Params = VNil, nc_Type = [], nc_Severities = [1, 2],
     nc_TimeRanges = [\<lparr>tr_Start = ''21:00'', tr_End = ''09:00'', tr_Week = [1, 2, 3, 4, 5]\<rparr>], nc_LabelKeys = [], nc_Attributes = []\<rparr>"

theorem notify_match_correct_witness:
  "NotifyRuleMatchCheck literal_lib plain_json (\<lambda>_. 0) night_config (zero_event\<lparr>ev_TriggerTime := 3600, ev_Severity := 1\<rparr>) = Some None
   \<and> NotifyRuleMatchCheck literal_lib plain_json (\<lambda>_. 0) night_config (zero_event\<lparr>ev_TriggerTime := 43200, ev_Severity := 1\<rparr>) \<noteq> Some None"
proof -
  let ?r = "\<lparr>tr_Start = ''21:00'', tr_End = ''09:00'', tr_Week = [1, 2, 3, 4, 5]\<rparr>"
  have r: "range_of ?r 1260 540" by (simp add: range_of_def day_minute_def hh_mm_def two_digits_def) code_simp
  have uniq: "s = 1260 \<and> e = 540" if "range_of ?r s e" for s e
    using that r hh_mm_eq [of s 1260] hh_mm_eq [of e 540] by (simp add: range_of_def day_minute_def)
  have holds: "range_holds ?r m \<longleftrightarrow> span_minutes 1260 540 m" for m unfolding range_holds_def using r uniq by blast
  have all: "\<forall>r \<in> set (nc_TimeRanges night_config). \<exists>s e. range_of r s e" using r by (auto simp: night_config_def)
  show ?thesis
    unfolding notify_match_correct [OF all]
    by (simp add: night_config_def holds accepts_def default_func_def Weekday_def minute_of_day_def local_secs_def span_minutes_def)
qed

section \<open>What a pipeline leaves\<close>

text \<open>An event that comes out of the pipelines has its label text and its label map built from its label list, and
  a rule configuration built from \<^verbatim>\<open>RuleConfigJson\<close>: what was stored in \<^verbatim>\<open>RuleConfig\<close> before is lost.\<close>

lemma HandleEventPipeline_normal:
  assumes "HandleEventPipeline L J execute pcs origin event cache i from s = Some (Some e, ns, s')"
  shows "ev_Tags e = Join '',,'' (ev_TagsJSON e) \<and> ev_TagsMap e = tags_of_pairs [] (ev_TagsJSON e)
    \<and> ev_RuleConfig e = json_marshal L (ev_RuleConfigJson e)"
  using assms by (auto simp: HandleEventPipeline_def FillTagsMap_def ev_FE2DB_def split: option.splits prod.splits)

lemma pipeline_loop_notices:
  "pipeline_loop L J execute cache origin i from pcs event s = Some (out, ns, s') \<Longrightarrow>
   (case out of Some e \<Rightarrow> ns = [] | None \<Rightarrow> (\<exists>pc \<in> set pcs. pc_Enable pc \<and> ns = drop_notice from origin i (pc_PipelineId pc)))"
proof (induction pcs arbitrary: event s)
  case (Cons pc pcs)
  from Cons.prems consider (rest) event2 s2 where "pipeline_loop L J execute cache origin i from pcs event2 s2 = Some (out, ns, s')"
    | (dropped) "pc_Enable pc" "out = None" "ns = drop_notice from origin i (pc_PipelineId pc)"
    by (auto split: if_splits option.splits prod.splits bind_splits)
  then show ?case
  proof cases
    case rest
    from Cons.IH [OF rest] show ?thesis by (auto split: option.splits)
  qed simp
qed auto

section \<open>What is sent\<close>

lemma config_loop_sends:
  "config_loop L J e i ev cs = Some ns \<Longrightarrow> SendByNotifyRule x j c ch \<in> set ns \<Longrightarrow>
   x = ev \<and> j = i \<and> c \<in> set cs \<and> NotifyRuleMatchCheck L J (de_zone e) c ev = Some None \<and> mget (de_channels e) (nc_ChannelID c) = Some ch"
proof (induction cs arbitrary: ns)
  case (Cons k ks)
  then obtain check rest where k: "NotifyRuleMatchCheck L J (de_zone e) k ev = Some check" "config_loop L J e i ev ks = Some rest"
    "ns = (if check \<noteq> None then [] else notify_config e i ev k) @ rest" by (auto split: bind_splits)
  from Cons.prems(2) consider (here) "check = None" "SendByNotifyRule x j c ch \<in> set (notify_config e i ev k)"
    | (later) "SendByNotifyRule x j c ch \<in> set rest" by (auto simp: k(3) split: if_splits)
  then show ?case
  proof cases
    case here
    with k(1) show ?thesis by (auto simp: notify_config_def split: option.splits if_splits)
  next
    case later
    with Cons.IH [OF k(2)] show ?thesis by auto
  qed
qed simp

lemma rule_loop_sends:
  "rule_loop L J e origin ids s = Some (ns, s') \<Longrightarrow> SendByNotifyRule x i c ch \<in> set ns \<Longrightarrow>
   \<exists>rule. i \<in> set ids \<and> mget (de_rules e) i = Some rule \<and> nr_Enable rule \<and> c \<in> set (nr_NotifyConfigs rule)
     \<and> \<not> (ev_IsRecovered x \<and> ev_NotifyRecovered x = 0)
     \<and> NotifyRuleMatchCheck L J (de_zone e) c x = Some None \<and> mget (de_channels e) (nc_ChannelID c) = Some ch"
proof (induction ids arbitrary: ns s)
  case (Cons k ks)
  show ?case
  proof (cases "\<exists>rule. mget (de_rules e) k = Some rule \<and> nr_Enable rule")
    case False
    with Cons.prems(1) have "rule_loop L J e origin ks s = Some (ns, s')" by (auto split: option.splits if_splits)
    from Cons.IH [OF this Cons.prems(2)] show ?thesis by auto
  next
    case True
    then obtain rule where r: "mget (de_rules e) k = Some rule" "nr_Enable rule" by blast
    with Cons.prems(1) obtain ev out s1 sent rest where h:
      "HandleEventPipeline L J (de_execute e) (nr_PipelineConfigs rule) origin
          (origin\<lparr>ev_NotifyRuleId := k, ev_NotifyRuleName := nr_Name rule\<rparr>) (de_pipelines e) k ''notify_rule'' s = Some (ev, out, s1)"
      "(case ev of Some x \<Rightarrow> if shouldSkipNotify ev then Some [] else config_loop L J e k x (nr_NotifyConfigs rule) | None \<Rightarrow> Some []) = Some sent"
      "rule_loop L J e origin ks s1 = Some (rest, s')" "ns = out @ sent @ rest"
      by (auto split: bind_splits)
    have quiet: "SendByNotifyRule x i c ch \<notin> set out"
    proof -
      from h(1) obtain ev0 where "pipeline_loop L J (de_execute e) (de_pipelines e) origin k ''notify_rule'' (nr_PipelineConfigs rule)
          (origin\<lparr>ev_NotifyRuleId := k, ev_NotifyRuleName := nr_Name rule\<rparr>) s = Some (ev0, out, s1)"
        by (auto simp: HandleEventPipeline_def split: option.splits prod.splits)
      from pipeline_loop_notices [OF this] show ?thesis by (auto simp: drop_notice_def split: option.splits)
    qed
    with Cons.prems(2) h(4) consider (here) "SendByNotifyRule x i c ch \<in> set sent" | (later) "SendByNotifyRule x i c ch \<in> set rest" by auto
    then show ?thesis
    proof cases
      case here
      with h(2) obtain y where y: "ev = Some y" "\<not> shouldSkipNotify ev" "config_loop L J e k y (nr_NotifyConfigs rule) = Some sent"
        by (auto split: option.splits if_splits)
      have "\<not> (ev_IsRecovered y \<and> ev_NotifyRecovered y = 0)" using y(1,2) by (auto simp: shouldSkipNotify_def)
      with config_loop_sends [OF y(3) here] r show ?thesis by auto
    next
      case later
      from Cons.IH [OF h(3) later] show ?thesis by auto
    qed
  qed
qed simp

text \<open>(C19) No notification without a reason. Whatever an event's notify rules and their pipelines do, every message that
  is sent belongs to an enabled notify rule the event refers to and to a configuration of that rule whose
  check accepts the event as the pipeline left it, goes to a channel that exists, and is not the recovery of
  a rule that does not notify recoveries.\<close>

theorem notifications_are_due:
  assumes "HandleEventWithNotifyRule L J e origin s = Some (ns, s')" "SendByNotifyRule x i c ch \<in> set ns"
  shows "\<exists>rule. i \<in> set (ev_NotifyRuleIds origin) \<and> mget (de_rules e) i = Some rule \<and> nr_Enable rule
     \<and> c \<in> set (nr_NotifyConfigs rule) \<and> NotifyRuleMatchCheck L J (de_zone e) c x = Some None
     \<and> \<not> (ev_IsRecovered x \<and> ev_NotifyRecovered x = 0) \<and> mget (de_channels e) (nc_ChannelID c) = Some ch"
proof -
  from assms have "rule_loop L J e origin (ev_NotifyRuleIds origin) s = Some (ns, s')"
    by (auto simp: HandleEventWithNotifyRule_def split: if_splits)
  from rule_loop_sends [OF this assms(2)] show ?thesis by blast
qed

definition night_rule :: NotifyRule where
  "night_rule = \<lparr>nr_ID = 8, nr_Name = ''night shift'', nr_Description = [], nr_Enable = True, nr_UserGroupIds = [],
     nr_PipelineConfigs = [], nr_NotifyConfigs = [night_config]\<rparr>"

definition mail :: NotifyChannelConfig where
  "mail = \<lparr>ch_ID = 3, ch_Name = ''mail'', ch_RequestType = ''smtp''\<rparr>"

definition night_env :: "unit dispatch_env" where
  "night_env = \<lparr>de_rules = [(8, night_rule)], de_pipelines = [], de_channels = [(3, mail)], de_templates = [(5, ''tpl'')],
     de_execute = (\<lambda>p ev t s. (ev, ok_result False [], s)), de_zone = (\<lambda>_. 0)\<rparr>"

definition night_event :: AlertCurEvent where
  "night_event = zero_event\<lparr>ev_TriggerTime := 3600, ev_Severity := 1, ev_NotifyRuleIds := [7, 8]\<rparr>"

definition night_sent :: AlertCurEvent where
  "night_sent = FillTagsMap (ev_FE2DB literal_lib (night_event\<lparr>ev_NotifyRuleId := 8, ev_NotifyRuleName := ''night shift''\<rparr>))"

theorem notifications_are_due_witness:
  "HandleEventWithNotifyRule literal_lib plain_json night_env night_event () = Some ([SendByNotifyRule night_sent 8 night_config mail], ())
   \<and> NotifyRuleMatchCheck literal_lib plain_json (\<lambda>_. 0) night_config night_sent = Some None"
proof -
  have check: "NotifyRuleMatchCheck literal_lib plain_json (\<lambda>_. 0) night_config night_sent = Some None" by code_simp
  have run: "HandleEventWithNotifyRule literal_lib plain_json night_env night_event () = Some ([SendByNotifyRule night_sent 8 night_config mail], ())"
    using check
    by (simp add: HandleEventWithNotifyRule_def night_event_def night_env_def night_rule_def HandleEventPipeline_def night_sent_def
        shouldSkipNotify_def ev_FE2DB_def FillTagsMap_def notify_config_def mail_def)
      (simp add: night_config_def zero_event_def)
  from notifications_are_due [OF run] run show ?thesis by (auto simp: night_env_def)
qed

end
