(* ===== verification/Alert_Process.thy ===== *)
theory Alert_Process
  imports Alert_Event
begin

text \<open>
  The state of an alert rule at run time (\<^verbatim>\<open>alert/process/process.go\<close>, \<^verbatim>\<open>alert/process/alert_cur_event.go\<close>): the events that fire, that are
  pending and that were seen last, with the operations that move an event between them and hand it to the
  queue of the dispatcher.

  The maps of the code hold pointers, and the same event can be in several maps and in the queue, so that
  an update through one map is seen through the others. The events are therefore on a heap: a pointer is
  an index of the list \<open>pr_heap\<close>, which only grows. The two hooks of a processor do nothing in this
  repository. Deletions in the table of current events are recorded in \<open>pr_deleted\<close>.
\<close>

section \<open>Processor and maps\<close>

type_synonym ref = nat

type_synonym AlertCurEventMap = "(string, ref) gomap"

record processor =
  pr_datasourceId :: int
  pr_EngineName :: string
  pr_rule :: AlertRule
  pr_fires :: AlertCurEventMap
  pr_pendings :: AlertCurEventMap
  pr_pendingsUseByRecover :: AlertCurEventMap
  pr_inhibit :: bool
  pr_PromEvalInterval :: int
  pr_heap :: "AlertCurEvent list"
  pr_queue :: "ref list"
  pr_deleted :: "string list"

definition deref :: "processor \<Rightarrow> ref \<Rightarrow> AlertCurEvent" where
  "deref p r = pr_heap p ! r"

definition store :: "ref \<Rightarrow> (AlertCurEvent \<Rightarrow> AlertCurEvent) \<Rightarrow> processor \<Rightarrow> processor" where
  "store r f p = p\<lparr>pr_heap := (pr_heap p)[r := f (deref p r)]\<rparr>"

definition alloc :: "AlertCurEvent \<Rightarrow> processor \<Rightarrow> ref \<times> processor" where
  "alloc e p = (length (pr_heap p), p\<lparr>pr_heap := pr_heap p @ [e]\<rparr>)"

definition aem_Set :: "string \<Rightarrow> ref \<Rightarrow> AlertCurEventMap \<Rightarrow> AlertCurEventMap" where
  "aem_Set key value m = mput key value m"

definition aem_Get :: "AlertCurEventMap \<Rightarrow> string \<Rightarrow> ref option" where
  "aem_Get m key = mget m key"

definition aem_Delete :: "string \<Rightarrow> AlertCurEventMap \<Rightarrow> AlertCurEventMap" where
  "aem_Delete key m = mdel key m"

definition aem_Keys :: "(string list \<Rightarrow> string list) \<Rightarrow> AlertCurEventMap \<Rightarrow> string list" where
  "aem_Keys ord m = ord (map fst m)"

definition UpdateLastEvalTime :: "AlertCurEventMap \<Rightarrow> string \<Rightarrow> int \<Rightarrow> processor \<Rightarrow> processor" where
  "UpdateLastEvalTime m key lastEvalTime p =
     (case mget m key of
        None \<Rightarrow> p
      | Some r \<Rightarrow> store r (\<lambda>e. e\<lparr>ev_LastEvalTime := lastEvalTime\<rparr>) p)"

definition DeleteProcessEvent :: "string \<Rightarrow> processor \<Rightarrow> processor" where
  "DeleteProcessEvent hash p =
     p\<lparr>pr_fires := aem_Delete hash (pr_fires p), pr_pendings := aem_Delete hash (pr_pendings p),
       pr_pendingsUseByRecover := aem_Delete hash (pr_pendingsUseByRecover p)\<rparr>"

section \<open>Firing\<close>

text \<open>The queue is bounded: a push on a full queue is dropped (and counted).\<close>

definition PushFront :: "nat \<Rightarrow> ref \<Rightarrow> processor \<Rightarrow> processor" where
  "PushFront limit r p = (if length (pr_queue p) < limit then p\<lparr>pr_queue := r # pr_queue p\<rparr> else p)"

definition pushEventToQueue :: "nat \<Rightarrow> ref \<Rightarrow> processor \<Rightarrow> processor" where
  "pushEventToQueue limit e p =
     (let p1 = (if \<not> ev_IsRecovered (deref p e)
                then let q = store e (\<lambda>ev. ev\<lparr>ev_LastSentTime := ev_LastEvalTime ev\<rparr>) p
                     in q\<lparr>pr_fires := aem_Set (ev_Hash (deref q e)) e (pr_fires q)\<rparr>
                else p)
      in PushFront limit e p1)"

definition fireEvent :: "nat \<Rightarrow> ref \<Rightarrow> processor \<Rightarrow> processor" where
  "fireEvent limit event p =
     (case aem_Get (pr_fires p) (ev_Hash (deref p event)) of
        Some fired \<Rightarrow>
          (let p1 = UpdateLastEvalTime (pr_fires p) (ev_Hash (deref p event)) (ev_LastEvalTime (deref p event)) p;
               p2 = store event (\<lambda>e. e\<lparr>ev_FirstTriggerTime := ev_FirstTriggerTime (deref p1 fired)\<rparr>) p1;
               rule = pr_rule p2
           in if ar_NotifyRepeatStep rule = 0 then p2
              else if ev_LastEvalTime (deref p2 event) \<ge> ev_LastSentTime (deref p2 fired) + ar_NotifyRepeatStep rule * 60
              then (if ar_NotifyMaxNumber rule = 0
                    then pushEventToQueue limit event
                           (store event (\<lambda>e. e\<lparr>ev_NotifyCurNumber := ev_NotifyCurNumber (deref p2 fired) + 1\<rparr>) p2)
                    else if ev_NotifyCurNumber (deref p2 fired) \<ge> ar_NotifyMaxNumber rule then p2
                    else pushEventToQueue limit event
                           (store event (\<lambda>e. e\<lparr>ev_NotifyCurNumber := ev_NotifyCurNumber (deref p2 fired) + 1\<rparr>) p2))
              else p2)
      | None \<Rightarrow>
          pushEventToQueue limit event
            (store event (\<lambda>e. e\<lparr>ev_NotifyCurNumber := 1, ev_FirstTriggerTime := ev_TriggerTime e\<rparr>) p))"

fun inhibitEvent :: "nat \<Rightarrow> ref list \<Rightarrow> int \<Rightarrow> processor \<Rightarrow> processor" where
  "inhibitEvent limit [] highSeverity p = p"
| "inhibitEvent limit (e # es) highSeverity p =
     inhibitEvent limit es highSeverity
       (if pr_inhibit p \<and> ev_Severity (deref p e) > highSeverity then p else fireEvent limit e p)"

text \<open>The first half of \<^verbatim>\<open>handleEvent\<close>: note the event as seen, and decide whether it has lasted long enough.\<close>

definition note_seen :: "ref \<Rightarrow> processor \<Rightarrow> processor" where
  "note_seen event p =
     (let h = ev_Hash (deref p event);
          p1 = (if aem_Get (pr_pendingsUseByRecover p) h \<noteq> None
                then UpdateLastEvalTime (pr_pendingsUseByRecover p) h (ev_LastEvalTime (deref p event)) p
                else p\<lparr>pr_pendingsUseByRecover := aem_Set h event (pr_pendingsUseByRecover p)\<rparr>)
      in store event (\<lambda>e. e\<lparr>ev_PromEvalInterval := pr_PromEvalInterval p1\<rparr>) p1)"

definition note_pending :: "ref \<Rightarrow> processor \<Rightarrow> int \<times> processor" where
  "note_pending event p =
     (let h = ev_Hash (deref p event) in
      case aem_Get (pr_pendings p) h of
        Some preEvent \<Rightarrow>
          (let p1 = UpdateLastEvalTime (pr_pendings p) h (ev_LastEvalTime (deref p event)) p
           in (ev_FirstEvalTime (deref p1 preEvent), p1))
      | None \<Rightarrow>
          (let p1 = store event (\<lambda>e. e\<lparr>ev_FirstEvalTime := ev_LastEvalTime e\<rparr>) p;
               p2 = p1\<lparr>pr_pendings := aem_Set h event (pr_pendings p1)\<rparr>
           in (ev_FirstEvalTime (deref p2 event), p2)))"

fun handle_loop :: "ref list \<Rightarrow> ref list \<Rightarrow> int \<Rightarrow> processor \<Rightarrow> ref list \<times> int \<times> processor" where
  "handle_loop [] fireEvents severity p = (fireEvents, severity, p)"
| "handle_loop (event # events) fireEvents severity p =
     (let p1 = note_seen event p;
          lower = (\<lambda>q. if severity > ev_Severity (deref q event) then ev_Severity (deref q event) else severity)
      in if ar_PromForDuration (pr_rule p1) = 0
         then handle_loop events (fireEvents @ [event]) (lower p1) p1
         else let (preEvalTime, p2) = note_pending event p1
              in if ev_LastEvalTime (deref p2 event) - preEvalTime + ev_PromEvalInterval (deref p2 event)
                    \<ge> ar_PromForDuration (pr_rule p2)
                 then handle_loop events (fireEvents @ [event]) (lower p2) p2
                 else handle_loop events fireEvents severity p2)"

definition handleEvent :: "nat \<Rightarrow> ref list \<Rightarrow> processor \<Rightarrow> processor" where
  "handleEvent limit events p =
     (let (fireEvents, severity, p1) = handle_loop events [] SeverityLowest p
      in inhibitEvent limit fireEvents severity p1)"

section \<open>Recovering\<close>

definition RecoverSingle :: "nat \<Rightarrow> bool \<Rightarrow> string \<Rightarrow> int \<Rightarrow> (string \<times> string option) option \<Rightarrow> processor \<Rightarrow> processor" where
  "RecoverSingle limit byRecover hash now value p =
     (case aem_Get (pr_fires p) hash of
        None \<Rightarrow> p
      | Some event \<Rightarrow>
          if ar_RecoverDuration (pr_rule p) > 0 \<and>
             (case aem_Get (pr_pendingsUseByRecover p) hash of
                None \<Rightarrow> True
              | Some lastPendingEvent \<Rightarrow> now - ev_LastEvalTime (deref p lastPendingEvent) < ar_RecoverDuration (pr_rule p))
          then p
          else if ev_JudgeType (deref p event) \<noteq> Origin \<and> \<not> byRecover then p
          else
            let p1 = (case value of
                        None \<Rightarrow> p
                      | Some (v, vs) \<Rightarrow>
                          store event (\<lambda>e. e\<lparr>ev_TriggerValue := v,
                            ev_TriggerValues := (case vs of None \<Rightarrow> ev_TriggerValues e | Some w \<Rightarrow> w)\<rparr>) p);
                p2 = DeleteProcessEvent hash p1;
                p3 = store event (\<lambda>e. (UpdateEvent (pr_rule p2) e)\<lparr>ev_IsRecovered := True, ev_LastEvalTime := now\<rparr>) p2
            in pushEventToQueue limit event p3)"

fun recover_all :: "nat \<Rightarrow> string list \<Rightarrow> int \<Rightarrow> processor \<Rightarrow> processor" where
  "recover_all limit [] now p = p"
| "recover_all limit (hash # hs) now p = recover_all limit hs now (RecoverSingle limit False hash now None p)"

text \<open>With inhibition, one event per label set recovers: the events are copied into a map by their labels, and a less
  severe one that is found there is deleted.\<close>

fun inhibit_recover_loop :: "string list \<Rightarrow> (string, AlertCurEvent) gomap \<Rightarrow> processor \<Rightarrow> (string, AlertCurEvent) gomap \<times> processor" where
  "inhibit_recover_loop [] eventMap p = (eventMap, p)"
| "inhibit_recover_loop (hash # hs) eventMap p =
     (case aem_Get (pr_fires p) hash of
        None \<Rightarrow> inhibit_recover_loop hs eventMap p
      | Some r \<Rightarrow>
          (let event = deref p r in
           case mget eventMap (ev_Tags event) of
             None \<Rightarrow> inhibit_recover_loop hs (mput (ev_Tags event) event eventMap) p
           | Some e \<Rightarrow>
               if ev_Severity e > ev_Severity event
               then inhibit_recover_loop hs (mput (ev_Tags event) event eventMap)
                      (p\<lparr>pr_fires := aem_Delete (ev_Hash e) (pr_fires p), pr_pendings := aem_Delete (ev_Hash e) (pr_pendings p),
                         pr_deleted := pr_deleted p @ [ev_Hash e]\<rparr>)
               else inhibit_recover_loop hs eventMap p))"

definition HandleRecoverEvent :: "(string list \<Rightarrow> string list) \<Rightarrow> nat \<Rightarrow> string list \<Rightarrow> int \<Rightarrow> bool \<Rightarrow> processor \<Rightarrow> processor" where
  "HandleRecoverEvent ord limit hashArr now inhibit p =
     (if \<not> inhibit then recover_all limit hashArr now p
      else let (eventMap, p1) = inhibit_recover_loop hashArr [] p
           in recover_all limit (ord (map (\<lambda>(t, e). ev_Hash e) eventMap)) now p1)"

fun drop_pendings :: "string list \<Rightarrow> string list \<Rightarrow> processor \<Rightarrow> processor" where
  "drop_pendings alertingKeys [] p = p"
| "drop_pendings alertingKeys (hash # hs) p =
     drop_pendings alertingKeys hs
       (if List.member alertingKeys hash then p else p\<lparr>pr_pendings := aem_Delete hash (pr_pendings p)\<rparr>)"

definition HandleRecover :: "(string list \<Rightarrow> string list) \<Rightarrow> nat \<Rightarrow> string list \<Rightarrow> int \<Rightarrow> bool \<Rightarrow> processor \<Rightarrow> processor" where
  "HandleRecover ord limit alertingKeys now inhibit p =
     (let p1 = drop_pendings alertingKeys (aem_Keys ord (pr_pendings p)) p;
          hashArr = filter (\<lambda>h. \<not> List.member alertingKeys h) (aem_Keys ord (pr_fires p1))
      in HandleRecoverEvent ord limit hashArr now inhibit p1)"

section \<open>Heap and maps\<close>

lemma store_simps [simp]:
  "pr_fires (store r f p) = pr_fires p" "pr_pendings (store r f p) = pr_pendings p"
  "pr_pendingsUseByRecover (store r f p) = pr_pendingsUseByRecover p" "pr_rule (store r f p) = pr_rule p"
  "pr_inhibit (store r f p) = pr_inhibit p" "pr_queue (store r f p) = pr_queue p" "pr_deleted (store r f p) = pr_deleted p"
  "pr_PromEvalInterval (store r f p) = pr_PromEvalInterval p"
  "length (pr_heap (store r f p)) = length (pr_heap p)"
  by (simp_all add: store_def)

lemma deref_store: "deref (store r f p) r' = (if r' = r \<and> r < length (pr_heap p) then f (deref p r) else deref p r')"
  by (cases "r < length (pr_heap p)") (auto simp: deref_def store_def list_update_beyond)

lemma deref_update [simp]:
  "deref (p\<lparr>pr_fires := m\<rparr>) r = deref p r" "deref (p\<lparr>pr_pendings := m\<rparr>) r = deref p r"
  "deref (p\<lparr>pr_pendingsUseByRecover := m\<rparr>) r = deref p r" "deref (p\<lparr>pr_deleted := ds\<rparr>) r = deref p r"
  "deref (PushFront limit r' p) r = deref p r" "deref (DeleteProcessEvent h p) r = deref p r"
  by (simp_all add: deref_def PushFront_def DeleteProcessEvent_def)

lemma UpdateLastEvalTime_simps [simp]:
  "pr_fires (UpdateLastEvalTime m k t p) = pr_fires p" "pr_pendings (UpdateLastEvalTime m k t p) = pr_pendings p"
  "pr_pendingsUseByRecover (UpdateLastEvalTime m k t p) = pr_pendingsUseByRecover p" "pr_rule (UpdateLastEvalTime m k t p) = pr_rule p"
  "pr_inhibit (UpdateLastEvalTime m k t p) = pr_inhibit p" "pr_queue (UpdateLastEvalTime m k t p) = pr_queue p"
  "pr_deleted (UpdateLastEvalTime m k t p) = pr_deleted p"
  "pr_PromEvalInterval (UpdateLastEvalTime m k t p) = pr_PromEvalInterval p"
  "length (pr_heap (UpdateLastEvalTime m k t p)) = length (pr_heap p)"
  by (simp_all add: UpdateLastEvalTime_def split: option.split)

lemma PushFront_simps [simp]:
  "pr_fires (PushFront limit r p) = pr_fires p" "pr_pendings (PushFront limit r p) = pr_pendings p"
  "pr_pendingsUseByRecover (PushFront limit r p) = pr_pendingsUseByRecover p" "pr_rule (PushFront limit r p) = pr_rule p"
  "pr_inhibit (PushFront limit r p) = pr_inhibit p" "pr_heap (PushFront limit r p) = pr_heap p"
  "pr_deleted (PushFront limit r p) = pr_deleted p" "pr_PromEvalInterval (PushFront limit r p) = pr_PromEvalInterval p"
  by (simp_all add: PushFront_def)

text \<open>The events behind the keys of a map, as values.\<close>

definition events_of :: "processor \<Rightarrow> AlertCurEventMap \<Rightarrow> string \<rightharpoonup> AlertCurEvent" where
  "events_of p m h = map_option (deref p) (mget m h)"

abbreviation fired :: "processor \<Rightarrow> string \<rightharpoonup> AlertCurEvent" where
  "fired p \<equiv> events_of p (pr_fires p)"

definition map_inv :: "processor \<Rightarrow> AlertCurEventMap \<Rightarrow> bool" where
  "map_inv p m \<longleftrightarrow> (\<forall>h r. mget m h = Some r \<longrightarrow> r < length (pr_heap p) \<and> ev_Hash (deref p r) = h)"

text \<open>A new event: on the heap, not recovered, and not yet known as firing.\<close>

definition is_new :: "processor \<Rightarrow> ref \<Rightarrow> bool" where
  "is_new p r \<longleftrightarrow> r < length (pr_heap p) \<and> \<not> ev_IsRecovered (deref p r) \<and> (\<forall>h. mget (pr_fires p) h \<noteq> Some r)"

section \<open>Firing against its specification\<close>

text \<open>Whether an event that fires already is sent again.\<close>

definition due :: "AlertRule \<Rightarrow> AlertCurEvent \<Rightarrow> AlertCurEvent \<Rightarrow> bool" where
  "due rule f e \<longleftrightarrow> ar_NotifyRepeatStep rule \<noteq> 0 \<and> ev_LastSentTime f + ar_NotifyRepeatStep rule * 60 \<le> ev_LastEvalTime e
     \<and> (ar_NotifyMaxNumber rule = 0 \<or> ev_NotifyCurNumber f < ar_NotifyMaxNumber rule)"

text \<open>What becomes of the firing event with this hash, and whether the new event is sent.\<close>

definition fire_spec :: "AlertRule \<Rightarrow> AlertCurEvent \<Rightarrow> AlertCurEvent option \<Rightarrow> AlertCurEvent \<times> bool" where
  "fire_spec rule e known =
     (case known of
        None \<Rightarrow> (e\<lparr>ev_NotifyCurNumber := 1, ev_FirstTriggerTime := ev_TriggerTime e, ev_LastSentTime := ev_LastEvalTime e\<rparr>, True)
      | Some f \<Rightarrow>
          if due rule f e
          then (e\<lparr>ev_FirstTriggerTime := ev_FirstTriggerTime f, ev_NotifyCurNumber := ev_NotifyCurNumber f + 1,
                  ev_LastSentTime := ev_LastEvalTime e\<rparr>, True)
          else (f\<lparr>ev_LastEvalTime := ev_LastEvalTime e\<rparr>, False))"

lemma fireEvent_first:
  assumes "map_inv p (pr_fires p)" "is_new p r" "mget (pr_fires p) (ev_Hash (deref p r)) = None"
  shows "fired (fireEvent limit r p) = (fired p)(ev_Hash (deref p r) \<mapsto> fst (fire_spec (pr_rule p) (deref p r) None))"
    and "pr_queue (fireEvent limit r p) = (if length (pr_queue p) < limit then r # pr_queue p else pr_queue p)"
proof -
  have r: "r < length (pr_heap p)" "\<not> ev_IsRecovered (deref p r)" "\<And>h. mget (pr_fires p) h \<noteq> Some r"
    using assms(2) by (auto simp: is_new_def)
  show "fired (fireEvent limit r p) = (fired p)(ev_Hash (deref p r) \<mapsto> fst (fire_spec (pr_rule p) (deref p r) None))"
  proof
    fix h
    show "fired (fireEvent limit r p) h = ((fired p)(ev_Hash (deref p r) \<mapsto> fst (fire_spec (pr_rule p) (deref p r) None))) h"
      using r assms(3)
      by (cases "mget (pr_fires p) h")
        (auto simp: fireEvent_def aem_Get_def aem_Set_def pushEventToQueue_def events_of_def fire_spec_def deref_store Let_def)
  qed
  show "pr_queue (fireEvent limit r p) = (if length (pr_queue p) < limit then r # pr_queue p else pr_queue p)"
    using r assms(3) by (simp add: fireEvent_def aem_Get_def pushEventToQueue_def PushFront_def Let_def deref_store)
qed

definition merged :: "ref \<Rightarrow> ref \<Rightarrow> processor \<Rightarrow> processor" where
  "merged r f p = store r (\<lambda>e. e\<lparr>ev_FirstTriggerTime := ev_FirstTriggerTime (deref p f)\<rparr>)
     (store f (\<lambda>e. e\<lparr>ev_LastEvalTime := ev_LastEvalTime (deref p r)\<rparr>) p)"

lemma merged_simps [simp]:
  "pr_fires (merged r f p) = pr_fires p" "pr_pendings (merged r f p) = pr_pendings p"
  "pr_pendingsUseByRecover (merged r f p) = pr_pendingsUseByRecover p" "pr_rule (merged r f p) = pr_rule p"
  "pr_inhibit (merged r f p) = pr_inhibit p" "pr_queue (merged r f p) = pr_queue p" "pr_deleted (merged r f p) = pr_deleted p"
  "length (pr_heap (merged r f p)) = length (pr_heap p)"
  by (simp_all add: merged_def)

lemma deref_merged:
  assumes "r < length (pr_heap p)" "f < length (pr_heap p)" "f \<noteq> r"
  shows "deref (merged r f p) x =
    (if x = r then (deref p r)\<lparr>ev_FirstTriggerTime := ev_FirstTriggerTime (deref p f)\<rparr>
     else if x = f then (deref p f)\<lparr>ev_LastEvalTime := ev_LastEvalTime (deref p r)\<rparr> else deref p x)"
  using assms by (simp add: merged_def deref_store)

lemma fireEvent_again:
  assumes "map_inv p (pr_fires p)" "is_new p r" "mget (pr_fires p) (ev_Hash (deref p r)) = Some f"
  shows "fireEvent limit r p =
    (if due (pr_rule p) (deref p f) (deref p r)
     then pushEventToQueue limit r (store r (\<lambda>e. e\<lparr>ev_NotifyCurNumber := ev_NotifyCurNumber (deref p f) + 1\<rparr>) (merged r f p))
     else merged r f p)"
proof -
  have f: "f < length (pr_heap p)" "f \<noteq> r" and r: "r < length (pr_heap p)"
    using assms by (auto simp: map_inv_def is_new_def)
  note D = deref_merged [OF r f]
  have p2: "store r (\<lambda>e. e\<lparr>ev_FirstTriggerTime := ev_FirstTriggerTime (deref (UpdateLastEvalTime (pr_fires p)
        (ev_Hash (deref p r)) (ev_LastEvalTime (deref p r)) p) f)\<rparr>) (UpdateLastEvalTime (pr_fires p)
        (ev_Hash (deref p r)) (ev_LastEvalTime (deref p r)) p) = merged r f p"
    using f r by (simp add: UpdateLastEvalTime_def assms(3) merged_def deref_store)
  have sent: "ev_LastSentTime (deref (merged r f p) f) = ev_LastSentTime (deref p f)"
    "ev_NotifyCurNumber (deref (merged r f p) f) = ev_NotifyCurNumber (deref p f)"
    "ev_LastEvalTime (deref (merged r f p) r) = ev_LastEvalTime (deref p r)" using f by (simp_all add: D)
  show ?thesis
    unfolding fireEvent_def aem_Get_def assms(3) option.case Let_def p2 sent merged_simps
    by (simp add: due_def)
qed

lemma fireEvent_known:
  assumes "map_inv p (pr_fires p)" "is_new p r" "mget (pr_fires p) (ev_Hash (deref p r)) = Some f"
  shows "fired (fireEvent limit r p) = (fired p)(ev_Hash (deref p r) \<mapsto> fst (fire_spec (pr_rule p) (deref p r) (Some (deref p f))))"
    and "pr_queue (fireEvent limit r p) =
      (if due (pr_rule p) (deref p f) (deref p r) \<and> length (pr_queue p) < limit then r # pr_queue p else pr_queue p)"
proof -
  have f: "f < length (pr_heap p)" "f \<noteq> r" and r: "r < length (pr_heap p)" "\<not> ev_IsRecovered (deref p r)"
    using assms by (auto simp: map_inv_def is_new_def)
  note D = deref_merged [OF r(1) f]
  have other: "mget (pr_fires p) h = Some x \<Longrightarrow> x \<noteq> r" "mget (pr_fires p) h = Some f \<Longrightarrow> h = ev_Hash (deref p r)" for h x
    using assms unfolding is_new_def map_inv_def by blast+
  show "fired (fireEvent limit r p) = (fired p)(ev_Hash (deref p r) \<mapsto> fst (fire_spec (pr_rule p) (deref p r) (Some (deref p f))))"
  proof
    fix h
    show "fired (fireEvent limit r p) h = ((fired p)(ev_Hash (deref p r) \<mapsto> fst (fire_spec (pr_rule p) (deref p r) (Some (deref p f))))) h"
    proof (cases "due (pr_rule p) (deref p f) (deref p r)")
      case True
      then show ?thesis
        using r other [of h] f assms(3)
        by (cases "mget (pr_fires p) h")
          (auto simp: fireEvent_again [OF assms] pushEventToQueue_def aem_Set_def events_of_def fire_spec_def deref_store D Let_def)
    next
      case False
      then show ?thesis
        using r other [of h] f assms(3)
        by (cases "mget (pr_fires p) h") (auto simp: fireEvent_again [OF assms] events_of_def fire_spec_def D)
    qed
  qed
  show "pr_queue (fireEvent limit r p) =
      (if due (pr_rule p) (deref p f) (deref p r) \<and> length (pr_queue p) < limit then r # pr_queue p else pr_queue p)"
    using r f by (simp add: fireEvent_again [OF assms] pushEventToQueue_def PushFront_def Let_def deref_store D)
qed

lemma fireEvent_view:
  assumes "map_inv p (pr_fires p)" "is_new p r"
  shows "fired (fireEvent limit r p) =
      (fired p)(ev_Hash (deref p r) \<mapsto> fst (fire_spec (pr_rule p) (deref p r) (fired p (ev_Hash (deref p r)))))
    \<and> pr_queue (fireEvent limit r p) =
      (if snd (fire_spec (pr_rule p) (deref p r) (fired p (ev_Hash (deref p r)))) \<and> length (pr_queue p) < limit
       then r # pr_queue p else pr_queue p)"
proof (cases "mget (pr_fires p) (ev_Hash (deref p r))")
  case None
  then have "fired p (ev_Hash (deref p r)) = None" by (simp add: events_of_def)
  with fireEvent_first [OF assms None] show ?thesis by (simp add: fire_spec_def)
next
  case (Some f)
  then have "fired p (ev_Hash (deref p r)) = Some (deref p f)" by (simp add: events_of_def)
  with fireEvent_known [OF assms Some] show ?thesis by (simp add: fire_spec_def)
qed

text \<open>(C18) Firing refines its specification. Over the heap of shared events, firing a new event changes exactly the entry of
  its hash among the firing events, to what the specification says of the two events as values: the first
  time it is entered and sent; later it replaces the entry and is sent when the repeat interval has passed
  and the maximal number is not reached, and otherwise only the evaluation time of the entry moves.\<close>

theorem fireEvent_refines:
  assumes "map_inv p (pr_fires p)" "is_new p r"
  shows "fired (fireEvent limit r p) =
      (fired p)(ev_Hash (deref p r) \<mapsto> fst (fire_spec (pr_rule p) (deref p r) (fired p (ev_Hash (deref p r)))))
    \<and> pr_queue (fireEvent limit r p) =
      (if snd (fire_spec (pr_rule p) (deref p r) (fired p (ev_Hash (deref p r)))) \<and> length (pr_queue p) < limit
       then r # pr_queue p else pr_queue p)"
  by (rule fireEvent_view [OF assms])

text \<open>What no operation but the recovery changes of an event.\<close>

definition core :: "AlertCurEvent \<Rightarrow> string \<times> bool \<times> int \<times> string \<times> int" where
  "core e = (ev_Hash e, ev_IsRecovered e, ev_Severity e, ev_Tags e, ev_JudgeType e)"

lemma core_store: "(\<And>e. core (f e) = core e) \<Longrightarrow> core (deref (store r f p) x) = core (deref p x)"
  by (simp add: deref_store)

lemma core_fields:
  assumes "core e = core e'"
  shows "ev_Hash e = ev_Hash e'" "ev_IsRecovered e = ev_IsRecovered e'" "ev_Severity e = ev_Severity e'" "ev_Tags e = ev_Tags e'"
    "ev_JudgeType e = ev_JudgeType e'"
  using assms by (simp_all add: core_def)

lemma core_UpdateLastEvalTime: "core (deref (UpdateLastEvalTime m k t p) x) = core (deref p x)"
  by (simp add: UpdateLastEvalTime_def core_def deref_store split: option.split)

lemma core_pushEventToQueue: "core (deref (pushEventToQueue limit r p) x) = core (deref p x)"
  by (simp add: pushEventToQueue_def core_def deref_store Let_def)

lemma core_fireEvent: "core (deref (fireEvent limit r p) x) = core (deref p x)"
  unfolding fireEvent_def
  by (simp add: core_pushEventToQueue core_UpdateLastEvalTime Let_def split: option.split)
    (simp add: core_def deref_store core_fields [OF core_UpdateLastEvalTime])

lemma pushEventToQueue_simps [simp]:
  "pr_pendings (pushEventToQueue limit r p) = pr_pendings p"
  "pr_pendingsUseByRecover (pushEventToQueue limit r p) = pr_pendingsUseByRecover p" "pr_rule (pushEventToQueue limit r p) = pr_rule p"
  "pr_inhibit (pushEventToQueue limit r p) = pr_inhibit p" "pr_deleted (pushEventToQueue limit r p) = pr_deleted p"
  "length (pr_heap (pushEventToQueue limit r p)) = length (pr_heap p)"
  by (simp_all add: pushEventToQueue_def Let_def)

lemma fireEvent_simps [simp]:
  "pr_pendings (fireEvent limit r p) = pr_pendings p"
  "pr_pendingsUseByRecover (fireEvent limit r p) = pr_pendingsUseByRecover p" "pr_rule (fireEvent limit r p) = pr_rule p"
  "pr_inhibit (fireEvent limit r p) = pr_inhibit p" "pr_deleted (fireEvent limit r p) = pr_deleted p"
  "length (pr_heap (fireEvent limit r p)) = length (pr_heap p)"
  by (simp_all add: fireEvent_def Let_def split: option.split)

lemma pushEventToQueue_fires:
  "pr_fires (pushEventToQueue limit r p) = (if ev_IsRecovered (deref p r) then pr_fires p else mput (ev_Hash (deref p r)) r (pr_fires p))"
  by (simp add: pushEventToQueue_def aem_Set_def deref_store Let_def)

lemma fireEvent_fires:
  "pr_fires (fireEvent limit r p) = pr_fires p \<or> pr_fires (fireEvent limit r p) = mput (ev_Hash (deref p r)) r (pr_fires p)"
  unfolding fireEvent_def
  by (simp add: pushEventToQueue_fires deref_store Let_def core_fields [OF core_UpdateLastEvalTime] split: option.split)

lemma map_inv_core:
  assumes "map_inv p m" "length (pr_heap p) \<le> length (pr_heap q)" "\<And>x. x < length (pr_heap p) \<Longrightarrow> core (deref q x) = core (deref p x)"
  shows "map_inv q m"
  unfolding map_inv_def
proof (intro allI impI)
  fix h r
  assume "mget m h = Some r"
  then have "r < length (pr_heap p)" "ev_Hash (deref p r) = h" using assms(1) by (auto simp: map_inv_def)
  then show "r < length (pr_heap q) \<and> ev_Hash (deref q r) = h" using assms(2) core_fields(1) [OF assms(3)] by auto
qed

lemma map_inv_mput: "map_inv p m \<Longrightarrow> r < length (pr_heap p) \<Longrightarrow> map_inv p (mput (ev_Hash (deref p r)) r m)"
  by (simp add: map_inv_def)

lemma fireEvent_map_inv:
  assumes "map_inv p (pr_fires p)" "r < length (pr_heap p)"
  shows "map_inv (fireEvent limit r p) (pr_fires (fireEvent limit r p))"
proof -
  have "map_inv p (pr_fires (fireEvent limit r p))"
    using fireEvent_fires [of limit r p] assms map_inv_mput by metis
  then show ?thesis by (rule map_inv_core) (simp_all add: core_fireEvent)
qed

section \<open>How often an alert is sent\<close>

text \<open>A run of evaluations that all find the condition of one series met: each yields a new event that is fired.\<close>

fun fire_run :: "nat \<Rightarrow> AlertCurEvent list \<Rightarrow> processor \<Rightarrow> processor" where
  "fire_run limit [] p = p"
| "fire_run limit (e # es) p = (let (r, q) = alloc e p in fire_run limit es (fireEvent limit r q))"

fun spec_run :: "AlertRule \<Rightarrow> AlertCurEvent option \<Rightarrow> AlertCurEvent list \<Rightarrow> AlertCurEvent list" where
  "spec_run rule known [] = []"
| "spec_run rule known (e # es) =
     (let (f, sent) = fire_spec rule e known in (if sent then [f] else []) @ spec_run rule (Some f) es)"

lemma spec_run_number:
  "0 < ar_NotifyMaxNumber rule \<Longrightarrow> ev_NotifyCurNumber f \<le> ar_NotifyMaxNumber rule \<Longrightarrow>
   int (length (spec_run rule (Some f) es)) \<le> ar_NotifyMaxNumber rule - ev_NotifyCurNumber f"
proof (induction es arbitrary: f)
  case (Cons e es)
  show ?case
  proof (cases "due rule f e")
    case True
    then have "ev_NotifyCurNumber f < ar_NotifyMaxNumber rule" using Cons.prems(1) by (simp add: due_def)
    with Cons.IH [of "fst (fire_spec rule e (Some f))"] Cons.prems True show ?thesis by (simp add: fire_spec_def)
  next
    case False
    with Cons.IH [of "f\<lparr>ev_LastEvalTime := ev_LastEvalTime e\<rparr>"] Cons.prems show ?thesis by (simp add: fire_spec_def)
  qed
qed simp

lemma spec_run_counts:
  "i < length (spec_run rule (Some f) es) \<Longrightarrow> ev_NotifyCurNumber (spec_run rule (Some f) es ! i) = ev_NotifyCurNumber f + 1 + int i"
proof (induction es arbitrary: f i)
  case (Cons e es)
  show ?case
  proof (cases "due rule f e")
    case True
    then show ?thesis using Cons.IH [of "i - 1" "fst (fire_spec rule e (Some f))"] Cons.prems by (cases i) (simp_all add: fire_spec_def)
  next
    case False
    with Cons.IH [of i "f\<lparr>ev_LastEvalTime := ev_LastEvalTime e\<rparr>"] Cons.prems show ?thesis by (simp add: fire_spec_def)
  qed
qed simp

definition gap :: "AlertRule \<Rightarrow> AlertCurEvent \<Rightarrow> AlertCurEvent \<Rightarrow> bool" where
  "gap rule a b \<longleftrightarrow> ev_LastSentTime a + ar_NotifyRepeatStep rule * 60 \<le> ev_LastSentTime b"

lemma gap_Cons: "ev_LastSentTime f = ev_LastSentTime f' \<Longrightarrow> successively (gap rule) (f # xs) = successively (gap rule) (f' # xs)"
  by (cases xs) (simp_all add: gap_def)

lemma spec_run_gaps: "successively (gap rule) (f # spec_run rule (Some f) es)"
proof (induction es arbitrary: f)
  case (Cons e es)
  show ?case
  proof (cases "due rule f e")
    case True
    then have "gap rule f (fst (fire_spec rule e (Some f)))" by (simp add: fire_spec_def due_def gap_def)
    with Cons [of "fst (fire_spec rule e (Some f))"] True show ?thesis by (simp add: fire_spec_def)
  next
    case False
    with Cons [of "f\<lparr>ev_LastEvalTime := ev_LastEvalTime e\<rparr>"] gap_Cons [of f "f\<lparr>ev_LastEvalTime := ev_LastEvalTime e\<rparr>" rule]
    show ?thesis by (simp add: fire_spec_def)
  qed
qed simp

definition sent_info :: "AlertCurEvent \<Rightarrow> int \<times> int" where
  "sent_info e = (ev_LastSentTime e, ev_NotifyCurNumber e)"

lemma sent_info_UpdateLastEvalTime: "sent_info (deref (UpdateLastEvalTime m k t p) x) = sent_info (deref p x)"
  by (simp add: UpdateLastEvalTime_def sent_info_def deref_store split: option.split)

lemma sent_info_fireEvent: "x \<noteq> r \<Longrightarrow> sent_info (deref (fireEvent limit r p) x) = sent_info (deref p x)"
  by (simp add: fireEvent_def pushEventToQueue_def deref_store Let_def sent_info_UpdateLastEvalTime split: option.split)

lemma fireEvent_sent:
  assumes "map_inv p (pr_fires p)" "is_new p r" "snd (fire_spec (pr_rule p) (deref p r) (fired p (ev_Hash (deref p r))))"
  shows "deref (fireEvent limit r p) r = fst (fire_spec (pr_rule p) (deref p r) (fired p (ev_Hash (deref p r))))"
proof -
  let ?h = "ev_Hash (deref p r)"
  have rec: "\<not> ev_IsRecovered (deref p r)" using assms(2) by (simp add: is_new_def)
  have "pr_fires (fireEvent limit r p) = mput ?h r (pr_fires p)"
  proof (cases "mget (pr_fires p) ?h")
    case None
    then show ?thesis using rec by (simp add: fireEvent_def aem_Get_def pushEventToQueue_fires deref_store)
  next
    case (Some f)
    then have d: "due (pr_rule p) (deref p f) (deref p r)" using assms(3) by (simp add: events_of_def fire_spec_def split: if_splits)
    have f: "r < length (pr_heap p)" "f < length (pr_heap p)" "f \<noteq> r" using assms Some by (auto simp: is_new_def map_inv_def)
    show ?thesis using rec d by (simp add: fireEvent_again [OF assms(1,2) Some] pushEventToQueue_fires deref_store deref_merged [OF f])
  qed
  then have "fired (fireEvent limit r p) ?h = Some (deref (fireEvent limit r p) r)" by (simp add: events_of_def)
  with fireEvent_view [OF assms(1,2)] show ?thesis by simp
qed

lemma alloc_new:
  assumes "alloc e p = (r, q)" "map_inv p (pr_fires p)" "\<not> ev_IsRecovered e"
  shows "is_new q r" "map_inv q (pr_fires q)" "deref q r = e" "fired q = fired p" "pr_queue q = pr_queue p" "pr_rule q = pr_rule p"
    "r = length (pr_heap p)" "length (pr_heap q) = Suc (length (pr_heap p))" "x < length (pr_heap p) \<Longrightarrow> deref q x = deref p x"
proof -
  have q: "r = length (pr_heap p)" "q = p\<lparr>pr_heap := pr_heap p @ [e]\<rparr>" using assms(1) by (auto simp: alloc_def)
  then show len: "r = length (pr_heap p)" "length (pr_heap q) = Suc (length (pr_heap p))" "deref q r = e"
    "pr_queue q = pr_queue p" "pr_rule q = pr_rule p" by (simp_all add: deref_def)
  show old: "x < length (pr_heap p) \<Longrightarrow> deref q x = deref p x" for x using q by (simp add: deref_def nth_append)
  have fires: "mget (pr_fires p) h = Some x \<Longrightarrow> x < length (pr_heap p)" for h x using assms(2) by (auto simp: map_inv_def)
  have pf: "pr_fires q = pr_fires p" using q(2) by simp
  have "mget (pr_fires p) h \<noteq> Some r" for h using fires [of h r] len(1) by auto
  then show "is_new q r" using assms(3) len(2,3) by (simp add: is_new_def pf len(1))
  show "map_inv q (pr_fires q)" unfolding pf by (rule map_inv_core [OF assms(2)]) (simp_all add: len(2) old)
  show "fired q = fired p"
  proof
    fix h
    show "fired q h = fired p h" using fires old q(2) by (cases "mget (pr_fires p) h") (auto simp: events_of_def)
  qed
qed

lemma fire_run_queue:
  assumes "map_inv p (pr_fires p)" "\<forall>e \<in> set es. ev_Hash e = h \<and> \<not> ev_IsRecovered e" "length (pr_queue p) + length es \<le> limit"
  shows "\<exists>news. pr_queue (fire_run limit es p) = rev news @ pr_queue p \<and> set news \<inter> {..<length (pr_heap p)} = {}
    \<and> map (\<lambda>r. sent_info (deref (fire_run limit es p) r)) news = map sent_info (spec_run (pr_rule p) (fired p h) es)
    \<and> (\<forall>x < length (pr_heap p). sent_info (deref (fire_run limit es p) x) = sent_info (deref p x))"
  using assms
proof (induction es arbitrary: p)
  case (Cons e es)
  obtain r q where a: "alloc e p = (r, q)" by (cases "alloc e p")
  have e: "ev_Hash e = h" "\<not> ev_IsRecovered e" using Cons.prems(2) by auto
  note A = alloc_new [OF a Cons.prems(1) e(2)]
  let ?q = "fireEvent limit r q" and ?spec = "fire_spec (pr_rule p) e (fired p h)"
  have h: "ev_Hash (deref q r) = h" by (simp add: A(3) e(1))
  have view: "fired ?q = (fired p)(h \<mapsto> fst ?spec)" "pr_queue ?q = (if snd ?spec then [r] else []) @ pr_queue p"
    using fireEvent_view [OF A(2,1), of limit] Cons.prems(3) unfolding A(3-6) e(1) by auto
  have inv: "map_inv ?q (pr_fires ?q)" using A(1) by (intro fireEvent_map_inv [OF A(2)]) (simp add: is_new_def)
  have old: "sent_info (deref ?q x) = sent_info (deref p x)" if "x < length (pr_heap p)" for x
    using that sent_info_fireEvent [of x r limit q] A(7) A(9) [OF that] by simp
  have new: "snd ?spec \<Longrightarrow> deref ?q r = fst ?spec" using fireEvent_sent [OF A(2,1), of limit] unfolding A(3-6) e(1) by simp
  have len: "length (pr_heap ?q) = Suc (length (pr_heap p))" by (simp add: A(8))
  have prem: "\<forall>e \<in> set es. ev_Hash e = h \<and> \<not> ev_IsRecovered e" "length (pr_queue ?q) + length es \<le> limit"
    using Cons.prems(2,3) view(2) by auto
  obtain news where n: "pr_queue (fire_run limit es ?q) = rev news @ pr_queue ?q" "set news \<inter> {..<Suc (length (pr_heap p))} = {}"
    "map (\<lambda>r. sent_info (deref (fire_run limit es ?q) r)) news = map sent_info (spec_run (pr_rule p) (Some (fst ?spec)) es)"
    "\<forall>x < Suc (length (pr_heap p)). sent_info (deref (fire_run limit es ?q) x) = sent_info (deref ?q x)"
    by (rule exE [OF Cons.IH [OF inv prem, unfolded fireEvent_simps A(6,8) view(1) fun_upd_same]]) (elim conjE, rule that, assumption+)
  have run: "fire_run limit (e # es) p = fire_run limit es ?q" by (simp add: a)
  let ?new = "(if snd ?spec then [r] else []) @ news"
  have step: "spec_run (pr_rule p) (fired p h) (e # es) = (if snd ?spec then [fst ?spec] else []) @ spec_run (pr_rule p) (Some (fst ?spec)) es"
    by (simp add: case_prod_beta)
  have "pr_queue (fire_run limit es ?q) = rev ?new @ pr_queue p" by (simp add: n(1) view(2))
  moreover have "set ?new \<inter> {..<length (pr_heap p)} = {}"
    using n(2) A(7) by (auto simp: disjoint_iff)
  moreover have "map (\<lambda>r. sent_info (deref (fire_run limit es ?q) r)) ?new = map sent_info (spec_run (pr_rule p) (fired p h) (e # es))"
    unfolding step map_append n(3) using new n(4) A(7) by (cases "snd ?spec") simp_all
  moreover have "\<forall>x < length (pr_heap p). sent_info (deref (fire_run limit es ?q) x) = sent_info (deref p x)"
    using n(4) old by simp
  ultimately show ?case unfolding run by blast
qed simp

lemma successively_map_gap: "successively (gap rule) xs \<longleftrightarrow>
    successively (\<lambda>a b. fst a + ar_NotifyRepeatStep rule * 60 \<le> fst b) (map sent_info xs)"
  by (simp add: successively_map gap_def sent_info_def)

text \<open>(C10) How often a lasting alert is sent. From the first time a series fires, over any number of evaluations that find it
  still firing, at most \<^verbatim>\<open>NotifyMaxNumber\<close> notifications are queued when that number is set, the \<open>i\<close>-th of them carries
  the number \<open>i\<close> when counted from one, and any two in a row are at least \<^verbatim>\<open>NotifyRepeatStep\<close> minutes apart.\<close>

theorem notification_limit:
  assumes "map_inv p (pr_fires p)" "fired p h = None" "\<forall>e \<in> set es. ev_Hash e = h \<and> \<not> ev_IsRecovered e"
    and "length (pr_queue p) + length es \<le> limit" "0 \<le> ar_NotifyMaxNumber (pr_rule p)"
  shows "\<exists>news. pr_queue (fire_run limit es p) = rev news @ pr_queue p
    \<and> (0 < ar_NotifyMaxNumber (pr_rule p) \<longrightarrow> int (length news) \<le> ar_NotifyMaxNumber (pr_rule p))
    \<and> successively (\<lambda>a b. ev_LastSentTime (deref (fire_run limit es p) a) + ar_NotifyRepeatStep (pr_rule p) * 60
        \<le> ev_LastSentTime (deref (fire_run limit es p) b)) news
    \<and> (\<forall>i < length news. ev_NotifyCurNumber (deref (fire_run limit es p) (news ! i)) = int i + 1)"
proof -
  obtain news where n: "pr_queue (fire_run limit es p) = rev news @ pr_queue p"
    "map (\<lambda>r. sent_info (deref (fire_run limit es p) r)) news = map sent_info (spec_run (pr_rule p) None es)"
    using fire_run_queue [OF assms(1,3,4)] assms(2) by auto
  have len: "length news = length (spec_run (pr_rule p) None es)" using arg_cong [OF n(2), of length] by simp
  have "0 < ar_NotifyMaxNumber (pr_rule p) \<longrightarrow> int (length (spec_run (pr_rule p) None es)) \<le> ar_NotifyMaxNumber (pr_rule p)"
  proof (cases es)
    case (Cons e es')
    then show ?thesis using spec_run_number [of "pr_rule p" "fst (fire_spec (pr_rule p) e None)" es'] by (auto simp: fire_spec_def)
  qed simp
  moreover have "successively (gap (pr_rule p)) (spec_run (pr_rule p) None es)"
    using spec_run_gaps by (cases es) (auto simp: fire_spec_def)
  then have "successively (\<lambda>a b. ev_LastSentTime (deref (fire_run limit es p) a) + ar_NotifyRepeatStep (pr_rule p) * 60
        \<le> ev_LastSentTime (deref (fire_run limit es p) b)) news"
    unfolding successively_map_gap n(2) [symmetric] by (simp add: successively_map sent_info_def)
  moreover have "ev_NotifyCurNumber (deref (fire_run limit es p) (news ! i)) = int i + 1" if "i < length news" for i
  proof -
    have "sent_info (deref (fire_run limit es p) (news ! i)) = sent_info (spec_run (pr_rule p) None es ! i)"
      using arg_cong [OF n(2), of "\<lambda>xs. xs ! i"] that len by simp
    moreover have "ev_NotifyCurNumber (spec_run (pr_rule p) None es ! i) = int i + 1"
      using that len spec_run_counts [of "i - 1" "pr_rule p" "fst (fire_spec (pr_rule p) (hd es) None)" "tl es"]
      by (cases es; cases i) (simp_all add: fire_spec_def)
    ultimately show ?thesis by (simp add: sent_info_def)
  qed
  ultimately show ?thesis using n(1) len by auto
qed

definition repeat_rule :: AlertRule where
  "repeat_rule = zero_rule\<lparr>ar_NotifyRepeatStep := 1, ar_NotifyMaxNumber := 2\<rparr>"

definition idle :: "AlertRule \<Rightarrow> processor" where
  "idle rule = \<lparr>pr_datasourceId = 1, pr_EngineName = [], pr_rule = rule, pr_fires = [], pr_pendings = [], pr_pendingsUseByRecover = [],
     pr_inhibit = False, pr_PromEvalInterval = 15, pr_heap = [], pr_queue = [], pr_deleted = []\<rparr>"

definition seen_at :: "int \<Rightarrow> AlertCurEvent" where
  "seen_at t = zero_event\<lparr>ev_Hash := ''h'', ev_LastEvalTime := t, ev_TriggerTime := t, ev_Severity := 2\<rparr>"

definition one_new :: processor where
  "one_new = (idle repeat_rule)\<lparr>pr_heap := [seen_at 100]\<rparr>"

theorem fireEvent_refines_witness:
  "fired (fireEvent 10 0 one_new) ''h'' = Some (fst (fire_spec repeat_rule (seen_at 100) None))
   \<and> pr_queue (fireEvent 10 0 one_new) = [0]"
proof -
  have "map_inv one_new (pr_fires one_new)" "is_new one_new 0"
    by (simp_all add: map_inv_def is_new_def one_new_def idle_def deref_def seen_at_def zero_event_def)
  from fireEvent_refines [OF this, of 10] show ?thesis
    by (simp add: one_new_def idle_def deref_def seen_at_def events_of_def fire_spec_def)
qed

definition day_events :: "AlertCurEvent list" where
  "day_events = map seen_at [0, 30, 60]"

theorem notification_limit_witness:
  "length (pr_queue (fire_run 10 day_events (idle repeat_rule))) \<le> 2
   \<and> length (pr_queue (fire_run 10 day_events (idle repeat_rule))) = 2"
proof -
  have "map_inv (idle repeat_rule) (pr_fires (idle repeat_rule))" "fired (idle repeat_rule) ''h'' = None"
    "\<forall>e \<in> set day_events. ev_Hash e = ''h'' \<and> \<not> ev_IsRecovered e"
    "length (pr_queue (idle repeat_rule)) + length day_events \<le> 10" "0 \<le> ar_NotifyMaxNumber (pr_rule (idle repeat_rule))"
    by (simp_all add: map_inv_def idle_def events_of_def day_events_def seen_at_def zero_event_def repeat_rule_def)
  note limit = notification_limit [OF this]
  have r: "ar_NotifyMaxNumber (pr_rule (idle repeat_rule)) = 2" "pr_queue (idle repeat_rule) = []"
    by (simp_all add: idle_def repeat_rule_def)
  have "length (pr_queue (fire_run 10 day_events (idle repeat_rule))) \<le> 2"
    by (rule exE [OF limit], elim conjE) (simp add: r)
  moreover have "length (pr_queue (fire_run 10 day_events (idle repeat_rule))) = 2" by code_simp
  ultimately show ?thesis by blast
qed

end
