(* ===== verification/Alert_Recovery.thy ===== *)
theory Alert_Recovery
  imports Alert_Process
begin

text \<open>
  The recovery of alerts (\<^verbatim>\<open>HandleRecover\<close> and below in \<^verbatim>\<open>alert/process/process.go\<close>): after an evaluation exactly the
  series that stopped firing, and are allowed to, recover, each with one message.
\<close>

section \<open>One recovery\<close>

text \<open>The observation time has passed, and the rule recovers by absence.\<close>

definition can_recover :: "processor \<Rightarrow> int \<Rightarrow> string \<Rightarrow> bool" where
  "can_recover p now h \<longleftrightarrow>
     (ar_RecoverDuration (pr_rule p) > 0 \<longrightarrow>
        (\<exists>e. events_of p (pr_pendingsUseByRecover p) h = Some e \<and> ev_LastEvalTime e + ar_RecoverDuration (pr_rule p) \<le> now))
     \<and> (\<exists>e. fired p h = Some e \<and> ev_JudgeType e = Origin)"

definition recovered :: "AlertRule \<Rightarrow> int \<Rightarrow> AlertCurEvent \<Rightarrow> AlertCurEvent" where
  "recovered rule now e = (UpdateEvent rule e)\<lparr>ev_IsRecovered := True, ev_LastEvalTime := now\<rparr>"

lemma recovered_frame [simp]:
  "ev_Hash (recovered rule now e) = ev_Hash e" "ev_IsRecovered (recovered rule now e)" "ev_LastEvalTime (recovered rule now e) = now"
  by (simp_all add: recovered_def)

definition rec_inv :: "processor \<Rightarrow> bool" where
  "rec_inv p \<longleftrightarrow> map_inv p (pr_fires p) \<and> map_inv p (pr_pendingsUseByRecover p)"

lemma RecoverSingle_no:
  "\<not> can_recover p now h \<Longrightarrow> RecoverSingle limit False h now None p = p"
  by (auto simp: RecoverSingle_def aem_Get_def can_recover_def events_of_def Origin_def split: option.splits)

lemma RecoverSingle_yes:
  assumes "can_recover p now h" "map_inv p (pr_fires p)"
  obtains r where "mget (pr_fires p) h = Some r" "r < length (pr_heap p)" "ev_Hash (deref p r) = h"
    "RecoverSingle limit False h now None p = PushFront limit r (store r (recovered (pr_rule p) now) (DeleteProcessEvent h p))"
proof -
  from assms(1) obtain r where r: "mget (pr_fires p) h = Some r" "ev_JudgeType (deref p r) = Origin"
    by (auto simp: can_recover_def events_of_def)
  with assms(2) have b: "r < length (pr_heap p)" "ev_Hash (deref p r) = h" by (auto simp: map_inv_def)
  have wait: "\<not> (ar_RecoverDuration (pr_rule p) > 0 \<and>
      (case mget (pr_pendingsUseByRecover p) h of None \<Rightarrow> True
       | Some seen \<Rightarrow> now - ev_LastEvalTime (deref p seen) < ar_RecoverDuration (pr_rule p)))"
    using assms(1) by (auto simp: can_recover_def events_of_def)
  have rule: "pr_rule (DeleteProcessEvent h p) = pr_rule p" "length (pr_heap (DeleteProcessEvent h p)) = length (pr_heap p)"
    by (simp_all add: DeleteProcessEvent_def)
  have "RecoverSingle limit False h now None p =
      pushEventToQueue limit r (store r (recovered (pr_rule p) now) (DeleteProcessEvent h p))"
    unfolding RecoverSingle_def aem_Get_def r(1) option.case if_not_P [OF wait]
    using r(2) by (simp add: rule recovered_def [abs_def] Let_def)
  also have "\<dots> = PushFront limit r (store r (recovered (pr_rule p) now) (DeleteProcessEvent h p))"
    using b(1) by (simp add: pushEventToQueue_def deref_store rule)
  finally show thesis using that r(1) b by blast
qed

lemma DeleteProcessEvent_simps [simp]:
  "pr_rule (DeleteProcessEvent h p) = pr_rule p" "pr_heap (DeleteProcessEvent h p) = pr_heap p"
  "pr_queue (DeleteProcessEvent h p) = pr_queue p" "pr_fires (DeleteProcessEvent h p) = mdel h (pr_fires p)"
  "pr_pendings (DeleteProcessEvent h p) = mdel h (pr_pendings p)"
  "pr_pendingsUseByRecover (DeleteProcessEvent h p) = mdel h (pr_pendingsUseByRecover p)"
  by (simp_all add: DeleteProcessEvent_def aem_Delete_def)

section \<open>All recoveries\<close>

definition step_of :: "nat \<Rightarrow> ref \<Rightarrow> string \<Rightarrow> int \<Rightarrow> processor \<Rightarrow> processor" where
  "step_of limit r h now p = PushFront limit r (store r (recovered (pr_rule p) now) (DeleteProcessEvent h p))"

lemma step_of_deref: "r < length (pr_heap p) \<Longrightarrow> deref (step_of limit r h now p) x = (if x = r then recovered (pr_rule p) now (deref p r) else deref p x)"
  by (simp add: step_of_def deref_store)

lemma step_of_simps [simp]:
  "pr_rule (step_of limit r h now p) = pr_rule p" "length (pr_heap (step_of limit r h now p)) = length (pr_heap p)"
  "pr_fires (step_of limit r h now p) = mdel h (pr_fires p)" "pr_pendings (step_of limit r h now p) = mdel h (pr_pendings p)"
  "pr_pendingsUseByRecover (step_of limit r h now p) = mdel h (pr_pendingsUseByRecover p)"
  by (simp_all add: step_of_def)

lemma step_of_inv:
  assumes "rec_inv p" "r < length (pr_heap p)"
  shows "rec_inv (step_of limit r h now p)"
  using assms unfolding rec_inv_def map_inv_def
  by (auto simp: step_of_deref simp del: mget_mdel) (auto split: if_splits)

lemma events_of_other:
  assumes "map_inv p m" "r < length (pr_heap p)" "ev_Hash (deref p r) = h" "h' \<noteq> h"
  shows "events_of (step_of limit r h now p) (mdel h m) h' = events_of p m h'"
proof (cases "mget m h'")
  case (Some x)
  with assms have "x \<noteq> r" by (auto simp: map_inv_def)
  with Some assms(2,4) show ?thesis by (simp add: events_of_def step_of_deref)
qed (simp add: events_of_def assms(4))

lemma can_recover_other:
  assumes "rec_inv p" "r < length (pr_heap p)" "ev_Hash (deref p r) = h" "h' \<noteq> h"
  shows "can_recover (step_of limit r h now p) t h' = can_recover p t h'"
  using assms by (simp add: can_recover_def rec_inv_def events_of_other)

lemma recover_all_Cons:
  "recover_all limit (h # hs) now p = recover_all limit hs now (RecoverSingle limit False h now None p)"
  by simp

lemma recover_all_spec:
  assumes "rec_inv p" "distinct hs" "length (pr_queue p) + length hs \<le> limit"
  shows "\<exists>news. pr_queue (recover_all limit hs now p) = rev news @ pr_queue p \<and> distinct news
    \<and> set news = {r. \<exists>h \<in> set hs. mget (pr_fires p) h = Some r \<and> can_recover p now h}
    \<and> (\<forall>h. mget (pr_fires (recover_all limit hs now p)) h = (if h \<in> set hs \<and> can_recover p now h then None else mget (pr_fires p) h))
    \<and> (\<forall>x. deref (recover_all limit hs now p) x = (if x \<in> set news then recovered (pr_rule p) now (deref p x) else deref p x))"
  using assms
proof (induction hs arbitrary: p)
  case Nil
  show ?case by (rule exI [of _ "[]"]) simp
next
  case (Cons h hs)
  show ?case
  proof (cases "can_recover p now h")
    case False
    have IH: "\<exists>news. pr_queue (recover_all limit hs now p) = rev news @ pr_queue p \<and> distinct news
      \<and> set news = {r. \<exists>h \<in> set hs. mget (pr_fires p) h = Some r \<and> can_recover p now h}
      \<and> (\<forall>h. mget (pr_fires (recover_all limit hs now p)) h = (if h \<in> set hs \<and> can_recover p now h then None else mget (pr_fires p) h))
      \<and> (\<forall>x. deref (recover_all limit hs now p) x = (if x \<in> set news then recovered (pr_rule p) now (deref p x) else deref p x))"
      by (rule Cons.IH) (use Cons.prems in simp_all)
    have sets: "{r. \<exists>k \<in> set (h # hs). mget (pr_fires p) k = Some r \<and> can_recover p now k}
        = {r. \<exists>k \<in> set hs. mget (pr_fires p) k = Some r \<and> can_recover p now k}"
      "(k \<in> set (h # hs) \<and> can_recover p now k) = (k \<in> set hs \<and> can_recover p now k)" for k
      using False by auto
    show ?thesis unfolding recover_all_Cons RecoverSingle_no [OF False] sets by (rule IH)
  next
    case True
    have inv: "map_inv p (pr_fires p)" using Cons.prems(1) by (simp add: rec_inv_def)
    obtain r where r: "mget (pr_fires p) h = Some r" "r < length (pr_heap p)" "ev_Hash (deref p r) = h"
      "RecoverSingle limit False h now None p = step_of limit r h now p"
      using RecoverSingle_yes [OF True inv, of limit] unfolding step_of_def by metis
    let ?q = "step_of limit r h now p"
    have h: "h \<notin> set hs" using Cons.prems(2) by simp
    have queue: "pr_queue ?q = r # pr_queue p" using Cons.prems(3) by (simp add: step_of_def PushFront_def)
    have other: "can_recover ?q now k = can_recover p now k" if "k \<in> set hs" for k
      using that h can_recover_other [OF Cons.prems(1) r(2,3)] by metis
    obtain news where n: "pr_queue (recover_all limit hs now ?q) = rev news @ pr_queue ?q" "distinct news"
      "set news = {x. \<exists>k \<in> set hs. mget (pr_fires ?q) k = Some x \<and> can_recover ?q now k}"
      "\<forall>k. mget (pr_fires (recover_all limit hs now ?q)) k = (if k \<in> set hs \<and> can_recover ?q now k then None else mget (pr_fires ?q) k)"
      "\<forall>x. deref (recover_all limit hs now ?q) x = (if x \<in> set news then recovered (pr_rule ?q) now (deref ?q x) else deref ?q x)"
    proof -
      have "distinct hs" "length (pr_queue ?q) + length hs \<le> limit" using Cons.prems(2,3) queue by simp_all
      from Cons.IH [OF step_of_inv [OF Cons.prems(1) r(2)] this] show thesis
        by (elim exE conjE) (rule that)
    qed
    have set: "set news = {x. \<exists>k \<in> set hs. mget (pr_fires p) k = Some x \<and> can_recover p now k}"
    proof -
      have "(mget (pr_fires ?q) k = Some x \<and> can_recover ?q now k) = (mget (pr_fires p) k = Some x \<and> can_recover p now k)"
        if "k \<in> set hs" for k x
        using that h other by auto
      then show ?thesis unfolding n(3) by (intro Collect_cong bex_cong refl)
    qed
    have fresh: "r \<notin> set news"
    proof
      assume "r \<in> set news"
      then obtain k where "k \<in> set hs" "mget (pr_fires p) k = Some r" unfolding set by auto
      with inv r(3) h show False unfolding map_inv_def by metis
    qed
    have q: "pr_queue (recover_all limit hs now ?q) = rev (r # news) @ pr_queue p" using n(1) queue by simp
    have d: "distinct (r # news)" using n(2) fresh by simp
    have s: "set (r # news) = {x. \<exists>k \<in> set (h # hs). mget (pr_fires p) k = Some x \<and> can_recover p now k}"
      using set r(1) True by auto
    have f: "\<forall>k. mget (pr_fires (recover_all limit hs now ?q)) k =
        (if k \<in> set (h # hs) \<and> can_recover p now k then None else mget (pr_fires p) k)"
      using n(4) other True by auto
    have v: "\<forall>x. deref (recover_all limit hs now ?q) x = (if x \<in> set (r # news) then recovered (pr_rule p) now (deref p x) else deref p x)"
      using n(5) fresh r(2) by (simp add: step_of_deref)
    show ?thesis unfolding recover_all_Cons r(4) by (rule exI [of _ "r # news"]) (intro conjI q d s f v)
  qed
qed

section \<open>The end of an evaluation\<close>

lemma drop_pendings_simps [simp]:
  "pr_fires (drop_pendings ks hs p) = pr_fires p" "pr_rule (drop_pendings ks hs p) = pr_rule p"
  "pr_heap (drop_pendings ks hs p) = pr_heap p" "pr_queue (drop_pendings ks hs p) = pr_queue p"
  "pr_pendingsUseByRecover (drop_pendings ks hs p) = pr_pendingsUseByRecover p"
  by (induction ks hs p rule: drop_pendings.induct) simp_all

lemma drop_pendings_deref [simp]: "deref (drop_pendings ks hs p) r = deref p r"
  by (simp add: deref_def)

lemma drop_pendings_pendings:
  "mget (pr_pendings (drop_pendings ks hs p)) h = (if h \<in> set hs \<and> h \<notin> set ks then None else mget (pr_pendings p) h)"
  by (induction ks hs p rule: drop_pendings.induct) (auto simp: aem_Delete_def)

lemma drop_pendings_can_recover [simp]: "can_recover (drop_pendings ks hs p) now h = can_recover p now h"
  by (simp add: can_recover_def events_of_def)

lemma drop_pendings_rec_inv [simp]: "rec_inv (drop_pendings ks hs p) = rec_inv p"
  by (simp add: rec_inv_def map_inv_def)

lemma RecoverSingle_pendings: "mget (pr_pendings (RecoverSingle limit b h now v p)) k \<in> {None, mget (pr_pendings p) k}"
  by (auto simp: RecoverSingle_def pushEventToQueue_def Let_def split: option.splits)

lemma recover_all_pendings: "mget (pr_pendings (recover_all limit hs now p)) k \<in> {None, mget (pr_pendings p) k}"
proof (induction limit hs now p rule: recover_all.induct)
  case (2 limit hash hs now p)
  then show ?case using RecoverSingle_pendings [of limit False hash now None p k] by auto
qed simp

lemma range_order_distinct: "range_order ord \<Longrightarrow> distinct (ord xs) = distinct xs"
  using mset_eq_imp_distinct_iff unfolding range_order_def by blast

lemma range_order_length: "range_order ord \<Longrightarrow> length (ord xs) = length xs"
  using mset_eq_length unfolding range_order_def by blast

lemma keys_of_range: "range_order ord \<Longrightarrow> set (aem_Keys ord m) = dom (mget m)"
  by (auto simp: aem_Keys_def range_order_set dom_map_of_conv_image_fst)

lemma keys_distinct: "range_order ord \<Longrightarrow> mwf m \<Longrightarrow> distinct (aem_Keys ord m)"
  by (simp add: aem_Keys_def range_order_distinct mwf_def)


definition two_firing :: processor where
  "two_firing = (idle repeat_rule)\<lparr>pr_heap := [(seen_at 100)\<lparr>ev_Hash := ''a''\<rparr>, (seen_at 100)\<lparr>ev_Hash := ''b''\<rparr>],
     pr_fires := [(''a'', 0), (''b'', 1)], pr_pendings := [(''a'', 0)]\<rparr>"

lemma distinct_singleton: "distinct xs \<Longrightarrow> set xs = {x} \<Longrightarrow> xs = [x]"
  by (cases xs rule: remdups_adj.cases) auto


end
