(* ===== verification/Event_Building.thy ===== *)
theory Event_Building
  imports Dispatch Alert_Recovery
begin

text \<open>
  From a point of a query to an alert event: \<^verbatim>\<open>models/anomaly_point.go\<close>, and \<^verbatim>\<open>BuildEvent\<close> with the functions it calls in
  \<^verbatim>\<open>alert/process/process.go\<close>. The processor writes the labels into its own fields \<^verbatim>\<open>tagsMap\<close> and \<^verbatim>\<open>tagsArr\<close>, which only
  \<^verbatim>\<open>BuildEvent\<close> reads, right after: here they are the result of \<open>fillTags\<close>.

  The record \<open>build_env\<close> holds the caches a processor reads, and the functions of other packages it calls: the digest
  \<^verbatim>\<open>str.MD5\<close>, the text of a label set \<^verbatim>\<open>model.Metric.String\<close>, the templates of \<^verbatim>\<open>html/template\<close>, and the decoders
  of \<^verbatim>\<open>encoding/json\<close> for a query and for annotations. A cache entry that is nil is absent. A business group and a data
  source are given by their names.
\<close>

section \<open>Points\<close>

record FormattedValue =
  fv_Value :: rat
  fv_Unit :: string
  fv_Text :: string
  fv_Stat :: rat

record AnomalyPoint =
  ap_Key :: string
  ap_Labels :: tags
  ap_Timestamp :: int
  ap_Value :: rat
  ap_Severity :: int
  ap_Triggered :: bool
  ap_Query :: string
  ap_Values :: string
  ap_ValuesUnit :: "(string, FormattedValue) gomap"
  ap_JudgeType :: int
  ap_RecoverExp :: string
  ap_TriggerType :: string

definition TriggerTypeNormal :: string where "TriggerTypeNormal = ''normal''"
definition TriggerTypeNodata :: string where "TriggerTypeNodata = ''nodata''"

definition TrimRight :: "string \<Rightarrow> char \<Rightarrow> string" where
  "TrimRight s c = rev (dropWhile (\<lambda>d. d = c) (rev s))"

text \<open>\<open>ord\<close> is the order in which the map of the values is visited, \<open>fmt_5f\<close> is the format \<^verbatim>\<open>%.5f\<close>.\<close>

definition ReadableValue ::
  "(rat \<Rightarrow> string) \<Rightarrow> ((string, FormattedValue) gomap \<Rightarrow> (string, FormattedValue) gomap) \<Rightarrow> AnomalyPoint \<Rightarrow> string" where
  "ReadableValue fmt_5f ord v =
     (case (if length (ap_ValuesUnit v) > 0 then ord (ap_ValuesUnit v) else []) of
        (k, u) # _ \<Rightarrow> fv_Text u
      | [] \<Rightarrow> TrimRight (TrimRight (fmt_5f (ap_Value v)) CHR ''0'') CHR ''.'')"

section \<open>The environment of a processor\<close>

record RuleQuery =
  rq_Version :: string
  rq_Inhibit :: bool
  rq_Queries :: gval
  rq_ExpTriggerDisable :: bool
  rq_Triggers :: gval
  rq_NodataTrigger :: gval
  rq_AnomalyTrigger :: gval
  rq_TriggerType :: string

record build_env =
  be_alertRuleCache :: "(int, AlertRule) gomap"
  be_TargetCache :: target_cache
  be_BusiGroupCache :: "(int, string) gomap"
  be_alertMuteCache :: mute_cache
  be_datasourceCache :: "(int, string) gomap"
  be_EventProcessorCache :: "(int, EventPipeline) gomap"
  be_MD5 :: "string \<Rightarrow> string"
  be_Metric_String :: "tags \<Rightarrow> string"
  be_html_Parse :: "string \<Rightarrow> string + (AlertCurEvent \<Rightarrow> string + string)"
  be_fmt_5f :: "rat \<Rightarrow> string"
  be_RuleQuery_of :: "string \<Rightarrow> RuleQuery"
  be_RuleQuery_json :: "RuleQuery \<Rightarrow> string"
  be_annotations_of :: "string \<Rightarrow> string + tags"
  be_ordTags :: "tags \<Rightarrow> tags"
  be_ordValues :: "(string, FormattedValue) gomap \<Rightarrow> (string, FormattedValue) gomap"

fun GetNamesByBusiGroupIds :: "(int, string) gomap \<Rightarrow> int list \<Rightarrow> string list" where
  "GetNamesByBusiGroupIds ugs [] = []"
| "GetNamesByBusiGroupIds ugs (i # is) =
     (case mget ugs i of None \<Rightarrow> GetNamesByBusiGroupIds ugs is | Some name \<Rightarrow> name # GetNamesByBusiGroupIds ugs is)"

section \<open>Hashes\<close>

definition Hash :: "build_env \<Rightarrow> int \<Rightarrow> int \<Rightarrow> AnomalyPoint \<Rightarrow> string" where
  "Hash E ruleId datasourceId vector =
     be_MD5 E (Itoa ruleId @ ''_'' @ be_Metric_String E (ap_Labels vector) @ ''_'' @ Itoa datasourceId @ ''_''
       @ Itoa (ap_Severity vector) @ ''_'' @ ap_Query vector)"

definition TagHash :: "build_env \<Rightarrow> AnomalyPoint \<Rightarrow> string" where
  "TagHash E vector = be_MD5 E (be_Metric_String E (ap_Labels vector))"

definition rule_Hash :: "build_env \<Rightarrow> AlertRule \<Rightarrow> string" where
  "rule_Hash E ar = be_MD5 E (Itoa (ar_Id ar) @ ''_'' @ ar_DatasourceIds ar @ ''_'' @ ar_RuleConfig ar)"

section \<open>Labels\<close>

definition labelMapToArr :: "(tags \<Rightarrow> tags) \<Rightarrow> tags \<Rightarrow> string list" where
  "labelMapToArr ord m =
     (let labelStrings = map (\<lambda>(label, value). label @ ''='' @ value) (ord m)
      in if length m > 1 then sort labelStrings else labelStrings)"

definition tag_value :: "build_env \<Rightarrow> string \<Rightarrow> tags \<Rightarrow> string" where
  "tag_value E value tagsMap =
     (case be_html_Parse E (''{{$labels := .TagsMap}}'' @ ''{{$value := .TriggerValue}}'' @ value) of
        Inl err \<Rightarrow> ''parse tag value failed, err:'' @ err
      | Inr execute \<Rightarrow>
          (case execute (zero_event\<lparr>ev_TagsMap := tagsMap\<rparr>) of
             Inl err \<Rightarrow> ''parse tag value failed, err:'' @ err
           | Inr body \<Rightarrow> body))"

text \<open>A tag of the rule without an equals sign makes \<^verbatim>\<open>arr[1]\<close> panic: \<open>None\<close>.\<close>

fun fill_loop :: "build_env \<Rightarrow> string list \<Rightarrow> tags \<Rightarrow> tags option" where
  "fill_loop E [] tagsMap = Some tagsMap"
| "fill_loop E (tag # ts) tagsMap =
     (case SplitN2 CHR ''='' tag of
        [k, v] \<Rightarrow> fill_loop E ts (mput k (tag_value E v tagsMap) tagsMap)
      | _ \<Rightarrow> None)"

definition fillTags :: "build_env \<Rightarrow> AlertRule \<Rightarrow> AnomalyPoint \<Rightarrow> (tags \<times> string list) option" where
  "fillTags E rule anomalyPoint =
     (case fill_loop E (ar_AppendTagsJSON rule @ [''rulename='' @ ar_Name rule]) (tags_loop [] (be_ordTags E (ap_Labels anomalyPoint))) of
        None \<Rightarrow> None
      | Some tagsMap \<Rightarrow> Some (tagsMap, labelMapToArr (be_ordTags E) tagsMap))"

definition mayHandleIdent :: "build_env \<Rightarrow> AlertCurEvent \<Rightarrow> AlertCurEvent" where
  "mayHandleIdent E event =
     (case mget (ev_TagsMap event) ''ident'' of
        Some ident \<Rightarrow>
          (case mget (be_TargetCache E) ident of
             Some target \<Rightarrow> event\<lparr>ev_TargetIdent := tg_Ident target, ev_TargetNote := tg_Note target\<rparr>
           | None \<Rightarrow> event\<lparr>ev_TargetIdent := ident, ev_TargetNote := []\<rparr>)
      | None \<Rightarrow> event\<lparr>ev_TargetIdent := [], ev_TargetNote := []\<rparr>)"

definition rule_Relabel :: "relabel_lib \<Rightarrow> AlertRule \<Rightarrow> AlertCurEvent \<Rightarrow> AlertCurEvent option" where
  "rule_Relabel R rule event =
     (let event1 = event\<lparr>ev_OriginalTags := ev_Tags event, ev_OriginalTagsJSON := ev_TagsJSON event\<rparr>
      in if length (ar_EventRelabelConfig rule) = 0 then Some event1
         else EventRelabel R event1 (ar_EventRelabelConfig rule))"

section \<open>BuildEvent\<close>

definition units_json :: "(string, FormattedValue) gomap \<Rightarrow> gval" where
  "units_json m = VMap (map (\<lambda>(k, u). (k, VMap [(''value'', VFloat (fv_Value u)), (''unit'', VString (fv_Unit u)),
     (''text'', VString (fv_Text u)), (''stat'', VFloat (fv_Stat u))])) m)"

text \<open>The fields of the event up to the time of the evaluation, in the order of the code: a new event with the name of
  its group, the values of the point and of the rule, the mark of a missing value, the annotations, and the values as
  text where there are several.\<close>

definition group_event :: "build_env \<Rightarrow> AlertRule \<Rightarrow> AlertCurEvent" where
  "group_event E rule =
     (case mget (be_BusiGroupCache E) (ar_GroupId rule) of
        None \<Rightarrow> GenerateNewEvent rule
      | Some name \<Rightarrow> (GenerateNewEvent rule)\<lparr>ev_GroupName := name\<rparr>)"

definition point_fields :: "build_env \<Rightarrow> AlertRule \<Rightarrow> int \<Rightarrow> AnomalyPoint \<Rightarrow> string \<Rightarrow> tags \<Rightarrow> string list \<Rightarrow> AlertCurEvent \<Rightarrow> AlertCurEvent" where
  "point_fields E rule datasourceId anomalyPoint ruleHash tagsMap tagsArr event = event\<lparr>
     ev_TriggerTime := ap_Timestamp anomalyPoint,
     ev_TagsMap := tagsMap,
     ev_DatasourceId := datasourceId,
     ev_Cluster := (case mget (be_datasourceCache E) datasourceId of None \<Rightarrow> [] | Some name \<Rightarrow> name),
     ev_Hash := Hash E (ar_Id rule) datasourceId anomalyPoint,
     ev_TriggerValue := ReadableValue (be_fmt_5f E) (be_ordValues E) anomalyPoint,
     ev_TriggerValues := ap_Values anomalyPoint,
     ev_TriggerValuesJson := VMap [(''values_with_unit'', units_json (ap_ValuesUnit anomalyPoint))],
     ev_TagsJSON := tagsArr,
     ev_Tags := Join '',,'' tagsArr,
     ev_IsRecovered := False,
     ev_Callbacks := ar_Callbacks rule,
     ev_CallbacksJSON := ar_CallbacksJSON rule,
     ev_Annotations := ar_Annotations rule,
     ev_RuleConfig := ar_RuleConfig rule,
     ev_RuleConfigJson := ar_RuleConfigJson rule,
     ev_Severity := ap_Severity anomalyPoint,
     ev_ExtraConfig := ar_ExtraConfigJSON rule,
     ev_PromQl := ap_Query anomalyPoint,
     ev_JudgeType := ap_JudgeType anomalyPoint,
     ev_RecoverExp := ap_RecoverExp anomalyPoint,
     ev_RuleHash := ruleHash\<rparr>"

definition mark_nodata :: "build_env \<Rightarrow> AlertRule \<Rightarrow> AnomalyPoint \<Rightarrow> AlertCurEvent \<Rightarrow> AlertCurEvent" where
  "mark_nodata E rule anomalyPoint event =
     (if ap_TriggerType anomalyPoint = TriggerTypeNodata
      then event\<lparr>ev_TriggerValue := ''nodata'',
                 ev_RuleConfig := be_RuleQuery_json E
                   ((be_RuleQuery_of E (ar_RuleConfig rule))\<lparr>rq_TriggerType := ap_TriggerType anomalyPoint\<rparr>)\<rparr>
      else event)"

definition fill_annotations :: "build_env \<Rightarrow> AlertRule \<Rightarrow> AlertCurEvent \<Rightarrow> AlertCurEvent" where
  "fill_annotations E rule event =
     event\<lparr>ev_AnnotationsJSON := (case be_annotations_of E (ar_Annotations rule) of Inl err \<Rightarrow> [] | Inr m \<Rightarrow> m)\<rparr>"

definition many_values :: "AlertCurEvent \<Rightarrow> AlertCurEvent" where
  "many_values event =
     (if ev_TriggerValues event \<noteq> [] \<and> length (filter (\<lambda>c. c = CHR ''$'') (ev_TriggerValues event)) > 1
      then event\<lparr>ev_TriggerValue := ev_TriggerValues event\<rparr> else event)"

definition point_event :: "build_env \<Rightarrow> AlertRule \<Rightarrow> int \<Rightarrow> AnomalyPoint \<Rightarrow> string \<Rightarrow> tags \<Rightarrow> string list \<Rightarrow> AlertCurEvent" where
  "point_event E rule datasourceId anomalyPoint ruleHash tagsMap tagsArr =
     many_values (fill_annotations E rule (mark_nodata E rule anomalyPoint
       (point_fields E rule datasourceId anomalyPoint ruleHash tagsMap tagsArr (group_event E rule))))"

definition fill_target :: "build_env \<Rightarrow> AlertCurEvent \<Rightarrow> AlertCurEvent" where
  "fill_target E event =
     (if ev_TargetIdent event \<noteq> []
      then (case mget (be_TargetCache E) (ev_TargetIdent event) of
              None \<Rightarrow> event
            | Some pt \<Rightarrow> event\<lparr>ev_Target := Some (pt\<lparr>tg_GroupNames := GetNamesByBusiGroupIds (be_BusiGroupCache E) (tg_GroupIds pt)\<rparr>)\<rparr>)
      else event)"

definition BuildEvent ::
  "relabel_lib \<Rightarrow> build_env \<Rightarrow> AlertRule \<Rightarrow> int \<Rightarrow> AnomalyPoint \<Rightarrow> string \<Rightarrow> int \<Rightarrow> string \<Rightarrow> AlertCurEvent option" where
  "BuildEvent R E rule datasourceId anomalyPoint from now ruleHash =
     do {
       (tagsMap, tagsArr) \<leftarrow> fillTags E rule anomalyPoint;
       let event = point_event E rule datasourceId anomalyPoint ruleHash tagsMap tagsArr;
       let event = event\<lparr>ev_LastEvalTime := (if from = ''inner'' then now else ev_TriggerTime event)\<rparr>;
       event \<leftarrow> rule_Relabel R rule event;
       Some (fill_target E (mayHandleIdent E event))
     }"

section \<open>The labels of a built event\<close>

definition tag_key :: "string \<Rightarrow> string" where
  "tag_key tag = takeWhile (\<lambda>c. c \<noteq> CHR ''='') tag"

lemma fill_loop_None: "fill_loop E ts m = None \<longleftrightarrow> (\<exists>t \<in> set ts. CHR ''='' \<notin> set t)"
  by (induction E ts m rule: fill_loop.induct) (auto simp: SplitN2_def)

lemma fill_loop_keeps: "fill_loop E ts m = Some m' \<Longrightarrow> k \<notin> tag_key ` set ts \<Longrightarrow> mget m' k = mget m k"
  by (induction E ts m rule: fill_loop.induct) (auto simp: SplitN2_def tag_key_def split: if_splits)

lemma fill_loop_mwf: "fill_loop E ts m = Some m' \<Longrightarrow> mwf m \<Longrightarrow> mwf m'"
  by (induction E ts m rule: fill_loop.induct) (auto simp: SplitN2_def split: if_splits)

lemma fill_loop_dom: "fill_loop E ts m = Some m' \<Longrightarrow> dom (mget m') = dom (mget m) \<union> tag_key ` set ts"
  by (induction E ts m rule: fill_loop.induct) (auto simp: SplitN2_def tag_key_def split: if_splits)

lemma tags_loop_mwf: "mwf m \<Longrightarrow> mwf (tags_loop m ls)"
  by (induction m ls rule: tags_loop.induct) simp_all

lemma tags_loop_get: "distinct (map fst ls) \<Longrightarrow> mget (tags_loop m ls) k = (case mget ls k of None \<Rightarrow> mget m k | Some v \<Rightarrow> Some v)"
proof (induction m ls rule: tags_loop.induct)
  case (2 m name v ls)
  have "mget ls name = None" using "2.prems" by (simp add: map_of_eq_None_iff)
  with 2 show ?case by (cases "k = name") (simp_all split: option.split)
qed simp

lemma range_order_mwf: "range_order ord \<Longrightarrow> mwf (ord m) = mwf m"
  unfolding mwf_def range_order_def by (metis mset_eq_imp_distinct_iff mset_map)

lemma mget_perm: "mset m' = mset m \<Longrightarrow> mwf m \<Longrightarrow> mget m' = mget m"
  unfolding mwf_def by (metis map_of_inject_set mset_eq_imp_distinct_iff mset_eq_setD mset_map)

lemma mset_of_map: "mwf m \<Longrightarrow> mwf m' \<Longrightarrow> mget m = mget m' \<Longrightarrow> mset m = mset m'"
  unfolding mwf_def by (metis distinct_map map_of_inject_set set_eq_iff_mset_eq_distinct)

lemma copied_labels:
  assumes "range_order ord" "mwf ls"
  shows "mget (tags_loop [] (ord ls)) = mget ls"
proof
  fix k
  have "mwf (ord ls)" using assms by (simp add: range_order_mwf)
  moreover have "mget (ord ls) = mget ls" using assms mget_perm unfolding range_order_def by blast
  ultimately show "mget (tags_loop [] (ord ls)) k = mget ls k" by (simp add: tags_loop_get mwf_def split: option.split)
qed

lemma sort_mset_cong: "mset xs = mset (ys :: 'a :: linorder list) \<Longrightarrow> sort xs = sort ys"
  by (rule properties_for_sort) simp_all

lemma labelMapToArr_sort:
  assumes "range_order ord"
  shows "labelMapToArr ord m = sort (map (\<lambda>(k, v). k @ ''='' @ v) m)"
proof -
  have ms: "mset (ord m) = mset m" using assms by (simp add: range_order_def)
  show ?thesis
  proof (cases "length m > 1")
    case True
    have "mset (map (\<lambda>(k, v). k @ ''='' @ v) (ord m)) = mset (map (\<lambda>(k, v). k @ ''='' @ v) m)" using ms by simp
    then have "sort (map (\<lambda>(k, v). k @ ''='' @ v) (ord m)) = sort (map (\<lambda>(k, v). k @ ''='' @ v) m)"
      by (rule sort_mset_cong)
    with True show ?thesis by (simp add: labelMapToArr_def)
  next
    case False
    then consider "m = []" | x where "m = [x]" by (cases m rule: remdups_adj.cases) auto
    then have "ord m = m \<and> sort (map (\<lambda>(k, v). k @ ''='' @ v) m) = map (\<lambda>(k, v). k @ ''='' @ v) m"
      using ms by cases simp_all
    with False show ?thesis by (simp add: labelMapToArr_def)
  qed
qed

lemma labelMapToArr_order_free:
  assumes "range_order ord" "range_order ord'" "mwf m" "mwf m'" "mget m = mget m'"
  shows "labelMapToArr ord m = labelMapToArr ord' m'"
proof -
  have "mset (map (\<lambda>(k, v). k @ ''='' @ v) m) = mset (map (\<lambda>(k, v). k @ ''='' @ v) m')"
    using mset_of_map [OF assms(3-5)] by simp
  then have "sort (map (\<lambda>(k, v). k @ ''='' @ v) m) = sort (map (\<lambda>(k, v). k @ ''='' @ v) m')"
    by (rule sort_mset_cong)
  then show ?thesis by (simp add: labelMapToArr_sort [OF assms(1)] labelMapToArr_sort [OF assms(2)])
qed

lemma point_event_simps [simp]:
  "ev_Hash (point_event E rule d a rh m arr) = Hash E (ar_Id rule) d a"
  "ev_Severity (point_event E rule d a rh m arr) = ap_Severity a"
  "ev_TagsMap (point_event E rule d a rh m arr) = m" "ev_TagsJSON (point_event E rule d a rh m arr) = arr"
  "\<not> ev_IsRecovered (point_event E rule d a rh m arr)"
  by (simp_all add: point_event_def many_values_def fill_annotations_def mark_nodata_def point_fields_def)

lemma EventRelabel_frame:
  "EventRelabel R e cs = Some e' \<Longrightarrow> ev_Hash e' = ev_Hash e \<and> ev_IsRecovered e' = ev_IsRecovered e \<and> ev_LastEvalTime e' = ev_LastEvalTime e"
  by (auto simp: EventRelabel_def Let_def split: option.splits)

lemma rule_Relabel_frame:
  "rule_Relabel R rule e = Some e' \<Longrightarrow> ev_Hash e' = ev_Hash e \<and> ev_IsRecovered e' = ev_IsRecovered e \<and> ev_LastEvalTime e' = ev_LastEvalTime e"
  by (auto simp: rule_Relabel_def Let_def dest: EventRelabel_frame split: if_splits)

lemma mayHandleIdent_simps [simp]:
  "ev_Hash (mayHandleIdent E e) = ev_Hash e" "ev_Severity (mayHandleIdent E e) = ev_Severity e"
  "ev_TagsMap (mayHandleIdent E e) = ev_TagsMap e" "ev_TagsJSON (mayHandleIdent E e) = ev_TagsJSON e"
  "ev_IsRecovered (mayHandleIdent E e) = ev_IsRecovered e" "ev_LastEvalTime (mayHandleIdent E e) = ev_LastEvalTime e"
  by (simp_all add: mayHandleIdent_def split: option.split)

lemma fill_target_simps [simp]:
  "ev_Hash (fill_target E e) = ev_Hash e" "ev_Severity (fill_target E e) = ev_Severity e"
  "ev_TagsMap (fill_target E e) = ev_TagsMap e" "ev_TagsJSON (fill_target E e) = ev_TagsJSON e"
  "ev_IsRecovered (fill_target E e) = ev_IsRecovered e" "ev_LastEvalTime (fill_target E e) = ev_LastEvalTime e"
  by (simp_all add: fill_target_def split: option.split)

lemma BuildEvent_frame:
  assumes "BuildEvent R E rule d a from now rh = Some e"
  shows "ev_Hash e = Hash E (ar_Id rule) d a" "\<not> ev_IsRecovered e"
  using assms by (auto simp: BuildEvent_def Let_def split: Option.bind_splits dest!: rule_Relabel_frame)

lemma fillTags_spec:
  assumes "range_order (be_ordTags E)" "mwf (ap_Labels a)" "fillTags E rule a = Some (m, arr)"
  shows "arr = sort (map (\<lambda>(k, v). k @ ''='' @ v) m)"
    and "dom (mget m) = dom (mget (ap_Labels a)) \<union> tag_key ` set (ar_AppendTagsJSON rule) \<union> {''rulename''}"
    and "k \<notin> tag_key ` set (ar_AppendTagsJSON rule) \<Longrightarrow> k \<noteq> ''rulename'' \<Longrightarrow> mget m k = mget (ap_Labels a) k"
proof -
  let ?ts = "ar_AppendTagsJSON rule @ [''rulename='' @ ar_Name rule]"
  let ?m0 = "tags_loop [] (be_ordTags E (ap_Labels a))"
  have run: "fill_loop E ?ts ?m0 = Some m" and arr: "arr = labelMapToArr (be_ordTags E) m"
    using assms(3) by (auto simp: fillTags_def split: option.splits)
  have name: "tag_key (''rulename='' @ ar_Name rule) = ''rulename''" by (simp add: tag_key_def)
  have keys: "tag_key ` set ?ts = tag_key ` set (ar_AppendTagsJSON rule) \<union> {''rulename''}"
    unfolding set_append image_Un list.set image_insert image_empty name ..
  show "arr = sort (map (\<lambda>(k, v). k @ ''='' @ v) m)" by (simp only: arr labelMapToArr_sort [OF assms(1)])
  show "dom (mget m) = dom (mget (ap_Labels a)) \<union> tag_key ` set (ar_AppendTagsJSON rule) \<union> {''rulename''}"
    unfolding fill_loop_dom [OF run] keys copied_labels [OF assms(1,2)] Un_assoc ..
  show "mget m k = mget (ap_Labels a) k" if "k \<notin> tag_key ` set (ar_AppendTagsJSON rule)" "k \<noteq> ''rulename''"
  proof -
    have "k \<notin> tag_key ` set ?ts" unfolding keys using that by simp
    from fill_loop_keeps [OF run this] show ?thesis unfolding copied_labels [OF assms(1,2)] .
  qed
qed

lemma option_case_None: "(case x of None \<Rightarrow> None | Some y \<Rightarrow> Some (f y)) = None \<longleftrightarrow> x = None"
  by (cases x) simp_all

lemma fillTags_None: "fillTags E rule a = None \<longleftrightarrow> (\<exists>t \<in> set (ar_AppendTagsJSON rule). CHR ''='' \<notin> set t)"
proof -
  have "fill_loop E (ar_AppendTagsJSON rule @ [''rulename='' @ ar_Name rule]) m = None
      \<longleftrightarrow> (\<exists>t \<in> set (ar_AppendTagsJSON rule). CHR ''='' \<notin> set t)" for m
    unfolding fill_loop_None by auto
  moreover have "fillTags E rule a = None \<longleftrightarrow>
      fill_loop E (ar_AppendTagsJSON rule @ [''rulename='' @ ar_Name rule]) (tags_loop [] (be_ordTags E (ap_Labels a))) = None"
    unfolding fillTags_def by (rule option_case_None)
  ultimately show ?thesis by simp
qed

lemma point_event_TriggerTime [simp]: "ev_TriggerTime (point_event E rule d a rh m arr) = ap_Timestamp a"
  by (simp add: point_event_def many_values_def fill_annotations_def mark_nodata_def point_fields_def)


definition plain_env :: build_env where
  "plain_env = \<lparr>be_alertRuleCache = [], be_TargetCache = [], be_BusiGroupCache = [], be_alertMuteCache = [], be_datasourceCache = [],
     be_EventProcessorCache = [], be_MD5 = (\<lambda>s. s), be_Metric_String = (\<lambda>m. Join '','' (map (\<lambda>(k, v). k @ ''='' @ v) m)),
     be_html_Parse = (\<lambda>t. Inr (\<lambda>e. Inr (drop 50 t))), be_fmt_5f = (\<lambda>v. ''0.00000''),
     be_RuleQuery_of = (\<lambda>c. \<lparr>rq_Version = [], rq_Inhibit = False, rq_Queries = VNil, rq_ExpTriggerDisable = False, rq_Triggers = VNil,
       rq_NodataTrigger = VNil, rq_AnomalyTrigger = VNil, rq_TriggerType = []\<rparr>), be_RuleQuery_json = rq_TriggerType,
     be_annotations_of = (\<lambda>c. Inr []), be_ordTags = rev, be_ordValues = rev\<rparr>"

definition cpu_point :: "int \<Rightarrow> AnomalyPoint" where
  "cpu_point sev = \<lparr>ap_Key = ''cpu'', ap_Labels = [(''host'', ''a''), (''env'', ''p'')], ap_Timestamp = 90, ap_Value = 1, ap_Severity = sev,
     ap_Triggered = True, ap_Query = ''q'', ap_Values = [], ap_ValuesUnit = [], ap_JudgeType = 0, ap_RecoverExp = [],
     ap_TriggerType = TriggerTypeNormal\<rparr>"

definition tag_rule :: AlertRule where
  "tag_rule = zero_rule\<lparr>ar_Id := 7, ar_Name := ''cpu'', ar_AppendTagsJSON := [''team=x'']\<rparr>"


end
