(* ===== verification/Alert_Handle.thy ===== *)
theory Alert_Handle
  imports Event_Building
begin

text \<open>
  One evaluation of an alert rule: \<^verbatim>\<open>Handle\<close> of \<^verbatim>\<open>alert/process/process.go\<close>, which builds the events, runs the pipelines, the mute
  strategies and the mute hook on them, fires what is left and recovers what stopped, with \<^verbatim>\<open>Eval\<close> of
  \<^verbatim>\<open>alert/eval/eval.go\<close> around it.

  The record \<open>handle_env\<close> holds what the processor calls: the libraries of the other theories, the workflow engine, the
  mute hook with its state, the bound of the queue, and the orders in which Go visits the maps. The query of the data
  source is an argument of \<open>Eval\<close>: an error, or the points that alert and the points that recover.
\<close>

section \<open>Handle\<close>

record 's handle_env =
  he_L :: stdlib
  he_J :: json_lib
  he_zone :: zone
  he_R :: relabel_lib
  he_build :: build_env
  he_execute :: "'s engine"
  he_EventMuteHook :: "'s EventMuteHookFunc"
  he_limit :: nat
  he_ordKeys :: "string list \<Rightarrow> string list"
  he_ordGroups :: "(string, ref list) gomap \<Rightarrow> (string, ref list) gomap"
  he_ordPoints :: "(string, AnomalyPoint) gomap \<Rightarrow> (string, AnomalyPoint) gomap"

text \<open>The body of the loop over the points up to \<^verbatim>\<open>TagHash\<close>: the hash that goes into \<^verbatim>\<open>alertingKeys\<close>, and the event, if it is
  neither dropped by a pipeline nor muted.\<close>

definition admit ::
  "'s handle_env \<Rightarrow> AlertRule \<Rightarrow> int \<Rightarrow> AnomalyPoint \<Rightarrow> string \<Rightarrow> int \<Rightarrow> string \<Rightarrow> 's \<Rightarrow> (string \<times> AlertCurEvent option \<times> 's) option" where
  "admit H cachedRule datasourceId anomalyPoint from now ruleHash s =
     do {
       event \<leftarrow> BuildEvent (he_R H) (he_build H) cachedRule datasourceId anomalyPoint from now ruleHash;
       let event = event\<lparr>ev_NotifyRuleIds := ar_NotifyRuleIds cachedRule\<rparr>;
       (result, ns, s1) \<leftarrow> HandleEventPipeline (he_L H) (he_J H) (he_execute H) (ar_PipelineConfigs cachedRule) event event
          (be_EventProcessorCache (he_build H)) (ar_Id cachedRule) ''alert_rule'' s;
       (case result of
          None \<Rightarrow> Some (ev_Hash event, None, s1)
        | Some ev \<Rightarrow> do {
            (isMuted, detail, muteId) \<leftarrow> IsMuted (he_L H) (he_zone H) cachedRule ev (be_TargetCache (he_build H)) (be_alertMuteCache (he_build H));
            if isMuted then Some (ev_Hash event, None, s1)
            else let (hit, s2) = he_EventMuteHook H (Some ev) s1
                 in Some (ev_Hash event, if hit then None else Some ev, s2)
          })
     }"

definition add_to_group :: "string \<Rightarrow> ref \<Rightarrow> (string, ref list) gomap \<Rightarrow> (string, ref list) gomap" where
  "add_to_group tagHash r eventsMap = mput tagHash ((case mget eventsMap tagHash of None \<Rightarrow> [] | Some rs \<Rightarrow> rs) @ [r]) eventsMap"

fun point_loop ::
  "'s handle_env \<Rightarrow> string \<Rightarrow> int \<Rightarrow> string \<Rightarrow> AnomalyPoint list \<Rightarrow> string list \<Rightarrow> (string, ref list) gomap \<Rightarrow> processor \<Rightarrow> 's \<Rightarrow>
   (string list \<times> (string, ref list) gomap \<times> processor \<times> 's) option" where
  "point_loop H from now ruleHash [] alertingKeys eventsMap p s = Some (alertingKeys, eventsMap, p, s)"
| "point_loop H from now ruleHash (pt # pts) alertingKeys eventsMap p s =
     (case admit H (pr_rule p) (pr_datasourceId p) pt from now ruleHash s of
        None \<Rightarrow> None
      | Some (hash, None, s') \<Rightarrow> point_loop H from now ruleHash pts (alertingKeys @ [hash]) eventsMap p s'
      | Some (hash, Some event, s') \<Rightarrow>
          (let (r, q) = alloc event p
           in point_loop H from now ruleHash pts (alertingKeys @ [hash]) (add_to_group (TagHash (he_build H) pt) r eventsMap) q s'))"

fun handle_groups :: "nat \<Rightarrow> ref list list \<Rightarrow> processor \<Rightarrow> processor" where
  "handle_groups limit [] p = p"
| "handle_groups limit (events # gs) p = handle_groups limit gs (handleEvent limit events p)"

definition Handle :: "'s handle_env \<Rightarrow> AnomalyPoint list \<Rightarrow> string \<Rightarrow> bool \<Rightarrow> int \<Rightarrow> processor \<Rightarrow> 's \<Rightarrow> (processor \<times> 's) option" where
  "Handle H anomalyPoints from inhibit now p s =
     (let p0 = p\<lparr>pr_inhibit := inhibit\<rparr> in
      case mget (be_alertRuleCache (he_build H)) (ar_Id (pr_rule p0)) of
        None \<Rightarrow> Some (p0, s)
      | Some cachedRule \<Rightarrow>
          (let ruleHash = rule_Hash (he_build H) (pr_rule p0);
               p1 = p0\<lparr>pr_rule := cachedRule\<rparr>
           in case point_loop H from now ruleHash anomalyPoints [] [] p1 s of
                None \<Rightarrow> None
              | Some (alertingKeys, eventsMap, p2, s') \<Rightarrow>
                  (let p3 = handle_groups (he_limit H) (map snd (he_ordGroups H eventsMap)) p2
                   in Some (if from = ''inner'' then HandleRecover (he_ordKeys H) (he_limit H) alertingKeys now inhibit p3 else p3, s'))))"

section \<open>Eval\<close>

text \<open>With inhibition, one recovery point per label set is kept, and the event of a less severe one is deleted.\<close>

fun merge_recover :: "'s handle_env \<Rightarrow> int \<Rightarrow> AnomalyPoint list \<Rightarrow> (string, AnomalyPoint) gomap \<Rightarrow> processor \<Rightarrow> (string, AnomalyPoint) gomap \<times> processor" where
  "merge_recover H ruleId [] pointsMap p = (pointsMap, p)"
| "merge_recover H ruleId (point # pts) pointsMap p =
     (let tagHash = TagHash (he_build H) point in
      case mget pointsMap tagHash of
        None \<Rightarrow> merge_recover H ruleId pts (mput tagHash point pointsMap) p
      | Some pre \<Rightarrow>
          if ap_Severity pre > ap_Severity point
          then let hash = Hash (he_build H) ruleId (pr_datasourceId p) pre;
                   q = DeleteProcessEvent hash p
               in merge_recover H ruleId pts (mput tagHash point pointsMap) (q\<lparr>pr_deleted := pr_deleted q @ [hash]\<rparr>)
          else merge_recover H ruleId pts pointsMap p)"

fun recover_points :: "'s handle_env \<Rightarrow> int \<Rightarrow> AnomalyPoint list \<Rightarrow> int \<Rightarrow> processor \<Rightarrow> processor" where
  "recover_points H ruleId [] now p = p"
| "recover_points H ruleId (point # pts) now p =
     recover_points H ruleId pts now
       (RecoverSingle (he_limit H) True (Hash (he_build H) ruleId (pr_datasourceId p) point) now
          (Some (fmt_float (he_L H) (ap_Value point), None)) p)"

definition Eval ::
  "'s handle_env \<Rightarrow> AlertRule \<Rightarrow> bool \<Rightarrow> int \<Rightarrow> string + (AnomalyPoint list \<times> AnomalyPoint list) \<Rightarrow> int \<Rightarrow> processor \<Rightarrow> 's \<Rightarrow>
   (processor \<times> 's) option" where
  "Eval H cachedRule inhibit interval queried now p s =
     (let p0 = (if pr_PromEvalInterval p = 0 then p\<lparr>pr_PromEvalInterval := interval\<rparr> else p) in
      case queried of
        Inl err \<Rightarrow> Some (p0, s)
      | Inr (anomalyPoints, recoverPoints) \<Rightarrow>
          (let p1 = (if inhibit
                     then let (pointsMap, q) = merge_recover H (ar_Id cachedRule) recoverPoints [] p0
                          in recover_points H (ar_Id cachedRule) (map snd (he_ordPoints H pointsMap)) now q
                     else recover_points H (ar_Id cachedRule) recoverPoints now p0)
           in Handle H anomalyPoints ''inner'' inhibit now p1 s))"

section \<open>What firing keeps\<close>

text \<open>\<open>grown p q\<close>: from \<open>p\<close> to \<open>q\<close> the heap only grew, and no event changed its hash, severity, labels or way to recover.\<close>

definition grown :: "processor \<Rightarrow> processor \<Rightarrow> bool" where
  "grown p q \<longleftrightarrow> length (pr_heap p) \<le> length (pr_heap q) \<and> (\<forall>x < length (pr_heap p). core (deref q x) = core (deref p x))
     \<and> pr_rule q = pr_rule p \<and> pr_datasourceId q = pr_datasourceId p \<and> pr_inhibit q = pr_inhibit p"

lemma grown_refl [simp]: "grown p p"
  by (simp add: grown_def)

lemma grown_trans [trans]: "grown p q \<Longrightarrow> grown q r \<Longrightarrow> grown p r"
  by (simp add: grown_def)

lemma grown_map_inv: "map_inv p m \<Longrightarrow> grown p q \<Longrightarrow> map_inv q m"
  by (erule map_inv_core) (simp_all add: grown_def)

lemma store_datasource [simp]: "pr_datasourceId (store r f p) = pr_datasourceId p"
  by (simp add: store_def)

lemma UpdateLastEvalTime_datasource [simp]: "pr_datasourceId (UpdateLastEvalTime m k t p) = pr_datasourceId p"
  by (simp add: UpdateLastEvalTime_def split: option.split)

lemma pushEventToQueue_datasource [simp]: "pr_datasourceId (pushEventToQueue limit r p) = pr_datasourceId p"
  by (simp add: pushEventToQueue_def PushFront_def Let_def)

lemma fireEvent_datasource [simp]: "pr_datasourceId (fireEvent limit r p) = pr_datasourceId p"
  by (simp add: fireEvent_def Let_def split: option.split)

lemma fireEvent_grown: "grown p (fireEvent limit r p)"
  by (simp add: grown_def core_fireEvent)

lemma alloc_grown: "alloc e p = (r, q) \<Longrightarrow> grown p q"
  by (auto simp: alloc_def grown_def deref_def nth_append)

lemma core_updates:
  "core (e\<lparr>ev_PromEvalInterval := i\<rparr>) = core e" "core (e\<lparr>ev_FirstEvalTime := t\<rparr>) = core e" "core (e\<lparr>ev_LastEvalTime := t\<rparr>) = core e"
  by (simp_all add: core_def)

lemma note_seen_grown: "grown p (note_seen r p)"
  unfolding grown_def note_seen_def Let_def
  by (simp add: core_store core_updates core_UpdateLastEvalTime)

lemma note_seen_maps [simp]: "pr_fires (note_seen r p) = pr_fires p" "pr_pendings (note_seen r p) = pr_pendings p"
  "pr_queue (note_seen r p) = pr_queue p"
  by (simp_all add: note_seen_def Let_def)

lemma note_seen_inv:
  assumes "rec_inv p" "r < length (pr_heap p)"
  shows "rec_inv (note_seen r p)"
proof -
  have "map_inv p (pr_pendingsUseByRecover (note_seen r p))"
    using assms map_inv_mput [of p "pr_pendingsUseByRecover p" r]
    by (simp add: note_seen_def rec_inv_def Let_def aem_Set_def)
  with assms(1) show ?thesis unfolding rec_inv_def note_seen_maps
    using grown_map_inv [OF _ note_seen_grown] by blast
qed

lemma note_pending_grown: "grown p (snd (note_pending r p))"
  by (simp add: grown_def note_pending_def Let_def core_store core_updates core_UpdateLastEvalTime split: option.split)

lemma note_pending_maps [simp]: "pr_fires (snd (note_pending r p)) = pr_fires p"
  "pr_pendingsUseByRecover (snd (note_pending r p)) = pr_pendingsUseByRecover p" "pr_queue (snd (note_pending r p)) = pr_queue p"
  by (simp_all add: note_pending_def Let_def split: option.split)

lemma note_pending_inv: "rec_inv p \<Longrightarrow> rec_inv (snd (note_pending r p))"
  unfolding rec_inv_def note_pending_maps using grown_map_inv [OF _ note_pending_grown] by blast

lemma fireEvent_inv:
  assumes "rec_inv p" "r < length (pr_heap p)"
  shows "rec_inv (fireEvent limit r p)"
  using assms fireEvent_map_inv grown_map_inv [OF _ fireEvent_grown] unfolding rec_inv_def fireEvent_simps by blast

lemma handle_loop_spec:
  assumes "rec_inv p" "set events \<subseteq> {..<length (pr_heap p)}" "handle_loop events fs sev p = (fs', sev', q)"
  shows "grown p q \<and> rec_inv q \<and> pr_fires q = pr_fires p \<and> pr_queue q = pr_queue p \<and> set fs' \<subseteq> set fs \<union> set events
    \<and> (ar_PromForDuration (pr_rule p) = 0 \<longrightarrow> fs' = fs @ events)"
  using assms
proof (induction events arbitrary: fs sev p)
  case (Cons r events)
  define p1 where "p1 = note_seen r p"
  define p2 where "p2 = (if ar_PromForDuration (pr_rule p1) = 0 then p1 else snd (note_pending r p1))"
  have r: "r < length (pr_heap p)" "set events \<subseteq> {..<length (pr_heap p)}" using Cons.prems(2) by auto
  have inv1: "rec_inv p1" unfolding p1_def by (rule note_seen_inv [OF Cons.prems(1) r(1)])
  have inv2: "rec_inv p2" unfolding p2_def using inv1 note_pending_inv by simp
  have g: "grown p p2" unfolding p2_def p1_def
    using note_seen_grown [of p r] grown_trans [OF note_seen_grown note_pending_grown] by simp
  have same: "pr_fires p2 = pr_fires p" "pr_queue p2 = pr_queue p" by (simp_all add: p2_def p1_def)
  have sub: "set events \<subseteq> {..<length (pr_heap p2)}" using r(2) g by (auto simp: grown_def)
  have rule: "pr_rule p1 = pr_rule p" "pr_rule p2 = pr_rule p" using g note_seen_grown [of p r] by (simp_all add: grown_def p1_def)
  obtain gs sev1 where rest: "handle_loop events gs sev1 p2 = (fs', sev', q)" "gs = fs @ [r] \<or> gs = fs"
    "ar_PromForDuration (pr_rule p) = 0 \<Longrightarrow> gs = fs @ [r]"
  proof (cases "ar_PromForDuration (pr_rule p) = 0")
    case True
    then have "p2 = p1" by (simp add: p2_def rule(1))
    with Cons.prems(3) True show thesis by (intro that) (auto simp: p1_def [symmetric] rule Let_def)
  next
    case False
    then have "p2 = snd (note_pending r p1)" by (simp add: p2_def rule(1))
    with Cons.prems(3) False have "(\<exists>v. handle_loop events (fs @ [r]) v p2 = (fs', sev', q)) \<or> handle_loop events fs sev p2 = (fs', sev', q)"
      by (auto simp: p1_def [symmetric] rule Let_def split: prod.splits if_splits)
    then show thesis using that False by blast
  qed
  from Cons.IH [OF inv2 sub rest(1)] have ih: "grown p2 q" "rec_inv q" "pr_fires q = pr_fires p" "pr_queue q = pr_queue p"
    "set fs' \<subseteq> set gs \<union> set events" "ar_PromForDuration (pr_rule p) = 0 \<Longrightarrow> fs' = gs @ events"
    by (simp_all add: same rule)
  have "set fs' \<subseteq> set fs \<union> set (r # events)" using ih(5) rest(2) by auto
  moreover have "ar_PromForDuration (pr_rule p) = 0 \<longrightarrow> fs' = fs @ r # events" using ih(6) rest(3) by simp
  ultimately show ?case using ih(2-4) grown_trans [OF g ih(1)] by blast
qed simp

text \<open>\<open>fires_by p hs q\<close>: events with the hashes \<open>hs\<close> may have been added to the firing ones or have replaced one there, and nothing
  else happened to the firing ones.\<close>

definition fires_by :: "processor \<Rightarrow> string set \<Rightarrow> processor \<Rightarrow> bool" where
  "fires_by p hs q \<longleftrightarrow> grown p q \<and> rec_inv q \<and> (mwf (pr_fires p) \<longrightarrow> mwf (pr_fires q))
     \<and> dom (mget (pr_fires p)) \<subseteq> dom (mget (pr_fires q)) \<and> (\<forall>h. h \<notin> hs \<longrightarrow> mget (pr_fires q) h = mget (pr_fires p) h)"

lemma fires_by_refl: "rec_inv p \<Longrightarrow> fires_by p hs p"
  by (simp add: fires_by_def)

lemma fires_by_trans:
  assumes "fires_by p hs q" "fires_by q hs' r"
  shows "fires_by p (hs \<union> hs') r"
proof -
  have "dom (mget (pr_fires p)) \<subseteq> dom (mget (pr_fires r))"
    using assms unfolding fires_by_def by (elim conjE) (rule subset_trans)
  then show ?thesis using assms grown_trans [of p q r] unfolding fires_by_def by simp
qed

lemma fires_by_mono: "fires_by p hs q \<Longrightarrow> hs \<subseteq> hs' \<Longrightarrow> fires_by p hs' q"
  unfolding fires_by_def by blast

lemma fireEvent_dom: "dom (mget (pr_fires p)) \<subseteq> dom (mget (pr_fires (fireEvent limit r p)))"
  using fireEvent_fires [of limit r p] by (auto split: if_splits)

lemma fireEvent_fires_by:
  assumes "rec_inv p" "r < length (pr_heap p)"
  shows "fires_by p {ev_Hash (deref p r)} (fireEvent limit r p)"
  using fireEvent_grown fireEvent_inv [OF assms] fireEvent_dom fireEvent_fires [of limit r p]
  unfolding fires_by_def by auto

lemma grown_deref: "grown p q \<Longrightarrow> x < length (pr_heap p) \<Longrightarrow> core (deref q x) = core (deref p x)"
  by (simp add: grown_def)

lemma grown_hashes:
  assumes "grown p q" "rs \<subseteq> {..<length (pr_heap p)}"
  shows "(\<lambda>r. ev_Hash (deref q r)) ` rs = (\<lambda>r. ev_Hash (deref p r)) ` rs"
proof (rule image_cong [OF refl])
  fix x assume "x \<in> rs"
  then have "core (deref q x) = core (deref p x)" using assms by (intro grown_deref) auto
  then show "ev_Hash (deref q x) = ev_Hash (deref p x)" by (rule core_fields)
qed

lemma grown_sub: "grown p q \<Longrightarrow> rs \<subseteq> {..<length (pr_heap p)} \<Longrightarrow> rs \<subseteq> {..<length (pr_heap q)}"
  by (auto simp: grown_def)

lemma inhibitEvent_fires_by:
  assumes "rec_inv p" "set rs \<subseteq> {..<length (pr_heap p)}"
  shows "fires_by p ((\<lambda>r. ev_Hash (deref p r)) ` set rs) (inhibitEvent limit rs sev p)"
  using assms
proof (induction rs arbitrary: p)
  case Nil
  then show ?case by (simp add: fires_by_refl)
next
  case (Cons r rs)
  define p1 where "p1 = (if pr_inhibit p \<and> ev_Severity (deref p r) > sev then p else fireEvent limit r p)"
  have r: "r < length (pr_heap p)" "set rs \<subseteq> {..<length (pr_heap p)}" using Cons.prems(2) by auto
  have one: "fires_by p {ev_Hash (deref p r)} p1"
    using fireEvent_fires_by [OF Cons.prems(1) r(1)] fires_by_refl [OF Cons.prems(1)] by (simp add: p1_def)
  then have g: "grown p p1" "rec_inv p1" by (simp_all add: fires_by_def)
  have run: "inhibitEvent limit (r # rs) sev p = inhibitEvent limit rs sev p1" by (simp add: p1_def)
  note ih = Cons.IH [OF g(2) grown_sub [OF g(1) r(2)], unfolded grown_hashes [OF g(1) r(2)]]
  show ?case unfolding run using fires_by_trans [OF one ih] by simp
qed

lemma fireEvent_in:
  assumes "r < length (pr_heap p)" "\<not> ev_IsRecovered (deref p r)"
  shows "ev_Hash (deref p r) \<in> dom (mget (pr_fires (fireEvent limit r p)))"
proof (cases "mget (pr_fires p) (ev_Hash (deref p r))")
  case None
  then show ?thesis using assms by (simp add: fireEvent_def aem_Get_def pushEventToQueue_fires deref_store dom_def)
next
  case (Some f)
  then show ?thesis using fireEvent_dom [of p limit r] by blast
qed

lemma inhibitEvent_all:
  assumes "rec_inv p" "set rs \<subseteq> {..<length (pr_heap p)}" "\<not> pr_inhibit p" "\<forall>r \<in> set rs. \<not> ev_IsRecovered (deref p r)"
  shows "(\<lambda>r. ev_Hash (deref p r)) ` set rs \<subseteq> dom (mget (pr_fires (inhibitEvent limit rs sev p)))"
  using assms
proof (induction rs arbitrary: p)
  case (Cons r rs)
  have r: "r < length (pr_heap p)" "set rs \<subseteq> {..<length (pr_heap p)}" using Cons.prems(2) by auto
  have run: "inhibitEvent limit (r # rs) sev p = inhibitEvent limit rs sev (fireEvent limit r p)" using Cons.prems(3) by simp
  have inv: "rec_inv (fireEvent limit r p)" by (rule fireEvent_inv [OF Cons.prems(1) r(1)])
  have sub: "set rs \<subseteq> {..<length (pr_heap (fireEvent limit r p))}" using r(2) by simp
  have same: "ev_Hash (deref (fireEvent limit r p) x) = ev_Hash (deref p x)"
    "ev_IsRecovered (deref (fireEvent limit r p) x) = ev_IsRecovered (deref p x)" for x
    by (rule core_fields [OF core_fireEvent])+
  have "(\<lambda>x. ev_Hash (deref p x)) ` set rs \<subseteq> dom (mget (pr_fires (inhibitEvent limit rs sev (fireEvent limit r p))))"
    using Cons.IH [OF inv sub] Cons.prems(3,4) by (simp add: same)
  moreover have "ev_Hash (deref p r) \<in> dom (mget (pr_fires (inhibitEvent limit rs sev (fireEvent limit r p))))"
    using fireEvent_in [OF r(1), of limit] inhibitEvent_fires_by [OF inv sub, of limit sev] Cons.prems(4)
    unfolding fires_by_def by auto
  ultimately show ?case unfolding run by simp
qed simp

lemma handleEvent_fires_by:
  assumes "rec_inv p" "set rs \<subseteq> {..<length (pr_heap p)}"
  shows "fires_by p ((\<lambda>r. ev_Hash (deref p r)) ` set rs) (handleEvent limit rs p)"
    and "ar_PromForDuration (pr_rule p) = 0 \<Longrightarrow> \<not> pr_inhibit p \<Longrightarrow> \<forall>r \<in> set rs. \<not> ev_IsRecovered (deref p r) \<Longrightarrow>
      (\<lambda>r. ev_Hash (deref p r)) ` set rs \<subseteq> dom (mget (pr_fires (handleEvent limit rs p)))"
proof -
  obtain fs sev q where run: "handle_loop rs [] SeverityLowest p = (fs, sev, q)" by (cases "handle_loop rs [] SeverityLowest p") auto
  have fin: "handleEvent limit rs p = inhibitEvent limit fs sev q" by (simp add: handleEvent_def run)
  note h = handle_loop_spec [OF assms run]
  have g: "grown p q" and inv: "rec_inv q" and fires: "pr_fires q = pr_fires p" using h by blast+
  have fs: "set fs \<subseteq> set rs" using h by simp
  have fsp: "set fs \<subseteq> {..<length (pr_heap p)}" using fs assms(2) by blast
  have sub: "set fs \<subseteq> {..<length (pr_heap q)}" by (rule grown_sub [OF g fsp])
  have first: "fires_by p {} q" using g inv fires by (simp add: fires_by_def)
  note i = inhibitEvent_fires_by [OF inv sub, of limit sev, unfolded grown_hashes [OF g fsp]]
  show "fires_by p ((\<lambda>r. ev_Hash (deref p r)) ` set rs) (handleEvent limit rs p)"
    unfolding fin by (rule fires_by_mono [OF fires_by_trans [OF first i]]) (use fs in auto)
  show "(\<lambda>r. ev_Hash (deref p r)) ` set rs \<subseteq> dom (mget (pr_fires (handleEvent limit rs p)))"
    if "ar_PromForDuration (pr_rule p) = 0" "\<not> pr_inhibit p" "\<forall>r \<in> set rs. \<not> ev_IsRecovered (deref p r)"
  proof -
    have eq: "fs = rs" using h that(1) by simp
    moreover have "\<not> pr_inhibit q" using g that(2) by (simp add: grown_def)
    moreover have "\<forall>r \<in> set rs. \<not> ev_IsRecovered (deref q r)"
    proof
      fix r assume r: "r \<in> set rs"
      then have "core (deref q r) = core (deref p r)" using assms(2) by (intro grown_deref [OF g]) auto
      with that(3) r core_fields(2) show "\<not> ev_IsRecovered (deref q r)" by metis
    qed
    ultimately show ?thesis unfolding fin
      using inhibitEvent_all [OF inv sub, of limit sev] grown_hashes [OF g fsp] by simp
  qed
qed

section \<open>All groups\<close>

lemma handle_groups_fires_by:
  assumes "rec_inv p" "\<forall>g \<in> set gs. set g \<subseteq> {..<length (pr_heap p)}"
  shows "fires_by p ((\<lambda>r. ev_Hash (deref p r)) ` (\<Union>g \<in> set gs. set g)) (handle_groups limit gs p)"
  using assms
proof (induction gs arbitrary: p)
  case Nil
  then show ?case by (simp add: fires_by_refl)
next
  case (Cons g gs)
  let ?q = "handleEvent limit g p"
  have gs: "set g \<subseteq> {..<length (pr_heap p)}" "(\<Union>g \<in> set gs. set g) \<subseteq> {..<length (pr_heap p)}" using Cons.prems(2) by auto
  have one: "fires_by p ((\<lambda>r. ev_Hash (deref p r)) ` set g) ?q" by (rule handleEvent_fires_by(1) [OF Cons.prems(1) gs(1)])
  then have q: "grown p ?q" "rec_inv ?q" by (simp_all add: fires_by_def)
  have "\<forall>g \<in> set gs. set g \<subseteq> {..<length (pr_heap ?q)}" using grown_sub [OF q(1)] Cons.prems(2) by simp
  note ih = Cons.IH [OF q(2) this, unfolded grown_hashes [OF q(1) gs(2)]]
  show ?case using fires_by_trans [OF one ih] by (simp add: image_Un)
qed

lemma handle_groups_all:
  assumes "rec_inv p" "\<forall>g \<in> set gs. set g \<subseteq> {..<length (pr_heap p)}" "ar_PromForDuration (pr_rule p) = 0" "\<not> pr_inhibit p"
    and "\<forall>r \<in> (\<Union>g \<in> set gs. set g). \<not> ev_IsRecovered (deref p r)"
  shows "(\<lambda>r. ev_Hash (deref p r)) ` (\<Union>g \<in> set gs. set g) \<subseteq> dom (mget (pr_fires (handle_groups limit gs p)))"
  using assms
proof (induction gs arbitrary: p)
  case (Cons g gs)
  let ?q = "handleEvent limit g p"
  have gs: "set g \<subseteq> {..<length (pr_heap p)}" "(\<Union>g \<in> set gs. set g) \<subseteq> {..<length (pr_heap p)}" using Cons.prems(2) by auto
  have one: "fires_by p ((\<lambda>r. ev_Hash (deref p r)) ` set g) ?q" by (rule handleEvent_fires_by(1) [OF Cons.prems(1) gs(1)])
  then have q: "grown p ?q" "rec_inv ?q" by (simp_all add: fires_by_def)
  have sub: "\<forall>g \<in> set gs. set g \<subseteq> {..<length (pr_heap ?q)}" using grown_sub [OF q(1)] Cons.prems(2) by simp
  have rec: "\<forall>r \<in> (\<Union>g \<in> set gs. set g). \<not> ev_IsRecovered (deref ?q r)"
  proof
    fix r assume r: "r \<in> (\<Union>g \<in> set gs. set g)"
    then have "r < length (pr_heap p)" using gs(2) by blast
    then have "ev_IsRecovered (deref ?q r) = ev_IsRecovered (deref p r)" by (intro core_fields(2) grown_deref [OF q(1)])
    with r Cons.prems(5) show "\<not> ev_IsRecovered (deref ?q r)" by auto
  qed
  have "ar_PromForDuration (pr_rule ?q) = 0" "\<not> pr_inhibit ?q" using q(1) Cons.prems(3,4) by (simp_all add: grown_def)
  note ih = Cons.IH [OF q(2) sub this rec, unfolded grown_hashes [OF q(1) gs(2)]]
  have "(\<lambda>r. ev_Hash (deref p r)) ` set g \<subseteq> dom (mget (pr_fires ?q))"
    using handleEvent_fires_by(2) [OF Cons.prems(1) gs(1) Cons.prems(3,4)] Cons.prems(5) by simp
  also have "\<dots> \<subseteq> dom (mget (pr_fires (handle_groups limit gs ?q)))"
    using handle_groups_fires_by [OF q(2) sub, of limit] unfolding fires_by_def by blast
  finally show ?case using ih by (simp add: image_Un)
qed simp

section \<open>The points of an evaluation\<close>

text \<open>The hashes that alert and the events that are let through, as lists.\<close>

fun admitted ::
  "'s handle_env \<Rightarrow> AlertRule \<Rightarrow> int \<Rightarrow> string \<Rightarrow> int \<Rightarrow> string \<Rightarrow> AnomalyPoint list \<Rightarrow> 's \<Rightarrow> (AlertCurEvent list \<times> 's) option" where
  "admitted H rule ds from now rh [] s = Some ([], s)"
| "admitted H rule ds from now rh (pt # pts) s =
     (case admit H rule ds pt from now rh s of
        None \<Rightarrow> None
      | Some (h, ev, s1) \<Rightarrow>
          (case admitted H rule ds from now rh pts s1 of
             None \<Rightarrow> None
           | Some (evs, s2) \<Rightarrow> Some ((case ev of None \<Rightarrow> evs | Some e \<Rightarrow> e # evs), s2)))"

definition refs :: "(string, ref list) gomap \<Rightarrow> ref set" where
  "refs m = {r. \<exists>k rs. mget m k = Some rs \<and> r \<in> set rs}"

lemma refs_Nil [simp]: "refs [] = {}"
  by (simp add: refs_def)

lemma refs_add: "refs (add_to_group k r m) = insert r (refs m)"
proof -
  have "(\<exists>k' rs. mget (add_to_group k r m) k' = Some rs \<and> x \<in> set rs) \<longleftrightarrow> x = r \<or> (\<exists>k' rs. mget m k' = Some rs \<and> x \<in> set rs)" for x
    by (cases "mget m k") (auto simp: add_to_group_def split: if_splits, metis option.distinct(1), metis option.inject)
  then show ?thesis by (auto simp: refs_def)
qed

lemma mwf_add [simp]: "mwf m \<Longrightarrow> mwf (add_to_group k r m)"
  by (simp add: add_to_group_def)

lemma refs_groups:
  assumes "range_order ord" "mwf m"
  shows "(\<Union>g \<in> set (map snd (ord m)). set g) = refs m"
proof -
  have "set (ord m) = set m" by (rule range_order_set [OF assms(1)])
  moreover have "(k, rs) \<in> set m \<longleftrightarrow> mget m k = Some rs" for k rs
    using assms(2) by (simp add: mwf_def)
  ultimately show ?thesis by (force simp: refs_def)
qed

lemma admit_hash: "admit H rule ds pt src now rh s = Some (h, ev, s') \<Longrightarrow> h = Hash (he_build H) (ar_Id rule) ds pt"
  by (auto simp: admit_def Let_def BuildEvent_frame split: Option.bind_splits option.splits prod.splits if_splits)

lemma point_loop_None:
  "admitted H (pr_rule p) (pr_datasourceId p) src now rh pts s = None \<longleftrightarrow> point_loop H src now rh pts keys m p s = None"
proof (induction pts arbitrary: keys m p s)
  case (Cons pt pts)
  show ?case
  proof (cases "admit H (pr_rule p) (pr_datasourceId p) pt src now rh s")
    case (Some res)
    obtain h ev s1 where res: "res = (h, ev, s1)" by (cases res) auto
    show ?thesis
    proof (cases ev)
      case None
      with Some res Cons.IH [of p s1 "keys @ [h]" m] show ?thesis
        by (cases "admitted H (pr_rule p) (pr_datasourceId p) src now rh pts s1") auto
    next
      case (Some e)
      obtain r q where q: "alloc e p = (r, q)" by (cases "alloc e p") auto
      have "pr_rule q = pr_rule p" "pr_datasourceId q = pr_datasourceId p" using alloc_grown [OF q] by (simp_all add: grown_def)
      with Some res \<open>admit H (pr_rule p) (pr_datasourceId p) pt src now rh s = Some res\<close> q
        Cons.IH [of q s1 "keys @ [h]" "add_to_group (TagHash (he_build H) pt) r m"]
      show ?thesis by (cases "admitted H (pr_rule p) (pr_datasourceId p) src now rh pts s1") auto
    qed
  qed simp
qed simp

lemma alloc_frame:
  assumes "alloc e p = (r, q)"
  shows "pr_fires q = pr_fires p" "pr_pendingsUseByRecover q = pr_pendingsUseByRecover p" "deref q r = e" "r < length (pr_heap q)"
    "rec_inv p \<Longrightarrow> rec_inv q"
  using assms grown_map_inv [OF _ alloc_grown [OF assms]] by (auto simp: alloc_def deref_def rec_inv_def)

lemma point_loop_Some:
  assumes "admitted H (pr_rule p) (pr_datasourceId p) src now rh pts s = Some (evs, s')" "rec_inv p" "mwf m" "refs m \<subseteq> {..<length (pr_heap p)}"
  shows "\<exists>m' q. point_loop H src now rh pts keys m p s = Some (keys @ map (Hash (he_build H) (ar_Id (pr_rule p)) (pr_datasourceId p)) pts, m', q, s')
    \<and> grown p q \<and> rec_inv q \<and> pr_fires q = pr_fires p \<and> mwf m' \<and> refs m' \<subseteq> {..<length (pr_heap q)}
    \<and> (\<lambda>r. core (deref q r)) ` refs m' = (\<lambda>r. core (deref p r)) ` refs m \<union> core ` set evs"
  using assms
proof (induction pts arbitrary: keys m p s evs)
  case Nil
  then show ?case by (intro exI [of _ m] exI [of _ p]) simp
next
  case (Cons pt pts)
  obtain h ev s1 where ad: "admit H (pr_rule p) (pr_datasourceId p) pt src now rh s = Some (h, ev, s1)"
    using Cons.prems(1) by (auto split: option.splits)
  obtain evs1 where rest: "admitted H (pr_rule p) (pr_datasourceId p) src now rh pts s1 = Some (evs1, s')"
    "evs = (case ev of None \<Rightarrow> evs1 | Some e \<Rightarrow> e # evs1)"
    using Cons.prems(1) ad by (auto split: option.splits)
  have h: "h = Hash (he_build H) (ar_Id (pr_rule p)) (pr_datasourceId p) pt" by (rule admit_hash [OF ad])
  show ?case
  proof (cases ev)
    case None
    show ?thesis using Cons.IH [OF rest(1) Cons.prems(2-4), of "keys @ [h]"] ad None rest(2) h by simp
  next
    case (Some e)
    obtain r q where q: "alloc e p = (r, q)" by (cases "alloc e p") auto
    let ?m = "add_to_group (TagHash (he_build H) pt) r m"
    note g = alloc_grown [OF q] and fr = alloc_frame [OF q]
    have same: "pr_rule q = pr_rule p" "pr_datasourceId q = pr_datasourceId p" using g by (simp_all add: grown_def)
    have sub: "refs ?m \<subseteq> {..<length (pr_heap q)}" using grown_sub [OF g Cons.prems(4)] fr(4) by (simp add: refs_add)
    have old: "(\<lambda>x. core (deref q x)) ` refs m = (\<lambda>x. core (deref p x)) ` refs m"
      by (rule image_cong [OF refl], rule grown_deref [OF g]) (use Cons.prems(4) in auto)
    have run: "point_loop H src now rh (pt # pts) keys m p s = point_loop H src now rh pts (keys @ [h]) ?m q s1"
      using ad Some q by simp
    have ih: "\<exists>m' q'. point_loop H src now rh pts (keys @ [h]) ?m q s1 =
          Some ((keys @ [h]) @ map (Hash (he_build H) (ar_Id (pr_rule p)) (pr_datasourceId p)) pts, m', q', s')
        \<and> grown q q' \<and> rec_inv q' \<and> pr_fires q' = pr_fires q \<and> mwf m' \<and> refs m' \<subseteq> {..<length (pr_heap q')}
        \<and> (\<lambda>r. core (deref q' r)) ` refs m' = (\<lambda>r. core (deref q r)) ` refs ?m \<union> core ` set evs1"
      using Cons.IH [of q s1 evs1 ?m "keys @ [h]"] rest(1) fr(5) [OF Cons.prems(2)] Cons.prems(3) sub by (simp add: same)
    show ?thesis unfolding run
      by (rule exE [OF ih], erule exE, rule exI, rule exI, elim conjE, intro conjI, simp only: append_assoc append.simps list.map h,
          rule grown_trans [OF g], assumption+, simp only: fr(1), assumption+)
        (simp add: refs_add fr(3) old rest(2) Some)
  qed
qed

section \<open>Recovery keeps what alerts\<close>

lemma RecoverSingle_keeps: "h \<noteq> hash \<Longrightarrow> h \<in> dom (mget (pr_fires p)) \<Longrightarrow> h \<in> dom (mget (pr_fires (RecoverSingle limit b hash now v p)))"
  by (auto simp: RecoverSingle_def pushEventToQueue_fires Let_def split: option.splits)

lemma recover_all_keeps: "h \<notin> set hs \<Longrightarrow> h \<in> dom (mget (pr_fires p)) \<Longrightarrow> h \<in> dom (mget (pr_fires (recover_all limit hs now p)))"
proof (induction limit hs now p rule: recover_all.induct)
  case (2 limit hash hs now p)
  then show ?case using RecoverSingle_keeps [of h hash p limit False now None] by simp
qed simp

lemma inhibit_recover_keeps:
  assumes "inhibit_recover_loop hs m p = (m', q)" "map_inv p (pr_fires p)" "mwf m" "\<forall>t e. mget m t = Some e \<longrightarrow> ev_Hash e \<noteq> h"
    and "h \<notin> set hs" "h \<in> dom (mget (pr_fires p))"
  shows "h \<in> dom (mget (pr_fires q)) \<and> mwf m' \<and> (\<forall>t e. mget m' t = Some e \<longrightarrow> ev_Hash e \<noteq> h)"
  using assms
proof (induction hs m p rule: inhibit_recover_loop.induct)
  case (2 hash hs m p)
  show ?case
  proof (cases "mget (pr_fires p) hash")
    case None
    with 2 show ?thesis by (simp add: aem_Get_def)
  next
    case (Some r)
    let ?e = "deref p r"
    have hash: "ev_Hash ?e = hash" using Some "2.prems"(2) by (simp add: map_inv_def)
    with "2.prems"(5) have e: "ev_Hash ?e \<noteq> h" by auto
    have m: "mwf (mput (ev_Tags ?e) ?e m)" "\<forall>t x. mget (mput (ev_Tags ?e) ?e m) t = Some x \<longrightarrow> ev_Hash x \<noteq> h"
      using "2.prems"(3,4) e by simp_all
    have tail: "h \<notin> set hs" using "2.prems"(5) by simp
    show ?thesis
    proof (cases "mget m (ev_Tags ?e)")
      case None
      show ?thesis
        by (rule "2.IH"(2) [of r ?e]) (use Some None "2.prems" m tail in \<open>simp_all add: aem_Get_def Let_def\<close>)
    next
      case (Some old)
      let ?q = "p\<lparr>pr_fires := aem_Delete (ev_Hash old) (pr_fires p), pr_pendings := aem_Delete (ev_Hash old) (pr_pendings p),
                  pr_deleted := pr_deleted p @ [ev_Hash old]\<rparr>"
      have old: "ev_Hash old \<noteq> h" using Some "2.prems"(4) by blast
      have inv: "map_inv ?q (pr_fires ?q)" using "2.prems"(2) by (simp add: map_inv_def aem_Delete_def deref_def)
      have dom: "h \<in> dom (mget (pr_fires ?q))" using "2.prems"(6) old by (simp add: aem_Delete_def dom_def)
      show ?thesis
      proof (cases "ev_Severity old > ev_Severity ?e")
        case True
        show ?thesis
          by (rule "2.IH"(3) [of r ?e old])
            (use \<open>mget (pr_fires p) hash = Some r\<close> Some True "2.prems"(1) m tail inv dom in \<open>simp_all add: aem_Get_def Let_def\<close>)
      next
        case False
        show ?thesis
          by (rule "2.IH"(4) [of r ?e old])
            (use \<open>mget (pr_fires p) hash = Some r\<close> Some False "2.prems" tail in \<open>simp_all add: aem_Get_def Let_def\<close>)
      qed
    qed
  qed
qed simp

lemma HandleRecover_keeps:
  assumes "range_order ord" "map_inv p (pr_fires p)" "h \<in> set alerting" "h \<in> dom (mget (pr_fires p))"
  shows "h \<in> dom (mget (pr_fires (HandleRecover ord limit alerting now inhibit p)))"
proof -
  define p1 where "p1 = drop_pendings alerting (aem_Keys ord (pr_pendings p)) p"
  define hs where "hs = filter (\<lambda>h. \<not> List.member alerting h) (aem_Keys ord (pr_fires p1))"
  have run: "HandleRecover ord limit alerting now inhibit p = HandleRecoverEvent ord limit hs now inhibit p1"
    by (simp add: HandleRecover_def p1_def hs_def Let_def)
  have h: "h \<notin> set hs" "h \<in> dom (mget (pr_fires p1))" "map_inv p1 (pr_fires p1)"
    using assms(2-4) by (simp_all add: hs_def p1_def map_inv_def)
  show ?thesis
  proof (cases inhibit)
    case False
    then show ?thesis unfolding run HandleRecoverEvent_def using recover_all_keeps [OF h(1,2)] by simp
  next
    case True
    obtain m q where loop: "inhibit_recover_loop hs [] p1 = (m, q)" by fastforce
    from inhibit_recover_keeps [OF loop h(3) _ _ h(1,2)]
    have k: "h \<in> dom (mget (pr_fires q))" "mwf m" "\<forall>t e. mget m t = Some e \<longrightarrow> ev_Hash e \<noteq> h" by simp_all
    have "h \<notin> set (ord (map (\<lambda>(t, e). ev_Hash e) m))"
      unfolding range_order_set [OF assms(1)] using k(2,3) by (auto simp: mwf_def)
    then show ?thesis unfolding run HandleRecoverEvent_def using recover_all_keeps k(1) True by (simp add: loop)
  qed
qed

lemma Handle_inner:
  assumes "mget (be_alertRuleCache (he_build H)) (ar_Id (pr_rule p)) = Some rule"
  shows "Handle H points ''inner'' inhibit now p s =
    (case point_loop H ''inner'' now (rule_Hash (he_build H) (pr_rule p)) points [] [] (p\<lparr>pr_inhibit := inhibit, pr_rule := rule\<rparr>) s of
       None \<Rightarrow> None
     | Some (ks, m, p2, s') \<Rightarrow>
         Some (HandleRecover (he_ordKeys H) (he_limit H) ks now inhibit (handle_groups (he_limit H) (map snd (he_ordGroups H m)) p2), s'))"
  using assms by (simp add: Handle_def Let_def split: option.split prod.split)

text \<open>(C17) A series that still alerts never recovers: if a point of the evaluation has the hash of a firing event, that hash is
  still firing afterwards, with and without inhibition, also when the point was dropped by a pipeline, muted, or
  silenced by the mute hook.\<close>

theorem firing_stays_firing:
  assumes "Handle H points ''inner'' inhibit now p s = Some (q, s')" "range_order (he_ordKeys H)" "range_order (he_ordGroups H)"
    and "rec_inv p" "mget (be_alertRuleCache (he_build H)) (ar_Id (pr_rule p)) = Some rule"
    and "pt \<in> set points" "Hash (he_build H) (ar_Id rule) (pr_datasourceId p) pt \<in> dom (mget (pr_fires p))"
  shows "Hash (he_build H) (ar_Id rule) (pr_datasourceId p) pt \<in> dom (mget (pr_fires q))"
proof -
  let ?p = "p\<lparr>pr_inhibit := inhibit, pr_rule := rule\<rparr>" and ?rh = "rule_Hash (he_build H) (pr_rule p)"
  have inv: "rec_inv ?p" using assms(4) by (simp add: rec_inv_def map_inv_def deref_def)
  have "point_loop H ''inner'' now ?rh points [] [] ?p s \<noteq> None"
    using assms(1) unfolding Handle_inner [OF assms(5)] by (rule contrapos_pn) simp
  then obtain evs t where ad: "admitted H (pr_rule ?p) (pr_datasourceId ?p) ''inner'' now ?rh points s = Some (evs, t)"
    unfolding point_loop_None [symmetric] by auto
  obtain m q2 where loop: "point_loop H ''inner'' now ?rh points [] [] ?p s =
        Some (map (Hash (he_build H) (ar_Id rule) (pr_datasourceId p)) points, m, q2, t)"
      "rec_inv q2" "pr_fires q2 = pr_fires p" "mwf m" "refs m \<subseteq> {..<length (pr_heap q2)}"
    using point_loop_Some [OF ad inv, of "[]" "[]"] by auto
  let ?q3 = "handle_groups (he_limit H) (map snd (he_ordGroups H m)) q2"
  have q: "q = HandleRecover (he_ordKeys H) (he_limit H) (map (Hash (he_build H) (ar_Id rule) (pr_datasourceId p)) points) now inhibit ?q3"
    using assms(1) unfolding Handle_inner [OF assms(5)] loop(1) by simp
  have "\<forall>g \<in> set (map snd (he_ordGroups H m)). set g \<subseteq> {..<length (pr_heap q2)}"
    using loop(5) unfolding refs_groups [OF assms(3) loop(4), symmetric] by blast
  from handle_groups_fires_by [OF loop(2) this, of "he_limit H"]
  have "rec_inv ?q3" "dom (mget (pr_fires p)) \<subseteq> dom (mget (pr_fires ?q3))" by (simp_all add: fires_by_def loop(3))
  then show ?thesis unfolding q using assms(6,7) by (intro HandleRecover_keeps [OF assms(2)]) (auto simp: rec_inv_def)
qed

section \<open>The outcome of an evaluation\<close>

text \<open>A workflow engine that does not change the hash of an event, and does not mark it as recovered.\<close>

definition engine_keeps :: "'s engine \<Rightarrow> bool" where
  "engine_keeps execute \<longleftrightarrow> (\<forall>ep e t s e' res s'. execute ep (Some e) t s = (Some e', res, s') \<longrightarrow>
     ev_Hash e' = ev_Hash e \<and> ev_IsRecovered e' = ev_IsRecovered e)"

lemma pipeline_loop_keeps:
  assumes "engine_keeps execute" "pipeline_loop L J execute cache origin i src pcs e s = Some (Some e', ns, s')"
  shows "ev_Hash e' = ev_Hash e \<and> ev_IsRecovered e' = ev_IsRecovered e"
  using assms(2)
proof (induction pcs arbitrary: e s)
  case (Cons pc pcs)
  show ?case
  proof (cases "pipeline_loop L J execute cache origin i src (pc # pcs) e s = pipeline_loop L J execute cache origin i src pcs e s")
    case True
    with Cons show ?thesis by simp
  next
    case False
    then obtain ep where ep: "pc_Enable pc" "mget cache (pc_PipelineId pc) = Some ep"
      by (auto split: if_splits option.splits)
    with False Cons.prems have "PipelineApplicable L J (Some ep) e = Some True"
      by (cases "PipelineApplicable L J (Some ep) e") (auto split: if_splits)
    with Cons.prems ep obtain e1 res s1 where x: "execute ep (Some e) (Some (event_trigger src)) s = (Some e1, res, s1)"
      "pipeline_loop L J execute cache origin i src pcs e1 s1 = Some (Some e', ns, s')"
      by (auto split: prod.splits option.splits)
    show ?thesis using Cons.IH [OF x(2)] assms(1) x(1) unfolding engine_keeps_def by metis
  qed
qed simp

lemma HandleEventPipeline_keeps:
  assumes "engine_keeps execute" "HandleEventPipeline L J execute pcs origin e cache i src s = Some (Some e', ns, s')"
  shows "ev_Hash e' = ev_Hash e \<and> ev_IsRecovered e' = ev_IsRecovered e"
proof -
  obtain e1 where "pipeline_loop L J execute cache origin i src pcs e s = Some (Some e1, ns, s')" "e' = FillTagsMap (ev_FE2DB L e1)"
    using assms(2) by (auto simp: HandleEventPipeline_def split: option.splits prod.splits)
  with pipeline_loop_keeps [OF assms(1)] show ?thesis by (simp add: FillTagsMap_def ev_FE2DB_def)
qed

lemma admit_keeps:
  assumes "engine_keeps (he_execute H)" "admit H rule ds pt src now rh s = Some (h, Some e, s')"
  shows "ev_Hash e = Hash (he_build H) (ar_Id rule) ds pt \<and> \<not> ev_IsRecovered e"
proof -
  obtain e0 ns s1 where b: "BuildEvent (he_R H) (he_build H) rule ds pt src now rh = Some e0"
    "HandleEventPipeline (he_L H) (he_J H) (he_execute H) (ar_PipelineConfigs rule) (e0\<lparr>ev_NotifyRuleIds := ar_NotifyRuleIds rule\<rparr>)
       (e0\<lparr>ev_NotifyRuleIds := ar_NotifyRuleIds rule\<rparr>) (be_EventProcessorCache (he_build H)) (ar_Id rule) ''alert_rule'' s = Some (Some e, ns, s1)"
    using assms(2) by (auto simp: admit_def Let_def split: Option.bind_splits option.splits prod.splits if_splits)
  from HandleEventPipeline_keeps [OF assms(1) b(2)] BuildEvent_frame [OF b(1)] show ?thesis by simp
qed

lemma admitted_keeps:
  assumes "engine_keeps (he_execute H)" "admitted H rule ds src now rh pts s = Some (evs, s')"
  shows "\<forall>e \<in> set evs. ev_Hash e \<in> Hash (he_build H) (ar_Id rule) ds ` set pts \<and> \<not> ev_IsRecovered e"
  using assms(2)
proof (induction pts arbitrary: s evs)
  case (Cons pt pts)
  obtain h ev s1 evs1 where ad: "admit H rule ds pt src now rh s = Some (h, ev, s1)" "admitted H rule ds src now rh pts s1 = Some (evs1, s')"
    "evs = (case ev of None \<Rightarrow> evs1 | Some e \<Rightarrow> e # evs1)"
    using Cons.prems by (auto split: option.splits)
  from Cons.IH [OF ad(2)] show ?case
    using ad(1,3) admit_keeps [OF assms(1)] by (cases ev) auto
qed simp

lemma recover_all_fires:
  assumes "rec_inv p" "distinct hs"
  shows "mget (pr_fires (recover_all limit hs now p)) k = (if k \<in> set hs \<and> can_recover p now k then None else mget (pr_fires p) k)"
  using assms
proof (induction hs arbitrary: p)
  case (Cons h hs)
  show ?case
  proof (cases "can_recover p now h")
    case False
    have "recover_all limit (h # hs) now p = recover_all limit hs now p" by (simp add: RecoverSingle_no [OF False])
    with False Cons show ?thesis by auto
  next
    case True
    have inv: "map_inv p (pr_fires p)" using Cons.prems(1) by (simp add: rec_inv_def)
    obtain r where r: "r < length (pr_heap p)" "ev_Hash (deref p r) = h" "RecoverSingle limit False h now None p = step_of limit r h now p"
      using RecoverSingle_yes [OF True inv, of limit] unfolding step_of_def by metis
    have h: "h \<notin> set hs" "distinct hs" using Cons.prems(2) by simp_all
    have "can_recover (step_of limit r h now p) now k = can_recover p now k" if "k \<in> set hs"
      using that h(1) can_recover_other [OF Cons.prems(1) r(1,2)] by metis
    with Cons.IH [OF step_of_inv [OF Cons.prems(1) r(1)] h(2)] True h(1) show ?thesis by (auto simp: r(3))
  qed
qed simp

lemma HandleRecover_fires:
  assumes "range_order ord" "rec_inv p" "mwf (pr_fires p)"
  shows "mget (pr_fires (HandleRecover ord limit alerting now False p)) h =
    (if h \<notin> set alerting \<and> can_recover p now h then None else mget (pr_fires p) h)"
proof -
  define p1 where "p1 = drop_pendings alerting (aem_Keys ord (pr_pendings p)) p"
  define hs where "hs = filter (\<lambda>h. \<not> List.member alerting h) (aem_Keys ord (pr_fires p))"
  have "HandleRecover ord limit alerting now False p = recover_all limit hs now p1"
    by (simp add: HandleRecover_def HandleRecoverEvent_def p1_def hs_def)
  moreover have "rec_inv p1" "distinct hs" using assms keys_distinct [OF assms(1,3)] by (simp_all add: p1_def hs_def)
  ultimately have "mget (pr_fires (HandleRecover ord limit alerting now False p)) h =
      (if h \<in> set hs \<and> can_recover p1 now h then None else mget (pr_fires p1) h)" by (simp add: recover_all_fires)
  moreover have "h \<in> set hs \<longleftrightarrow> h \<in> dom (mget (pr_fires p)) \<and> h \<notin> set alerting" by (simp add: hs_def keys_of_range [OF assms(1)])
  ultimately show ?thesis by (auto simp: p1_def)
qed

lemma core_hashes: "(\<lambda>r. core (f r)) ` R = core ` E \<Longrightarrow> (\<lambda>r. ev_Hash (f r)) ` R = ev_Hash ` E"
proof -
  assume "(\<lambda>r. core (f r)) ` R = core ` E"
  then have "fst ` (\<lambda>r. core (f r)) ` R = fst ` core ` E" by simp
  then show ?thesis by (simp add: image_image core_def)
qed

lemma core_not_recovered: "(\<lambda>r. core (f r)) ` R = core ` E \<Longrightarrow> \<forall>e \<in> E. \<not> ev_IsRecovered e \<Longrightarrow> \<forall>r \<in> R. \<not> ev_IsRecovered (f r)"
proof
  fix r assume *: "(\<lambda>r. core (f r)) ` R = core ` E" "\<forall>e \<in> E. \<not> ev_IsRecovered e" "r \<in> R"
  then obtain e where "e \<in> E" "core (f r) = core e" by blast
  with *(2) core_fields(2) show "\<not> ev_IsRecovered (f r)" by metis
qed

text \<open>Firing all groups, seen from the processor before the points were read.\<close>

lemma fired_groups:
  assumes "admitted H (pr_rule p) (pr_datasourceId p) src now rh pts s = Some (evs, s')" "rec_inv p" "engine_keeps (he_execute H)"
    and "range_order (he_ordGroups H)" "ar_PromForDuration (pr_rule p) = 0" "\<not> pr_inhibit p"
  obtains m q2 where
    "point_loop H src now rh pts [] [] p s = Some (map (Hash (he_build H) (ar_Id (pr_rule p)) (pr_datasourceId p)) pts, m, q2, s')"
    "fires_by p (ev_Hash ` set evs) (handle_groups (he_limit H) (map snd (he_ordGroups H m)) q2)"
    "ev_Hash ` set evs \<subseteq> dom (mget (pr_fires (handle_groups (he_limit H) (map snd (he_ordGroups H m)) q2)))"
proof -
  obtain m q2 where loop: "point_loop H src now rh pts [] [] p s =
        Some (map (Hash (he_build H) (ar_Id (pr_rule p)) (pr_datasourceId p)) pts, m, q2, s')"
      "grown p q2" "rec_inv q2" "pr_fires q2 = pr_fires p" "mwf m" "refs m \<subseteq> {..<length (pr_heap q2)}"
      "(\<lambda>r. core (deref q2 r)) ` refs m = core ` set evs"
    using point_loop_Some [OF assms(1,2), of "[]" "[]"] by auto
  let ?gs = "map snd (he_ordGroups H m)"
  note gs = refs_groups [OF assms(4) loop(5)]
  have sub: "\<forall>g \<in> set ?gs. set g \<subseteq> {..<length (pr_heap q2)}" using loop(6) unfolding gs [symmetric] by blast
  have hash: "(\<lambda>r. ev_Hash (deref q2 r)) ` refs m = ev_Hash ` set evs" by (rule core_hashes [OF loop(7)])
  have rule: "ar_PromForDuration (pr_rule q2) = 0" "\<not> pr_inhibit q2" using loop(2) assms(5,6) by (simp_all add: grown_def)
  have live: "\<forall>r \<in> refs m. \<not> ev_IsRecovered (deref q2 r)"
    by (rule core_not_recovered [OF loop(7)]) (use admitted_keeps [OF assms(3,1)] in blast)
  have "fires_by p {} q2" using loop(2-4) by (simp add: fires_by_def)
  from fires_by_trans [OF this handle_groups_fires_by [OF loop(3) sub, of "he_limit H"]]
  have "fires_by p (ev_Hash ` set evs) (handle_groups (he_limit H) ?gs q2)" unfolding gs hash by simp
  moreover have "ev_Hash ` set evs \<subseteq> dom (mget (pr_fires (handle_groups (he_limit H) ?gs q2)))"
    using handle_groups_all [OF loop(3) sub rule, of "he_limit H"] live unfolding gs hash by blast
  ultimately show thesis using that loop(1) by blast
qed

lemma can_recover_fires_by:
  assumes "fires_by p hs q" "rec_inv p" "h \<notin> hs" "ar_RecoverDuration (pr_rule p) \<le> 0"
  shows "can_recover q now h \<longleftrightarrow> (\<exists>e. fired p h = Some e \<and> ev_JudgeType e = Origin)"
proof -
  have q: "grown p q" "mget (pr_fires q) h = mget (pr_fires p) h" "pr_rule q = pr_rule p"
    using assms(1,3) by (auto simp: fires_by_def grown_def)
  have "ev_JudgeType (deref q r) = ev_JudgeType (deref p r)" if "mget (pr_fires p) h = Some r" for r
    using that assms(2) by (intro core_fields(5) grown_deref [OF q(1)]) (simp add: rec_inv_def map_inv_def)
  then show ?thesis using assms(4) by (cases "mget (pr_fires p) h") (simp_all add: can_recover_def events_of_def q(2,3))
qed


section \<open>An evaluation\<close>

text \<open>The hook silences notices. One point is a warning, the other a notice whose series fires already; a third series fired
  before and is gone.\<close>

definition cpu_rule :: AlertRule where
  "cpu_rule = tag_rule\<lparr>ar_EnableStime := ''00:00'', ar_EnableEtime := ''23:59'', ar_EnableDaysOfWeek := ''0 1 2 3 4 5 6''\<rparr>"

definition demo_env :: "unit handle_env" where
  "demo_env = \<lparr>he_L = literal_lib, he_J = plain_json, he_zone = (\<lambda>t. 0), he_R = small_relabel_lib,
     he_build = plain_env\<lparr>be_alertRuleCache := [(7, cpu_rule)]\<rparr>,
     he_execute = (\<lambda>ep e t s. (e, \<lparr>wr_Event = e, wr_Status = [], wr_Message = [], wr_NodeResults = [], wr_ErrorNode = [],
       wr_Stream = False, wr_StreamChan = False\<rparr>, s)),
     he_EventMuteHook = (\<lambda>e s. (case e of None \<Rightarrow> False | Some ev \<Rightarrow> ev_Severity ev = 3, s)), he_limit = 10,
     he_ordKeys = rev, he_ordGroups = rev, he_ordPoints = rev\<rparr>"

definition demo_state :: processor where
  "demo_state = (idle cpu_rule)\<lparr>pr_heap := [(seen_at 40)\<lparr>ev_Hash := ''7_host=a,env=p_1_3_q''\<rparr>, (seen_at 40)\<lparr>ev_Hash := ''old''\<rparr>],
     pr_fires := [(''7_host=a,env=p_1_3_q'', 0), (''old'', 1)]\<rparr>"

lemma demo_facts:
  "rec_inv demo_state" "mwf (pr_fires demo_state)" "range_order (he_ordKeys demo_env)" "range_order (he_ordGroups demo_env)"
  "mget (be_alertRuleCache (he_build demo_env)) (ar_Id (pr_rule demo_state)) = Some cpu_rule" "pr_datasourceId demo_state = 1"
  "dom (mget (pr_fires demo_state)) = {''7_host=a,env=p_1_3_q'', ''old''}"
  "Hash (he_build demo_env) (ar_Id cpu_rule) 1 (cpu_point 2) = ''7_host=a,env=p_1_2_q''"
  "Hash (he_build demo_env) (ar_Id cpu_rule) 1 (cpu_point 3) = ''7_host=a,env=p_1_3_q''"
proof -
  show "rec_inv demo_state"
    by (simp add: rec_inv_def map_inv_def demo_state_def idle_def deref_def)
  show "mwf (pr_fires demo_state)" "pr_datasourceId demo_state = 1" by (simp_all add: mwf_def demo_state_def idle_def)
  show "dom (mget (pr_fires demo_state)) = {''7_host=a,env=p_1_3_q'', ''old''}"
    unfolding dom_map_of_conv_image_fst by (simp add: demo_state_def insert_commute)
  show "range_order (he_ordKeys demo_env)" "range_order (he_ordGroups demo_env)" by (simp_all add: demo_env_def)
  show "mget (be_alertRuleCache (he_build demo_env)) (ar_Id (pr_rule demo_state)) = Some cpu_rule"
    by (simp add: demo_env_def demo_state_def idle_def cpu_rule_def tag_rule_def)
  show "Hash (he_build demo_env) (ar_Id cpu_rule) 1 (cpu_point 2) = ''7_host=a,env=p_1_2_q''"
    "Hash (he_build demo_env) (ar_Id cpu_rule) 1 (cpu_point 3) = ''7_host=a,env=p_1_3_q''" by code_simp+
qed

theorem firing_stays_firing_witness:
  "\<exists>q s'. Handle demo_env [cpu_point 3] ''inner'' True 100 demo_state () = Some (q, s') \<and> ''7_host=a,env=p_1_3_q'' \<in> dom (mget (pr_fires q))"
proof -
  have "Handle demo_env [cpu_point 3] ''inner'' True 100 demo_state () \<noteq> None" by code_simp
  then obtain q s' where run: "Handle demo_env [cpu_point 3] ''inner'' True 100 demo_state () = Some (q, s')" by auto
  from firing_stays_firing [OF run demo_facts(3,4,1,5), of "cpu_point 3"]
  have "''7_host=a,env=p_1_3_q'' \<in> dom (mget (pr_fires q))" unfolding demo_facts(6,7,9) by simp
  with run show ?thesis by blast
qed


end
