(* ===== verification/Restart.thy ===== *)
theory Restart
  imports Alert_Handle
begin

text \<open>
  The restart of a processor from the table of current events: \<^verbatim>\<open>RecoverAlertCurEventFromDb\<close> of \<^verbatim>\<open>alert/process/process.go\<close>, run
  when a worker starts. The table keeps the columns of an event only: the fields tagged \<^verbatim>\<open>gorm:"-"\<close> in
  \<^verbatim>\<open>models/alert_cur_event.go\<close> are at their zero value in a row that was read (\<open>stored\<close>). The query is an argument: an error,
  or the rows.
\<close>

section \<open>Loading the events\<close>

definition NewAlertCurEventMap :: AlertCurEventMap where
  "NewAlertCurEventMap = []"

definition skip_host :: "build_env \<Rightarrow> bool \<Rightarrow> string \<Rightarrow> AlertCurEvent \<Rightarrow> bool" where
  "skip_host E isCenter engineName event \<longleftrightarrow> ev_Cate event = ''host'' \<and>
     (case mget (be_TargetCache E) (ev_TargetIdent event) of
        None \<Rightarrow> False
      | Some target \<Rightarrow> tg_EngineName target \<noteq> engineName \<and> \<not> (isCenter \<and> tg_EngineName target = []))"

definition restored :: "build_env \<Rightarrow> AlertRule \<Rightarrow> AlertCurEvent \<Rightarrow> AlertCurEvent" where
  "restored E alertRule event =
     (let event1 = DB2Mem (event\<lparr>ev_NotifyRuleIds := ar_NotifyRuleIds alertRule\<rparr>)
      in case mget (be_TargetCache E) (ev_TargetIdent event1) of
           None \<Rightarrow> event1
         | Some target \<Rightarrow> event1\<lparr>ev_Target := Some (target\<lparr>tg_GroupNames := GetNamesByBusiGroupIds (be_BusiGroupCache E) (tg_GroupIds target)\<rparr>)\<rparr>)"

fun restore_loop ::
  "build_env \<Rightarrow> bool \<Rightarrow> AlertCurEvent list \<Rightarrow> AlertCurEventMap \<Rightarrow> AlertCurEventMap \<Rightarrow> processor \<Rightarrow> AlertCurEventMap \<times> AlertCurEventMap \<times> processor" where
  "restore_loop E isCenter [] fireMap pendingsMap p = (fireMap, pendingsMap, p)"
| "restore_loop E isCenter (row # rows) fireMap pendingsMap p =
     (case mget (be_alertRuleCache E) (ev_RuleId row) of
        None \<Rightarrow> restore_loop E isCenter rows fireMap pendingsMap p
      | Some alertRule \<Rightarrow>
          if skip_host E isCenter (pr_EngineName p) row then restore_loop E isCenter rows fireMap pendingsMap p
          else let event = restored E alertRule row;
                   (r, p1) = alloc event p;
                   (c, p2) = alloc event p1
               in restore_loop E isCenter rows (mput (ev_Hash event) r fireMap) (mput (ev_Hash event) c pendingsMap) p2)"

definition RecoverAlertCurEventFromDb :: "build_env \<Rightarrow> bool \<Rightarrow> string + AlertCurEvent list \<Rightarrow> processor \<Rightarrow> processor" where
  "RecoverAlertCurEventFromDb E isCenter queried p =
     (let p0 = p\<lparr>pr_pendings := NewAlertCurEventMap, pr_pendingsUseByRecover := NewAlertCurEventMap\<rparr> in
      case queried of
        Inl err \<Rightarrow> p0\<lparr>pr_fires := NewAlertCurEventMap\<rparr>
      | Inr curEvents \<Rightarrow>
          (let (fireMap, pendingsUseByRecoverMap, p1) = restore_loop E isCenter curEvents [] [] p0
           in p1\<lparr>pr_fires := fireMap, pr_pendingsUseByRecover := pendingsUseByRecoverMap\<rparr>))"

definition stored :: "AlertCurEvent \<Rightarrow> AlertCurEvent" where
  "stored e = e\<lparr>ev_RuleConfigJson := VNil, ev_CallbacksJSON := [], ev_NotifyChannelsJSON := [], ev_NotifyGroupsJSON := [],
     ev_NotifyGroupsObj := VNil, ev_TriggerValues := [], ev_TriggerValuesJson := VNil, ev_TagsJSON := [], ev_TagsMap := [],
     ev_OriginalTagsJSON := [], ev_AnnotationsJSON := [], ev_IsRecovered := False, ev_NotifyUsersObj := VNil, ev_LastEvalTime := 0,
     ev_LastSentTime := 0, ev_FirstEvalTime := 0, ev_ExtraConfig := VNil, ev_Status := 0, ev_Claimant := [], ev_SubRuleId := 0,
     ev_ExtraInfo := [], ev_Target := None, ev_JudgeType := 0, ev_RecoverExp := [], ev_RuleHash := [], ev_ExtraInfoMap := VNil,
     ev_NotifyRuleId := 0, ev_NotifyRuleName := [], ev_NotifyVersion := 0, ev_NotifyRules := VNil, ev_RecoverTime := 0\<rparr>"

section \<open>What a restart restores\<close>

text \<open>The rows that are taken over, with their hashes.\<close>

fun taken :: "build_env \<Rightarrow> bool \<Rightarrow> string \<Rightarrow> AlertCurEvent list \<Rightarrow> (string \<times> AlertCurEvent) list" where
  "taken E isCenter engine [] = []"
| "taken E isCenter engine (row # rows) =
     (case mget (be_alertRuleCache E) (ev_RuleId row) of
        None \<Rightarrow> taken E isCenter engine rows
      | Some rule \<Rightarrow> if skip_host E isCenter engine row then taken E isCenter engine rows
                     else (ev_Hash row, restored E rule row) # taken E isCenter engine rows)"

lemma restored_frame [simp]:
  "ev_Hash (restored E rule e) = ev_Hash e" "ev_LastEvalTime (restored E rule e) = ev_LastEvalTime e"
  "ev_LastSentTime (restored E rule e) = ev_LastSentTime e" "ev_JudgeType (restored E rule e) = ev_JudgeType e"
  "\<not> ev_IsRecovered (restored E rule e)"
  by (simp_all add: restored_def DB2Mem_def Let_def split: option.split)

lemma alloc_deref:
  assumes "alloc e p = (r, q)"
  shows "r = length (pr_heap p)" "length (pr_heap q) = Suc (length (pr_heap p))" "x < length (pr_heap p) \<Longrightarrow> deref q x = deref p x"
    "deref q r = e" "pr_EngineName q = pr_EngineName p" "pr_pendings q = pr_pendings p" "pr_rule q = pr_rule p" "pr_queue q = pr_queue p"
  using assms by (auto simp: alloc_def deref_def nth_append)

definition valid :: "processor \<Rightarrow> AlertCurEventMap \<Rightarrow> bool" where
  "valid p m \<longleftrightarrow> (\<forall>h r. mget m h = Some r \<longrightarrow> r < length (pr_heap p))"

lemma events_of_mono:
  assumes "valid p m" "\<And>x. x < length (pr_heap p) \<Longrightarrow> deref q x = deref p x"
  shows "events_of q m = events_of p m"
proof
  fix h
  show "events_of q m h = events_of p m h" using assms by (cases "mget m h") (auto simp: events_of_def valid_def)
qed

lemma events_of_put: "events_of p (mput h r m) = (events_of p m)(h \<mapsto> deref p r)"
  by (auto simp: events_of_def fun_eq_iff)

lemma restore_loop_spec:
  assumes "restore_loop E c rows fm pm p = (fm', pm', q)" "valid p fm" "valid p pm" "mwf fm"
  shows "valid q fm' \<and> valid q pm' \<and> mwf fm'
    \<and> events_of q fm' = events_of p fm ++ map_of (rev (taken E c (pr_EngineName p) rows))
    \<and> events_of q pm' = events_of p pm ++ map_of (rev (taken E c (pr_EngineName p) rows))
    \<and> pr_pendings q = pr_pendings p \<and> pr_rule q = pr_rule p \<and> pr_queue q = pr_queue p"
  using assms
proof (induction rows arbitrary: fm pm p)
  case (Cons row rows)
  show ?case
  proof (cases "mget (be_alertRuleCache E) (ev_RuleId row) = None \<or> skip_host E c (pr_EngineName p) row")
    case True
    then have "restore_loop E c (row # rows) fm pm p = restore_loop E c rows fm pm p"
      "taken E c (pr_EngineName p) (row # rows) = taken E c (pr_EngineName p) rows" by (auto split: option.split)
    with Cons show ?thesis by simp
  next
    case False
    then obtain rule where rule: "mget (be_alertRuleCache E) (ev_RuleId row) = Some rule" "\<not> skip_host E c (pr_EngineName p) row" by auto
    let ?e = "restored E rule row"
    obtain r p1 where a1: "alloc ?e p = (r, p1)" by (cases "alloc ?e p") auto
    obtain d p2 where a2: "alloc ?e p1 = (d, p2)" by (cases "alloc ?e p1") auto
    note f1 = alloc_deref [OF a1] and f2 = alloc_deref [OF a2]
    let ?fm = "mput (ev_Hash row) r fm" and ?pm = "mput (ev_Hash row) d pm"
    have run: "restore_loop E c rows ?fm ?pm p2 = (fm', pm', q)" using Cons.prems(1) rule by (simp add: a1 a2)
    have old: "deref p2 x = deref p x" if "x < length (pr_heap p)" for x using that f1(2,3) f2(3) by simp
    have new: "deref p2 r = ?e" "deref p2 d = ?e" using f1(1,2,4) f2(1,3,4) by simp_all
    have v: "valid p2 ?fm" "valid p2 ?pm" using Cons.prems(2,3) f1(1,2) f2(1,2) by (auto simp: valid_def less_SucI split: if_splits)
    have name: "pr_EngineName p2 = pr_EngineName p" "pr_pendings p2 = pr_pendings p" "pr_rule p2 = pr_rule p" "pr_queue p2 = pr_queue p"
      by (simp_all add: f1 f2)
    have ev: "events_of p2 ?fm = (events_of p fm)(ev_Hash row \<mapsto> ?e)" "events_of p2 ?pm = (events_of p pm)(ev_Hash row \<mapsto> ?e)"
      using events_of_mono [OF Cons.prems(2) old] events_of_mono [OF Cons.prems(3) old] by (simp_all add: events_of_put new)
    have tk: "taken E c (pr_EngineName p) (row # rows) = (ev_Hash row, ?e) # taken E c (pr_EngineName p) rows" using rule by simp
    have add: "m ++ map_of (rev (taken E c (pr_EngineName p) (row # rows))) = (m(ev_Hash row \<mapsto> ?e)) ++ map_of (rev (taken E c (pr_EngineName p) rows))" for m
      unfolding tk by (simp add: map_add_upd_left)
    show ?thesis unfolding add by (rule Cons.IH [OF run v mwf_mput [OF Cons.prems(4)], unfolded name ev])
  qed
qed simp

lemma taken_hash: "(h, e) \<in> set (taken E c engine rows) \<Longrightarrow> ev_Hash e = h"
  by (induction rows) (auto split: option.splits if_splits)

lemma map_inv_taken:
  assumes "valid p m" "events_of p m = map_of (rev (taken E c engine rows))"
  shows "map_inv p m"
  unfolding map_inv_def
proof (intro allI impI conjI)
  fix h r assume r: "mget m h = Some r"
  then show "r < length (pr_heap p)" using assms(1) by (simp add: valid_def)
  have "map_of (rev (taken E c engine rows)) h = Some (deref p r)" using fun_cong [OF assms(2), of h] r by (simp add: events_of_def)
  then have "(h, deref p r) \<in> set (taken E c engine rows)" using map_of_SomeD by fastforce
  then show "ev_Hash (deref p r) = h" by (rule taken_hash)
qed

lemma restart_view:
  fixes p rows E c
  defines "q \<equiv> RecoverAlertCurEventFromDb E c (Inr rows) p" and "evs \<equiv> taken E c (pr_EngineName p) rows"
  shows "fired q = map_of (rev evs) \<and> events_of q (pr_pendingsUseByRecover q) = map_of (rev evs) \<and> pr_pendings q = []
    \<and> rec_inv q \<and> mwf (pr_fires q) \<and> pr_queue q = pr_queue p \<and> pr_rule q = pr_rule p"
proof -
  let ?p = "p\<lparr>pr_pendings := [], pr_pendingsUseByRecover := []\<rparr>"
  obtain fm pm q1 where run: "restore_loop E c rows [] [] ?p = (fm, pm, q1)"
    by (cases "restore_loop E c rows [] [] ?p") auto
  have q: "q = q1\<lparr>pr_fires := fm, pr_pendingsUseByRecover := pm\<rparr>"
    by (simp add: q_def RecoverAlertCurEventFromDb_def NewAlertCurEventMap_def run)
  have none: "events_of ?p [] = Map.empty" by (simp add: events_of_def fun_eq_iff)
  have "valid ?p []" "mwf ([] :: AlertCurEventMap)" by (simp_all add: valid_def)
  from restore_loop_spec [OF run this(1,1,2)]
  have s: "valid q1 fm" "valid q1 pm" "mwf fm" "events_of q1 fm = map_of (rev evs)" "events_of q1 pm = map_of (rev evs)"
    "pr_pendings q1 = []" "pr_rule q1 = pr_rule p" "pr_queue q1 = pr_queue p" unfolding none by (simp_all add: evs_def)
  have same: "events_of q m = events_of q1 m" "map_inv q m = map_inv q1 m" for m
    by (simp_all add: q events_of_def map_inv_def deref_def fun_eq_iff map_option_case split: option.split)
  have "map_inv q1 fm" "map_inv q1 pm" using map_inv_taken s unfolding evs_def by blast+
  then have "rec_inv q" unfolding rec_inv_def same by (simp add: q)
  then show ?thesis using s unfolding same by (simp add: q)
qed

text \<open>(C27) A restart restores the firing events: with the rows of the table, the firing events are exactly those of the rows
  that have a rule and are not of a host that another engine monitors, the last row of each hash; the events of the
  last evaluation are copies of them, nothing is pending or queued anew, and the invariant of recovery holds.\<close>

theorem restart_restores:
  "fired (RecoverAlertCurEventFromDb E c (Inr rows) p) = map_of (rev (taken E c (pr_EngineName p) rows))
   \<and> events_of (RecoverAlertCurEventFromDb E c (Inr rows) p) (pr_pendingsUseByRecover (RecoverAlertCurEventFromDb E c (Inr rows) p))
       = map_of (rev (taken E c (pr_EngineName p) rows))
   \<and> pr_pendings (RecoverAlertCurEventFromDb E c (Inr rows) p) = []
   \<and> rec_inv (RecoverAlertCurEventFromDb E c (Inr rows) p) \<and> mwf (pr_fires (RecoverAlertCurEventFromDb E c (Inr rows) p))
   \<and> pr_queue (RecoverAlertCurEventFromDb E c (Inr rows) p) = pr_queue p"
  using restart_view [of E c rows p] by blast

lemma taken_stored:
  "(h, e) \<in> set (taken E c engine (map stored es)) \<Longrightarrow> ev_LastEvalTime e = 0 \<and> ev_JudgeType e = Origin \<and> ev_LastSentTime e = 0"
  by (induction es) (auto simp: stored_def Origin_def split: option.splits if_splits)


definition saved_event :: AlertCurEvent where
  "saved_event = zero_event\<lparr>ev_Hash := ''h'', ev_RuleId := 7, ev_LastEvalTime := 950, ev_JudgeType := RecoverOnCondition\<rparr>"

definition slow_rule :: AlertRule where
  "slow_rule = zero_rule\<lparr>ar_Id := 7, ar_RecoverDuration := 300\<rparr>"


end
