(* ===== verification/Series_Join.thy ===== *)
theory Series_Join
  imports Tag_Filter
begin

text \<open>
  How a rule with several queries combines their series (\<^verbatim>\<open>alert/eval/eval.go\<close>): the hashes of series and label sets
  (\<^verbatim>\<open>pkg/hash/hash.go\<close>), the groups of series with equal labels, and the joins of a trigger, from \<^verbatim>\<open>flatten\<close> to \<^verbatim>\<open>ProcessJoins\<close>.

  \<^verbatim>\<open>murmur3.Sum64\<close> and the orders in which Go visits the maps are arguments, in the record \<open>join_env\<close>. Unsigned 64-bit numbers are
  natural numbers: hashes are only compared, and the counters of the joins number the groups of one map. A nil map and an
  empty one are both the empty map.
\<close>

section \<open>Series and hashes\<close>

type_synonym uint64 = nat

record DataResp =
  dr_Ref :: string
  dr_Metric :: tags
  dr_Labels :: string
  dr_Values :: "rat list list"
  dr_Query :: string

definition dr_Last :: "DataResp \<Rightarrow> (rat \<times> rat) option" where
  "dr_Last d =
     (if length (dr_Values d) = 0 then None
      else let lastValue = last (dr_Values d) in
        if length lastValue \<noteq> 2 then None else Some (lastValue ! 0, lastValue ! 1))"

definition label_value :: "tags \<Rightarrow> string \<Rightarrow> string" where
  "label_value m k = (case mget m k of None \<Rightarrow> [] | Some v \<Rightarrow> v)"

definition MetricName :: "DataResp \<Rightarrow> string" where
  "MetricName d = label_value (dr_Metric d) ''__name__''"

definition label_text :: "tags \<Rightarrow> string list \<Rightarrow> string" where
  "label_text m ks = concat (map (\<lambda>k. ''/'' @ k @ ''/'' @ label_value m k) ks)"

definition GetHash :: "(string \<Rightarrow> uint64) \<Rightarrow> tags \<Rightarrow> string \<Rightarrow> uint64" where
  "GetHash Sum64 m ref = Sum64 (label_text m (sort (map fst m)) @ ''/'' @ ref)"

definition GetTagHash :: "(string \<Rightarrow> uint64) \<Rightarrow> tags \<Rightarrow> uint64" where
  "GetTagHash Sum64 m = Sum64 (label_text m (sort (filter (\<lambda>k. k \<noteq> ''__name__'') (map fst m))))"

definition GetTargetTagHash :: "(string \<Rightarrow> uint64) \<Rightarrow> tags \<Rightarrow> string list \<Rightarrow> uint64" where
  "GetTargetTagHash Sum64 m target = Sum64 (label_text m target)"

section \<open>Joins\<close>

type_synonym tag_index = "(uint64, uint64 list) gomap"
type_synonym rehashed = "(uint64, uint64 list list) gomap"
type_synonym series_store = "(uint64, DataResp) gomap"

record join_env =
  je_Sum64 :: "string \<Rightarrow> uint64"
  je_ordTags :: "tag_index \<Rightarrow> tag_index"
  je_ordRehashed :: "rehashed \<Rightarrow> rehashed"
  je_ordRefs :: "(string, tag_index) gomap \<Rightarrow> (string, tag_index) gomap"

datatype JoinType = Left | Right | Inner

definition mergeNewArray :: "uint64 list list \<Rightarrow> uint64 list" where
  "mergeNewArray arg = concat arg"

text \<open>\<^verbatim>\<open>flatten\<close> numbers the groups from 0 on.\<close>

definition flatten :: "join_env \<Rightarrow> rehashed \<Rightarrow> tag_index" where
  "flatten E m = enumerate 0 (concat (map snd (je_ordRehashed E m)))"

definition merge_pairs :: "uint64 list list \<Rightarrow> uint64 list list \<Rightarrow> uint64 list list" where
  "merge_pairs gs hs = concat (map (\<lambda>g. map (\<lambda>h. mergeNewArray [g, h]) hs) gs)"

fun on_join_loop :: "rehashed \<Rightarrow> JoinType \<Rightarrow> rehashed \<Rightarrow> rehashed \<Rightarrow> rehashed" where
  "on_join_loop m2 joinType [] out = out"
| "on_join_loop m2 joinType ((rehash, gs) # rest) out =
     (case mget m2 rehash of
        Some hs \<Rightarrow>
          (let pairs = merge_pairs gs hs;
               old = (case mget out rehash of None \<Rightarrow> [] | Some xs \<Rightarrow> xs)
           in on_join_loop m2 joinType rest (if pairs = [] then out else mput rehash (old @ pairs) out))
      | None \<Rightarrow> on_join_loop m2 joinType rest (if joinType \<noteq> Inner then mput rehash gs out else out))"

definition onJoin :: "join_env \<Rightarrow> rehashed \<Rightarrow> rehashed \<Rightarrow> JoinType \<Rightarrow> rehashed" where
  "onJoin E m1 m2 joinType = on_join_loop m2 joinType (je_ordRehashed E m1) []"

fun rehash_loop :: "join_env \<Rightarrow> series_store \<Rightarrow> string list \<Rightarrow> tag_index \<Rightarrow> rehashed \<Rightarrow> rehashed" where
  "rehash_loop E store on [] out = out"
| "rehash_loop E store on ((tagHash, seriesHashes) # rest) out =
     (case seriesHashes of
        [] \<Rightarrow> rehash_loop E store on rest out
      | first # _ \<Rightarrow>
          (case mget store first of
             None \<Rightarrow> rehash_loop E store on rest out
           | Some series \<Rightarrow>
               (let rehash = GetTargetTagHash (je_Sum64 E) (dr_Metric series) on;
                    old = (case mget out rehash of None \<Rightarrow> [] | Some gs \<Rightarrow> gs)
                in rehash_loop E store on rest (mput rehash (old @ [seriesHashes]) out))))"

definition rehashSet :: "join_env \<Rightarrow> tag_index \<Rightarrow> series_store \<Rightarrow> string list \<Rightarrow> rehashed" where
  "rehashSet E index store on = rehash_loop E store on (je_ordTags E index) []"

definition cartesianJoin :: "join_env \<Rightarrow> tag_index \<Rightarrow> tag_index \<Rightarrow> tag_index" where
  "cartesianJoin E i1 i2 =
     enumerate 0 (concat (map (\<lambda>(t1, g1). map (\<lambda>(t2, g2). mergeNewArray [g1, g2]) (je_ordTags E i2)) (je_ordTags E i1)))"

definition noneJoin :: "join_env \<Rightarrow> tag_index \<Rightarrow> tag_index \<Rightarrow> tag_index" where
  "noneJoin E i1 i2 = enumerate 0 (map snd (je_ordTags E i1) @ map snd (je_ordTags E i2))"

fun original_loop :: "tag_index \<Rightarrow> tag_index \<Rightarrow> tag_index" where
  "original_loop [] out = out"
| "original_loop ((tagHash, seriesHashes) # rest) out =
     original_loop rest
       (case mget out tagHash of
          None \<Rightarrow> mput tagHash (mergeNewArray [seriesHashes]) out
        | Some old \<Rightarrow> mput tagHash (old @ seriesHashes) out)"

definition originalJoin :: "join_env \<Rightarrow> tag_index \<Rightarrow> tag_index \<Rightarrow> tag_index" where
  "originalJoin E i1 i2 = original_loop (je_ordTags E i2) (original_loop (je_ordTags E i1) [])"

fun exclude_loop :: "rehashed \<Rightarrow> rehashed \<Rightarrow> rehashed \<Rightarrow> rehashed" where
  "exclude_loop m2 [] out = out"
| "exclude_loop m2 ((rehash, gs) # rest) out =
     exclude_loop m2 rest (if mget m2 rehash = None then mput rehash gs out else out)"

definition exclude :: "join_env \<Rightarrow> rehashed \<Rightarrow> rehashed \<Rightarrow> rehashed" where
  "exclude E m1 m2 = exclude_loop m2 (je_ordRehashed E m1) []"

fun MakeSeriesMap :: "(string \<Rightarrow> uint64) \<Rightarrow> DataResp list \<Rightarrow> tag_index \<Rightarrow> series_store \<Rightarrow> tag_index \<times> series_store" where
  "MakeSeriesMap Sum64 [] index store = (index, store)"
| "MakeSeriesMap Sum64 (s # ss) index store =
     (let seriesHash = GetHash Sum64 (dr_Metric s) (dr_Ref s);
          tagHash = GetTagHash Sum64 (dr_Metric s);
          old = (case mget index tagHash of None \<Rightarrow> [] | Some hs \<Rightarrow> hs)
      in MakeSeriesMap Sum64 ss (mput tagHash (old @ [seriesHash]) index) (mput seriesHash s store))"

record Join =
  jn_JoinType :: string
  jn_Ref :: string
  jn_On :: "string list"

record Trigger =
  tr_Expressions :: gval
  tr_Mode :: int
  tr_Exp :: string
  tr_Severity :: int
  tr_Type :: string
  tr_Duration :: int
  tr_Percent :: int
  tr_Joins :: "Join list"
  tr_JoinRef :: string
  tr_JudgeType :: int
  tr_RecoverExp :: string

definition index_of :: "(string, tag_index) gomap \<Rightarrow> string \<Rightarrow> tag_index" where
  "index_of indexes ref = (case mget indexes ref of None \<Rightarrow> [] | Some i \<Rightarrow> i)"

text \<open>One step of the loop over the joins, on \<^verbatim>\<open>last\<close> and \<^verbatim>\<open>lastRehashed\<close>.\<close>

definition join_step ::
  "join_env \<Rightarrow> (string, tag_index) gomap \<Rightarrow> series_store \<Rightarrow> Join \<Rightarrow> tag_index \<times> rehashed \<Rightarrow> tag_index \<times> rehashed" where
  "join_step E indexes store j st =
     (let cur = index_of indexes (jn_Ref j);
          curRehashed = rehashSet E cur store (jn_On j);
          joined = (\<lambda>m. (flatten E m, m)) in
      if jn_JoinType j = ''original'' then (originalJoin E (fst st) cur, snd st)
      else if jn_JoinType j = ''none'' then (noneJoin E (fst st) cur, snd st)
      else if jn_JoinType j = ''cartesian'' then (cartesianJoin E (fst st) cur, snd st)
      else if jn_JoinType j = ''inner_join'' then joined (onJoin E (snd st) curRehashed Inner)
      else if jn_JoinType j = ''left_join'' then joined (onJoin E (snd st) curRehashed Left)
      else if jn_JoinType j = ''right_join'' then joined (onJoin E curRehashed (snd st) Right)
      else if jn_JoinType j = ''left_exclude'' then joined (exclude E (snd st) curRehashed)
      else if jn_JoinType j = ''right_exclude'' then joined (exclude E curRehashed (snd st))
      else st)"

fun merge_all :: "join_env \<Rightarrow> (string, tag_index) gomap \<Rightarrow> tag_index \<Rightarrow> tag_index" where
  "merge_all E [] i = i"
| "merge_all E ((ref, index) # rest) i = merge_all E rest (originalJoin E i index)"

definition ProcessJoins :: "join_env \<Rightarrow> Trigger \<Rightarrow> (string, tag_index) gomap \<Rightarrow> series_store \<Rightarrow> tag_index" where
  "ProcessJoins E trigger indexes store =
     (if length indexes = 0 then []
      else if length (tr_Joins trigger) = 0
      then (case je_ordRefs E indexes of [] \<Rightarrow> [] | (ref, index) # rest \<Rightarrow> merge_all E rest index)
      else if length indexes < length (tr_Joins trigger) + 1 then []
      else let i0 = index_of indexes (tr_JoinRef trigger);
               m0 = rehashSet E i0 store (jn_On (hd (tr_Joins trigger)))
           in fst (fold (join_step E indexes store) (tr_Joins trigger) (i0, m0)))"

section \<open>Joins as relations\<close>

text \<open>A regrouped map as a relation: each group under the hash of its labels.\<close>

definition rel :: "rehashed \<Rightarrow> (uint64 \<times> uint64 list) multiset" where
  "rel m = mset (concat (map (\<lambda>(k, gs). map (Pair k) gs) m))"

definition rel_inner :: "(uint64 \<times> uint64 list) multiset \<Rightarrow> (uint64 \<times> uint64 list) multiset \<Rightarrow> (uint64 \<times> uint64 list) multiset" where
  "rel_inner R S = (\<Sum>(k, a) \<in># R. image_mset (\<lambda>(l, b). (k, a @ b)) (filter_mset (\<lambda>(l, b). l = k) S))"

definition rel_exclude :: "(uint64 \<times> uint64 list) multiset \<Rightarrow> (uint64 \<times> uint64 list) multiset \<Rightarrow> (uint64 \<times> uint64 list) multiset" where
  "rel_exclude R S = filter_mset (\<lambda>(k, a). k \<notin> fst ` set_mset S) R"

definition rel_left :: "(uint64 \<times> uint64 list) multiset \<Rightarrow> (uint64 \<times> uint64 list) multiset \<Rightarrow> (uint64 \<times> uint64 list) multiset" where
  "rel_left R S = rel_inner R S + rel_exclude R S"

definition rel_step :: "string \<Rightarrow> (uint64 \<times> uint64 list) multiset \<Rightarrow> (uint64 \<times> uint64 list) multiset \<Rightarrow> (uint64 \<times> uint64 list) multiset" where
  "rel_step joinType R S =
     (if joinType = ''inner_join'' then rel_inner R S
      else if joinType = ''left_join'' then rel_left R S
      else if joinType = ''right_join'' then rel_left S R
      else if joinType = ''left_exclude'' then rel_exclude R S
      else rel_exclude S R)"

definition on_types :: "string list" where
  "on_types = [''inner_join'', ''left_join'', ''right_join'', ''left_exclude'', ''right_exclude'']"

text \<open>The series of a query as a relation: its groups that are not empty and have a first series, under the hash of the labels
  joined on.\<close>

definition series_rel :: "join_env \<Rightarrow> series_store \<Rightarrow> string list \<Rightarrow> tag_index \<Rightarrow> (uint64 \<times> uint64 list) multiset" where
  "series_rel E store on index =
     mset (List.map_filter (\<lambda>(t, g). case g of [] \<Rightarrow> None | first # _ \<Rightarrow>
       (case mget store first of None \<Rightarrow> None | Some s \<Rightarrow> Some (GetTargetTagHash (je_Sum64 E) (dr_Metric s) on, g))) index)"

definition good_map :: "rehashed \<Rightarrow> bool" where
  "good_map m \<longleftrightarrow> mwf m \<and> (\<forall>gs \<in> set (map snd m). gs \<noteq> [])"

lemma rel_Nil [simp]: "rel [] = {#}"
  by (simp add: rel_def)

lemma rel_Cons [simp]: "rel ((k, gs) # m) = mset (map (Pair k) gs) + rel m"
  by (simp add: rel_def)

lemma rel_append [simp]: "rel (m @ n) = rel m + rel n"
  by (simp add: rel_def)

lemma rel_sum: "rel m = (\<Sum>x \<in># mset m. mset (map (Pair (fst x)) (snd x)))"
proof (induction m)
  case (Cons x m)
  obtain k gs where x: "x = (k, gs)" by fastforce
  from Cons show ?case by (simp only: x rel_Cons mset.simps image_mset_add_mset sum_mset.add_mset fst_conv snd_conv)
qed simp

lemma rel_perm: "mset m = mset n \<Longrightarrow> rel m = rel n"
  by (simp only: rel_sum)

lemma rel_mem: "(k, g) \<in># rel m \<longleftrightarrow> (\<exists>gs. (k, gs) \<in> set m \<and> g \<in> set gs)"
proof (induction m)
  case (Cons x m)
  obtain j hs where x: "x = (j, hs)" by fastforce
  have "(k, g) \<in> set (map (Pair j) hs) \<longleftrightarrow> k = j \<and> g \<in> set hs" by auto
  with Cons show ?case unfolding x rel_Cons union_iff set_mset_mset by auto
qed simp

lemma good_key:
  assumes "good_map m"
  shows "k \<in> fst ` set_mset (rel m) \<longleftrightarrow> mget m k \<noteq> None"
proof
  assume "k \<in> fst ` set_mset (rel m)"
  then obtain g where "(k, g) \<in># rel m" by (metis imageE prod.collapse)
  then obtain gs where "(k, gs) \<in> set m" unfolding rel_mem by blast
  then show "mget m k \<noteq> None" by (metis map_of_eq_None_iff image_eqI fst_conv)
next
  assume "mget m k \<noteq> None"
  then obtain gs where gs: "(k, gs) \<in> set m" by (meson map_of_SomeD not_None_eq)
  then have "gs \<noteq> []" using assms by (auto simp: good_map_def)
  then have "(k, hd gs) \<in># rel m" unfolding rel_mem using gs hd_in_set by blast
  then show "k \<in> fst ` set_mset (rel m)" by (metis image_eqI fst_conv)
qed

lemma rel_filter:
  assumes "mwf m"
  shows "filter_mset (\<lambda>(l, b). l = k) (rel m) = (case mget m k of None \<Rightarrow> {#} | Some gs \<Rightarrow> mset (map (Pair k) gs))"
  using assms
proof (induction m)
  case (Cons x m)
  obtain j gs where x: "x = (j, gs)" by fastforce
  have all: "filter_mset (\<lambda>(l, b). l = k) (mset (map (Pair j) gs)) = (if j = k then mset (map (Pair k) gs) else {#})"
    by (induction gs) auto
  have "mget m k = None" if "j = k" using Cons.prems that by (simp add: mwf_def x map_of_eq_None_iff)
  then show ?case using Cons all by (auto simp: x mwf_def)
qed simp

lemma mput_new: "k \<notin> fst ` set m \<Longrightarrow> mput k v m = m @ [(k, v)]"
  by (induction m) (auto simp: mput_def)

lemma rel_add:
  assumes "mwf m"
  shows "rel (mput k ((case mget m k of None \<Rightarrow> [] | Some gs \<Rightarrow> gs) @ [g]) m) = add_mset (k, g) (rel m)"
  using assms
proof (induction m)
  case (Cons x m)
  obtain j gs where x: "x = (j, gs)" by fastforce
  show ?case
  proof (cases "j = k")
    case False
    then have "mput k v (x # m) = x # mput k v m" for v by (simp add: mput_def x)
    moreover have "mwf m" using Cons.prems by (simp add: mwf_def)
    ultimately show ?thesis using Cons.IH False by (simp add: x)
  qed (simp add: mput_def x)
qed (simp add: mput_def)

section \<open>The joins implement the relations\<close>

definition orders_ok :: "join_env \<Rightarrow> bool" where
  "orders_ok E \<longleftrightarrow> range_order (je_ordTags E) \<and> range_order (je_ordRehashed E) \<and> range_order (je_ordRefs E)"

lemma ord_mset: "orders_ok E \<Longrightarrow> mset (je_ordRehashed E m) = mset m" "orders_ok E \<Longrightarrow> mset (je_ordTags E i) = mset i"
  by (simp_all add: orders_ok_def range_order_def)

lemma mwf_perm: "mset m = mset n \<Longrightarrow> mwf m = mwf n"
  unfolding mwf_def by (rule mset_eq_imp_distinct_iff) (simp only: mset_map)

lemma good_map_perm: "mset m = mset n \<Longrightarrow> good_map m = good_map n"
  unfolding good_map_def using mwf_perm [of m n] mset_eq_setD [of m n] by simp

definition join_entry :: "rehashed \<Rightarrow> JoinType \<Rightarrow> uint64 \<times> uint64 list list \<Rightarrow> (uint64 \<times> uint64 list list) option" where
  "join_entry m2 joinType x =
     (case mget m2 (fst x) of
        Some hs \<Rightarrow> if merge_pairs (snd x) hs = [] then None else Some (fst x, merge_pairs (snd x) hs)
      | None \<Rightarrow> if joinType \<noteq> Inner then Some x else None)"

lemma map_filter_Cons: "List.map_filter f (x # xs) = (case f x of None \<Rightarrow> List.map_filter f xs | Some y \<Rightarrow> y # List.map_filter f xs)"
  by (simp add: map_filter_def split: option.split)

lemma join_entry_pair: "join_entry m2 jt (k, gs) =
     (case mget m2 k of
        Some hs \<Rightarrow> if merge_pairs gs hs = [] then None else Some (k, merge_pairs gs hs)
      | None \<Rightarrow> if jt \<noteq> Inner then Some (k, gs) else None)"
  by (cases "mget m2 k") (simp_all add: join_entry_def)

lemma join_entry_fst: "join_entry m2 jt x = Some y \<Longrightarrow> fst y = fst x"
  by (auto simp: join_entry_def split: option.splits if_splits)

lemma on_join_loop_entries:
  assumes "mwf xs" "\<forall>x \<in> set xs. fst x \<notin> fst ` set out"
  shows "on_join_loop m2 jt xs out = out @ List.map_filter (join_entry m2 jt) xs"
  using assms
proof (induction m2 jt xs out rule: on_join_loop.induct)
  case (2 m2 jt k gs xs out)
  note IHN = 2(1) and IHS = 2(2)
  have new: "k \<notin> fst ` set out" and wf: "mwf xs" and k: "\<forall>x \<in> set xs. fst x \<noteq> k" using 2(3,4) by (auto simp: mwf_def)
  then have none: "mget out k = None" by (simp add: map_of_eq_None_iff)
  have rest: "\<forall>x \<in> set xs. fst x \<notin> fst ` set out" "\<forall>x \<in> set xs. fst x \<notin> fst ` set (out @ [(k, v)])" for v :: "uint64 list list"
    using 2(4) k by auto
  show ?case
  proof (cases "mget m2 k")
    case None
    show ?thesis
    proof (cases "jt = Inner")
      case True
      then show ?thesis using IHN [OF None] None wf rest(1) by (simp add: map_filter_Cons join_entry_pair)
    next
      case False
      then show ?thesis using IHN [OF None] None wf rest(2) [of gs] by (simp add: map_filter_Cons join_entry_pair mput_new [OF new])
    qed
  next
    case (Some hs)
    show ?thesis
    proof (cases "merge_pairs gs hs = []")
      case True
      then show ?thesis using IHS [OF Some refl refl] Some wf rest(1) by (simp add: map_filter_Cons join_entry_pair)
    next
      case False
      then show ?thesis using IHS [OF Some refl refl] Some wf rest(2) [of "merge_pairs gs hs"]
        by (simp add: map_filter_Cons join_entry_pair none mput_new [OF new])
    qed
  qed
qed (simp add: map_filter_def)

lemma rel_inner_add: "rel_inner (Q + R) S = rel_inner Q S + rel_inner R S"
  by (simp add: rel_inner_def)

lemma rel_exclude_add: "rel_exclude (Q + R) S = rel_exclude Q S + rel_exclude R S"
  by (simp add: rel_exclude_def)

lemma rel_inner_key:
  assumes "mwf m2"
  shows "rel_inner (mset (map (Pair k) gs)) (rel m2) = (case mget m2 k of None \<Rightarrow> {#} | Some hs \<Rightarrow> mset (map (Pair k) (merge_pairs gs hs)))"
proof (induction gs)
  case Nil
  then show ?case by (simp add: rel_inner_def merge_pairs_def split: option.split)
next
  case (Cons g gs)
  have "rel_inner (mset (map (Pair k) (g # gs))) (rel m2) =
      image_mset (\<lambda>(l, b). (k, g @ b)) (filter_mset (\<lambda>(l, b). l = k) (rel m2)) + rel_inner (mset (map (Pair k) gs)) (rel m2)"
    by (simp add: rel_inner_def)
  moreover have "image_mset (\<lambda>(l, b). (k, g @ b)) (mset (map (Pair k) hs)) = mset (map (Pair k) (map (\<lambda>h. mergeNewArray [g, h]) hs))" for hs
    by (induction hs) (simp_all add: mergeNewArray_def)
  ultimately show ?case unfolding Cons.IH rel_filter [OF assms] by (simp add: merge_pairs_def split: option.split)
qed

lemma rel_exclude_key:
  assumes "good_map m2"
  shows "rel_exclude (mset (map (Pair k) gs)) (rel m2) = (if mget m2 k = None then mset (map (Pair k) gs) else {#})"
  unfolding rel_exclude_def good_key [OF assms] by (induction gs) auto

lemma rel_entries_inner:
  assumes "mwf m2"
  shows "rel (List.map_filter (join_entry m2 Inner) xs) = rel_inner (rel xs) (rel m2)"
proof (induction xs)
  case Nil
  show ?case by (simp add: map_filter_def rel_inner_def)
next
  case (Cons x xs)
  obtain k gs where x: "x = (k, gs)" by fastforce
  show ?case using Cons.IH
    by (simp add: x rel_inner_add rel_inner_key [OF assms] map_filter_Cons join_entry_pair del: mset_map split: option.split)
qed

lemma rel_entries_left:
  assumes "good_map m2" "jt \<noteq> Inner"
  shows "rel (List.map_filter (join_entry m2 jt) xs) = rel_left (rel xs) (rel m2)"
proof (induction xs)
  case Nil
  show ?case by (simp add: map_filter_def rel_inner_def rel_left_def rel_exclude_def)
next
  case (Cons x xs)
  obtain k gs where x: "x = (k, gs)" by fastforce
  have wf: "mwf m2" using assms(1) by (simp add: good_map_def)
  show ?case using Cons.IH assms(2)
    by (simp add: x rel_left_def rel_inner_add rel_exclude_add rel_inner_key [OF wf] rel_exclude_key [OF assms(1)] map_filter_Cons join_entry_pair
        del: mset_map split: option.split)
qed

lemma good_entries: "good_map xs \<Longrightarrow> good_map (List.map_filter (join_entry m2 jt) xs)"
proof (induction xs)
  case (Cons x xs)
  obtain k gs where x: "x = (k, gs)" by fastforce
  have sub: "fst ` set (List.map_filter (join_entry m2 jt) xs) \<subseteq> fst ` set xs"
  proof
    fix l assume "l \<in> fst ` set (List.map_filter (join_entry m2 jt) xs)"
    then obtain z y where "z \<in> set xs" "join_entry m2 jt z = Some y" "l = fst y" by (force simp: map_filter_def)
    then show "l \<in> fst ` set xs" by (metis join_entry_fst imageI)
  qed
  from Cons have "good_map (List.map_filter (join_entry m2 jt) xs)" "k \<notin> fst ` set xs" "gs \<noteq> []" by (auto simp: good_map_def mwf_def x)
  moreover have "k \<notin> fst ` set (List.map_filter (join_entry m2 jt) xs)" using sub calculation(2) by blast
  moreover have "l = k \<and> hs \<noteq> []" if "join_entry m2 jt (k, gs) = Some (l, hs)" for l hs
    using that calculation(3) by (auto simp: join_entry_pair split: option.splits if_splits)
  ultimately show ?case by (auto simp: good_map_def mwf_def x map_filter_Cons split: option.split)
qed (simp add: map_filter_def)

lemma exclude_loop_entries:
  assumes "mwf xs" "\<forall>x \<in> set xs. fst x \<notin> fst ` set out"
  shows "exclude_loop m2 xs out = out @ filter (\<lambda>x. mget m2 (fst x) = None) xs"
  using assms
proof (induction m2 xs out rule: exclude_loop.induct)
  case (2 m2 k gs xs out)
  have "k \<notin> fst ` set out" "mwf xs" "\<forall>x \<in> set xs. fst x \<noteq> k" using 2(2,3) by (auto simp: mwf_def)
  then show ?case using 2(1,3) by (simp add: mput_new)
qed simp

lemma rel_exclude_entries:
  assumes "good_map m2"
  shows "rel (filter (\<lambda>x. mget m2 (fst x) = None) xs) = rel_exclude (rel xs) (rel m2)"
proof (induction xs)
  case Nil
  show ?case by (simp add: rel_exclude_def)
next
  case (Cons x xs)
  obtain k gs where x: "x = (k, gs)" by fastforce
  show ?case using Cons.IH by (simp add: x rel_exclude_add rel_exclude_key [OF assms] del: mset_map)
qed

lemma rehash_loop_spec:
  assumes "good_map out"
  shows "rel (rehash_loop E store on xs out) = series_rel E store on xs + rel out \<and> good_map (rehash_loop E store on xs out)"
  using assms
proof (induction E store on xs out rule: rehash_loop.induct)
  case (1 E store on out)
  then show ?case by (simp add: series_rel_def map_filter_def)
next
  case (2 E store on t g xs out)
  show ?case
  proof (cases g)
    case Nil
    then show ?thesis using 2 by (simp add: series_rel_def map_filter_Cons)
  next
    case (Cons f fs)
    show ?thesis
    proof (cases "mget store f")
      case None
      then show ?thesis using 2 Cons by (simp add: series_rel_def map_filter_Cons)
    next
      case (Some s)
      let ?k = "GetTargetTagHash (je_Sum64 E) (dr_Metric s) on"
      let ?out = "mput ?k ((case mget out ?k of None \<Rightarrow> [] | Some gs \<Rightarrow> gs) @ [g]) out"
      have "gs \<noteq> []" if "(l, gs) \<in> set ?out" for l gs
        using mem_mput_D [OF that] 2(4) by (auto simp: good_map_def)
      then have good: "good_map ?out" using 2(4) by (auto simp: good_map_def)
      have rel: "rel ?out = add_mset (?k, g) (rel out)" using 2(4) by (intro rel_add) (simp add: good_map_def)
      show ?thesis using 2(3) [OF Cons Some refl refl good] rel by (simp add: Cons Some series_rel_def map_filter_Cons Let_def)
    qed
  qed
qed

lemma series_rel_perm: "mset xs = mset ys \<Longrightarrow> series_rel E store on xs = series_rel E store on ys"
  unfolding series_rel_def map_filter_def mset_map mset_filter by (simp only:)

text \<open>Functional refinement: each operation on regrouped maps is the operation on relations.\<close>

lemma rehashSet_rel:
  assumes "orders_ok E"
  shows "rel (rehashSet E i store on) = series_rel E store on i" and "good_map (rehashSet E i store on)"
proof -
  have good: "good_map []" by (simp add: good_map_def)
  show "good_map (rehashSet E i store on)" using rehash_loop_spec [OF good] by (simp add: rehashSet_def)
  have "rel (rehashSet E i store on) = series_rel E store on (je_ordTags E i)" using rehash_loop_spec [OF good] by (simp add: rehashSet_def)
  then show "rel (rehashSet E i store on) = series_rel E store on i" using series_rel_perm [OF ord_mset(2) [OF assms]] by simp
qed

lemma onJoin_rel:
  assumes "orders_ok E" "good_map m1" "good_map m2"
  shows "rel (onJoin E m1 m2 Inner) = rel_inner (rel m1) (rel m2)"
    and "jt \<noteq> Inner \<Longrightarrow> rel (onJoin E m1 m2 jt) = rel_left (rel m1) (rel m2)"
    and "good_map (onJoin E m1 m2 jt')"
proof -
  note perm = ord_mset(1) [OF assms(1), of m1]
  have good: "good_map (je_ordRehashed E m1)" using good_map_perm [OF perm] assms(2) by simp
  then have "mwf (je_ordRehashed E m1)" by (simp add: good_map_def)
  then have on: "onJoin E m1 m2 jt = List.map_filter (join_entry m2 jt) (je_ordRehashed E m1)" for jt
    by (simp add: onJoin_def on_join_loop_entries)
  have wf: "mwf m2" using assms(3) by (simp add: good_map_def)
  show "rel (onJoin E m1 m2 Inner) = rel_inner (rel m1) (rel m2)" unfolding on rel_entries_inner [OF wf] rel_perm [OF perm] ..
  show "jt \<noteq> Inner \<Longrightarrow> rel (onJoin E m1 m2 jt) = rel_left (rel m1) (rel m2)" unfolding on rel_entries_left [OF assms(3)] rel_perm [OF perm] ..
  show "good_map (onJoin E m1 m2 jt')" unfolding on by (rule good_entries [OF good])
qed

lemma exclude_rel:
  assumes "orders_ok E" "good_map m1" "good_map m2"
  shows "rel (exclude E m1 m2) = rel_exclude (rel m1) (rel m2)" and "good_map (exclude E m1 m2)"
proof -
  note perm = ord_mset(1) [OF assms(1), of m1]
  have good: "good_map (je_ordRehashed E m1)" using good_map_perm [OF perm] assms(2) by simp
  then have "mwf (je_ordRehashed E m1)" by (simp add: good_map_def)
  then have ex: "exclude E m1 m2 = filter (\<lambda>x. mget m2 (fst x) = None) (je_ordRehashed E m1)"
    by (simp add: exclude_def exclude_loop_entries)
  show "rel (exclude E m1 m2) = rel_exclude (rel m1) (rel m2)" unfolding ex rel_exclude_entries [OF assms(3)] rel_perm [OF perm] ..
  show "good_map (exclude E m1 m2)" unfolding ex using good by (auto simp: good_map_def)
qed

lemma rel_snd: "image_mset snd (rel m) = mset (concat (map snd m))"
proof (induction m)
  case (Cons x m)
  obtain k gs where "x = (k, gs)" by fastforce
  with Cons show ?case by (simp add: image_mset.compositionality o_def)
qed simp

lemma flatten_rel: "orders_ok E \<Longrightarrow> mset (map snd (flatten E m)) = image_mset snd (rel m)"
  unfolding flatten_def map_snd_enumerate by (simp only: rel_snd [symmetric] rel_perm [OF ord_mset(1)])

text \<open>A chain of joins on the same labels keeps \<^verbatim>\<open>last\<close> and \<^verbatim>\<open>lastRehashed\<close> together.\<close>

lemma join_step_rel:
  assumes "orders_ok E" "good_map m" "jn_JoinType j \<in> set on_types"
  shows "\<exists>m'. join_step E indexes store j (i, m) = (flatten E m', m') \<and> good_map m'
           \<and> rel m' = rel_step (jn_JoinType j) (rel m) (series_rel E store (jn_On j) (index_of indexes (jn_Ref j)))"
proof -
  let ?c = "rehashSet E (index_of indexes (jn_Ref j)) store (jn_On j)"
  note c = rehashSet_rel [OF assms(1), of "index_of indexes (jn_Ref j)" store "jn_On j"]
  note ops = onJoin_rel [OF assms(1,2) c(2)] onJoin_rel [OF assms(1) c(2) assms(2)] exclude_rel [OF assms(1,2) c(2)] exclude_rel [OF assms(1) c(2) assms(2)]
  consider "jn_JoinType j = ''inner_join''" | "jn_JoinType j = ''left_join''" | "jn_JoinType j = ''right_join''"
    | "jn_JoinType j = ''left_exclude''" | "jn_JoinType j = ''right_exclude''" using assms(3) by (auto simp: on_types_def)
  then show ?thesis by cases (simp_all add: join_step_def Let_def rel_step_def ops c(1))
qed

lemma joins_rel:
  assumes "orders_ok E" "good_map m" "js \<noteq> []" "\<forall>j \<in> set js. jn_JoinType j \<in> set on_types"
  shows "\<exists>m'. fold (join_step E indexes store) js (i, m) = (flatten E m', m') \<and> good_map m'
           \<and> rel m' = fold (\<lambda>j R. rel_step (jn_JoinType j) R (series_rel E store (jn_On j) (index_of indexes (jn_Ref j)))) js (rel m)"
  using assms(2-4)
proof (induction js arbitrary: i m)
  case (Cons j js)
  obtain m1 where m1: "join_step E indexes store j (i, m) = (flatten E m1, m1)" "good_map m1"
      "rel m1 = rel_step (jn_JoinType j) (rel m) (series_rel E store (jn_On j) (index_of indexes (jn_Ref j)))"
    using join_step_rel [OF assms(1) Cons.prems(1)] Cons.prems(3) by (meson list.set_intros(1))
  show ?case
  proof (cases "js = []")
    case True
    then show ?thesis using m1 by simp
  next
    case False
    then show ?thesis using Cons.IH [OF m1(2) False] Cons.prems(3) m1(1,3) by simp
  qed
qed simp

text \<open>(C9) A trigger whose joins compare labels (inner, left, right, and the two exclusions) computes the relational join of its
  queries, in whatever order Go visits the maps: the groups \<^verbatim>\<open>ProcessJoins\<close> returns are, with their multiplicity, those of the
  relation that the steps build from the groups of the first query, where two groups match when the hashes of the labels
  to join on are equal, and the group of a match is the concatenation of the two.\<close>

theorem joins_are_relational:
  assumes "orders_ok E" "tr_Joins trigger \<noteq> []" "length (tr_Joins trigger) < length indexes"
    and "\<forall>j \<in> set (tr_Joins trigger). jn_JoinType j \<in> set on_types"
  shows "mset (map snd (ProcessJoins E trigger indexes store)) =
     image_mset snd (fold (\<lambda>j R. rel_step (jn_JoinType j) R (series_rel E store (jn_On j) (index_of indexes (jn_Ref j)))) (tr_Joins trigger)
       (series_rel E store (jn_On (hd (tr_Joins trigger))) (index_of indexes (tr_JoinRef trigger))))"
proof -
  let ?m = "rehashSet E (index_of indexes (tr_JoinRef trigger)) store (jn_On (hd (tr_Joins trigger)))"
  note m = rehashSet_rel [OF assms(1), of "index_of indexes (tr_JoinRef trigger)" store "jn_On (hd (tr_Joins trigger))"]
  obtain m' where m': "fold (join_step E indexes store) (tr_Joins trigger) (index_of indexes (tr_JoinRef trigger), ?m) = (flatten E m', m')"
      "rel m' = fold (\<lambda>j R. rel_step (jn_JoinType j) R (series_rel E store (jn_On j) (index_of indexes (jn_Ref j)))) (tr_Joins trigger) (rel ?m)"
    using joins_rel [OF assms(1) m(2) assms(2,4)] by blast
  have "ProcessJoins E trigger indexes store = flatten E m'" using assms(2,3) m'(1) by (auto simp: ProcessJoins_def Let_def)
  then show ?thesis using flatten_rel [OF assms(1)] m'(2) m(1) by simp
qed

text \<open>After a step of the other kinds (original, none, cartesian), a join that compares labels continues from the state before that
  step: the step is lost. Here, the cartesian product with the second query does not show in the result.\<close>

lemma mixed_join_loses_step:
  assumes "tr_Joins trigger = [j1, j2]" "jn_JoinType j1 \<in> {''original'', ''none'', ''cartesian''}" "jn_JoinType j2 \<in> set on_types"
    and "jn_On j1 = jn_On j2" "2 < length indexes"
  shows "ProcessJoins E trigger indexes store = ProcessJoins E (trigger\<lparr>tr_Joins := [j2]\<rparr>) indexes store"
proof -
  have fst_free: "join_step E indexes store j2 (a, m) = join_step E indexes store j2 (b, m)" for a b m
    using assms(3) by (auto simp: join_step_def on_types_def Let_def)
  have snd_same: "snd (join_step E indexes store j1 (a, m)) = m" for a m
    using assms(2) by (auto simp: join_step_def Let_def)
  have "join_step E indexes store j2 (join_step E indexes store j1 (a, m)) = join_step E indexes store j2 (a, m)" for a m
    using fst_free snd_same by (metis prod.collapse)
  then show ?thesis using assms(1,4,5) by (simp add: ProcessJoins_def Let_def)
qed

text \<open>The text that is hashed does not tell labels apart whose values contain a slash, whatever the hash function: such label sets are one
  group.\<close>

lemma slash_labels_collide:
  "GetTagHash Sum64 [(''a'', ''1/b/2'')] = GetTagHash Sum64 [(''a'', ''1''), (''b'', ''2'')]"
  by (simp add: GetTagHash_def label_text_def label_value_def)

section \<open>Examples\<close>

definition length_env :: join_env where
  "length_env = \<lparr>je_Sum64 = length, je_ordTags = (\<lambda>m. m), je_ordRehashed = rev, je_ordRefs = (\<lambda>m. m)\<rparr>"

definition one_series :: "string \<Rightarrow> string \<Rightarrow> DataResp" where
  "one_series ref db = \<lparr>dr_Ref = ref, dr_Metric = [(''db'', db)], dr_Labels = [], dr_Values = [[10, 3]], dr_Query = []\<rparr>"

definition two_queries :: "(string, tag_index) gomap" where
  "two_queries = [(''A'', [(0, [10]), (1, [11])]), (''B'', [(0, [20])])]"

definition two_store :: series_store where
  "two_store = [(10, one_series ''A'' ''x''), (11, one_series ''A'' ''yy''), (20, one_series ''B'' ''x'')]"

definition db_join :: "string \<Rightarrow> Trigger" where
  "db_join t = \<lparr>tr_Expressions = VNil, tr_Mode = 0, tr_Exp = [], tr_Severity = 1, tr_Type = [], tr_Duration = 0, tr_Percent = 0,
     tr_Joins = [\<lparr>jn_JoinType = t, jn_Ref = ''B'', jn_On = [''db'']\<rparr>], tr_JoinRef = ''A'', tr_JudgeType = 0, tr_RecoverExp = []\<rparr>"

theorem joins_are_relational_witness:
  "mset (map snd (ProcessJoins length_env (db_join ''left_join'') two_queries two_store)) = {#[10, 20], [11]#}"
proof -
  have "orders_ok length_env" "tr_Joins (db_join ''left_join'') \<noteq> []" "length (tr_Joins (db_join ''left_join'')) < length two_queries"
      "\<forall>j \<in> set (tr_Joins (db_join ''left_join'')). jn_JoinType j \<in> set on_types"
    by (simp_all add: orders_ok_def length_env_def db_join_def two_queries_def on_types_def)
  note rel = joins_are_relational [OF this, of two_store]
  have A: "series_rel length_env two_store [''db''] (index_of two_queries ''A'') = {#(5, [10]), (6, [11])#}"
    by (simp add: series_rel_def index_of_def two_queries_def two_store_def map_filter_def one_series_def GetTargetTagHash_def length_env_def
        label_text_def label_value_def eval_nat_numeral)
  have B: "series_rel length_env two_store [''db''] (index_of two_queries ''B'') = {#(5, [20])#}"
    by (simp add: series_rel_def index_of_def two_queries_def two_store_def map_filter_def one_series_def GetTargetTagHash_def length_env_def
        label_text_def label_value_def eval_nat_numeral)
  show ?thesis unfolding rel by (simp add: db_join_def A B rel_step_def rel_left_def rel_inner_def rel_exclude_def)
qed

end
