(* ===== verification/Rule_Query.thy ===== *)
theory Rule_Query
  imports Series_Join Event_Building Processors
begin

text \<open>
  How a rule finds its anomalies: \<^verbatim>\<open>GetAnomalyPoint\<close> of \<^verbatim>\<open>alert/eval/eval.go\<close>, with the evaluation of trigger expressions
  (\<^verbatim>\<open>pkg/parser/calc.go\<close>) and the check for series without data.

  The record \<open>query_env\<close> holds what the function calls: the clients of the data sources, the expression language
  \<^verbatim>\<open>expr-lang/expr\<close>, the decoder of the rule configuration, the templates in queries, the formats of values and times, and the
  orders in which Go visits the maps. Values of series are rational numbers. The slices of series hashes are values: sorting
  one in place, which a later trigger may see, changes only the order of series with one label set.
\<close>

section \<open>Expressions\<close>

fun replaceDollarSigns :: "string \<Rightarrow> string" where
  "replaceDollarSigns (a # b # c # cs) =
     (if a = CHR ''$'' \<and> CHR ''A'' \<le> b \<and> b \<le> CHR ''Z'' \<and> c = CHR ''.'' then b # CHR ''_'' # replaceDollarSigns cs
      else a # replaceDollarSigns (b # c # cs))"
| "replaceDollarSigns s = s"

definition cleanStr :: "string \<Rightarrow> string" where
  "cleanStr s = ReplaceAll (replaceDollarSigns s) ''$.'' []"

record query_env =
  qe_join :: join_env
  qe_Cate :: "string \<Rightarrow> int \<Rightarrow> (gval \<Rightarrow> string + DataResp list) option"
  qe_template :: "string \<Rightarrow> gval \<Rightarrow> gval"
  qe_expr :: "string \<Rightarrow> (string, gval) gomap \<Rightarrow> string + gval"
  qe_ref_unit :: "gval \<Rightarrow> string \<times> string"
  qe_ValueFormatter :: "string \<Rightarrow> int \<Rightarrow> rat \<Rightarrow> FormattedValue"
  qe_fmt_3f :: "rat \<Rightarrow> string"
  qe_fmt_time :: "int \<Rightarrow> string"
  qe_fmt_query :: "gval list \<Rightarrow> Trigger \<Rightarrow> string"
  qe_fmt_labels :: "tags \<Rightarrow> string"
  qe_ordMetric :: "tags \<Rightarrow> tags"
  qe_ordVars :: "(string, gval) gomap \<Rightarrow> (string, gval) gomap"
  qe_ordStore :: "series_store \<Rightarrow> series_store"

text \<open>The functions of \<^verbatim>\<open>defaultFuncMap\<close> are known to \<open>qe_expr\<close>.\<close>

definition MathCalc :: "query_env \<Rightarrow> string \<Rightarrow> (string, gval) gomap \<Rightarrow> string + rat" where
  "MathCalc Q s data =
     (let m = fold (\<lambda>(k, v) m. mput (cleanStr k) v m) (qe_ordVars Q data) [] in
      case qe_expr Q (cleanStr s) m of
        Inl err \<Rightarrow> Inl err
      | Inr out \<Rightarrow> Inr (case out of VFloat r \<Rightarrow> r | VBool b \<Rightarrow> if b then 1 else 0 | VInt i \<Rightarrow> of_int i | _ \<Rightarrow> 0))"

definition CalcWithRid :: "query_env \<Rightarrow> string \<Rightarrow> (string, gval) gomap \<Rightarrow> bool" where
  "CalcWithRid Q s data = (case MathCalc Q s data of Inl err \<Rightarrow> False | Inr v \<Rightarrow> v > 0)"

section \<open>The configuration\<close>

record NodataTrigger =
  nt_Enable :: bool
  nt_Severity :: int
  nt_ResolveAfterEnable :: bool
  nt_ResolveAfter :: int

text \<open>The fields of \<^verbatim>\<open>RuleQuery\<close> that the evaluation reads.\<close>

record rule_query =
  ru_Inhibit :: bool
  ru_Queries :: "gval list"
  ru_ExpTriggerDisable :: bool
  ru_Triggers :: "Trigger list"
  ru_NodataTrigger :: NodataTrigger

text \<open>A query of a configuration is decoded JSON, never a struct.\<close>

definition GetQueryRef :: "gval \<Rightarrow> string option" where
  "GetQueryRef query = (case query of VMap m \<Rightarrow> (case mget m ''ref'' of Some (VString ref) \<Rightarrow> Some ref | _ \<Rightarrow> None) | _ \<Rightarrow> None)"

section \<open>The series of the queries\<close>

fun query_loop ::
  "query_env \<Rightarrow> AlertRule \<Rightarrow> int \<Rightarrow> gval list \<Rightarrow> series_store \<Rightarrow> (string, tag_index) gomap \<Rightarrow> string + series_store \<times> (string, tag_index) gomap" where
  "query_loop Q rule dsId [] seriesStore indexes = Inr (seriesStore, indexes)"
| "query_loop Q rule dsId (query # queries) seriesStore indexes =
     (case qe_Cate Q (ar_Cate rule) dsId of
        None \<Rightarrow> Inl (''rule_eval:'' @ Itoa (ar_Id rule) @ '' datasource:'' @ Itoa dsId @ '' not exists'')
      | Some plug \<Rightarrow>
          (case plug query of
             Inl err \<Rightarrow> Inl (''rule_eval:'' @ Itoa (ar_Id rule) @ '' query data error: '' @ err)
           | Inr series \<Rightarrow>
               (let (index, seriesStore') = MakeSeriesMap (je_Sum64 (qe_join Q)) series [] seriesStore in
                case GetQueryRef query of
                  None \<Rightarrow> query_loop Q rule dsId queries seriesStore' indexes
                | Some ref \<Rightarrow> query_loop Q rule dsId queries seriesStore' (mput ref index indexes))))"

fun unit_loop :: "query_env \<Rightarrow> gval list \<Rightarrow> (string, string) gomap \<Rightarrow> (string, string) gomap" where
  "unit_loop Q [] unitMap = unitMap"
| "unit_loop Q (query # queries) unitMap = unit_loop Q queries (mput (fst (qe_ref_unit Q query)) (snd (qe_ref_unit Q query)) unitMap)"

section \<open>The triggers\<close>

definition trunc :: "rat \<Rightarrow> int" where
  "trunc r = (if r \<ge> 0 then \<lfloor>r\<rfloor> else \<lceil>r\<rceil>)"

record sampled =
  sm_m :: "(string, gval) gomap"
  sm_units :: "(string, FormattedValue) gomap"
  sm_ts :: int
  sm_sample :: DataResp
  sm_value :: rat

definition zero_series :: DataResp where
  "zero_series = \<lparr>dr_Ref = [], dr_Metric = [], dr_Labels = [], dr_Values = [], dr_Query = []\<rparr>"

definition no_sample :: sampled where
  "no_sample = \<lparr>sm_m = [], sm_units = [], sm_ts = 0, sm_sample = zero_series, sm_value = 0\<rparr>"

fun label_vars :: "string \<Rightarrow> string \<Rightarrow> tags \<Rightarrow> (string, gval) gomap \<Rightarrow> (string, gval) gomap" where
  "label_vars ex ref [] m = m"
| "label_vars ex ref ((k, v) # rest) m =
     label_vars ex ref rest
       (if k = ''__name__'' \<or> \<not> Contains ex (''$'' @ ref @ ''.'' @ k) then m
        else mput (''$'' @ ref @ ''.'' @ k) (VString v) m)"

definition sample_series :: "query_env \<Rightarrow> string \<Rightarrow> (string, string) gomap \<Rightarrow> DataResp \<Rightarrow> sampled \<Rightarrow> sampled" where
  "sample_series Q ex unitMap series acc =
     (case dr_Last series of
        None \<Rightarrow> acc
      | Some (t, v) \<Rightarrow>
          if \<not> Contains ex (''$'' @ dr_Ref series) then acc
          else let m = mput (''$'' @ dr_Ref series) (VFloat v) (sm_m acc);
                   m = mput (''$'' @ dr_Ref series @ ''.'' @ MetricName series) (VFloat v) m;
                   m = label_vars ex (dr_Ref series) (qe_ordMetric Q (dr_Metric series)) m;
                   units = (case mget unitMap (dr_Ref series) of
                              None \<Rightarrow> sm_units acc
                            | Some u \<Rightarrow> mput (''$'' @ dr_Ref series @ ''.'' @ MetricName series) (qe_ValueFormatter Q u 2 v) (sm_units acc))
               in \<lparr>sm_m = m, sm_units = units, sm_ts = trunc t, sm_sample = series, sm_value = v\<rparr>)"

fun sample_loop :: "query_env \<Rightarrow> string \<Rightarrow> (string, string) gomap \<Rightarrow> series_store \<Rightarrow> uint64 list \<Rightarrow> sampled \<Rightarrow> sampled" where
  "sample_loop Q ex unitMap seriesStore [] acc = acc"
| "sample_loop Q ex unitMap seriesStore (h # hs) acc =
     sample_loop Q ex unitMap seriesStore hs
       (case mget seriesStore h of None \<Rightarrow> acc | Some series \<Rightarrow> sample_series Q ex unitMap series acc)"

fun values_text :: "query_env \<Rightarrow> (string, FormattedValue) gomap \<Rightarrow> (string, gval) gomap \<Rightarrow> string" where
  "values_text Q units [] = []"
| "values_text Q units ((k, v) # rest) =
     (if \<not> Contains k ''.'' then []
      else case mget units k of
        Some u \<Rightarrow> k @ '':'' @ fv_Text u @ '' ''
      | None \<Rightarrow> (case v of VFloat r \<Rightarrow> k @ '':'' @ qe_fmt_3f Q r @ '' '' | VString s \<Rightarrow> k @ '':'' @ s @ '' '' | _ \<Rightarrow> []))
     @ values_text Q units rest"

definition group_point :: "query_env \<Rightarrow> gval list \<Rightarrow> (string, string) gomap \<Rightarrow> series_store \<Rightarrow> Trigger \<Rightarrow> uint64 list \<Rightarrow> AnomalyPoint \<times> (string, gval) gomap" where
  "group_point Q queries unitMap seriesStore trigger hashes =
     (let s = sample_loop Q (tr_Exp trigger) unitMap seriesStore (sort hashes) no_sample;
          isTriggered = CalcWithRid Q (tr_Exp trigger) (sm_m s);
          queries' = (if dr_Query (sm_sample s) \<noteq> [] then [VString (dr_Query (sm_sample s))] else queries)
      in (\<lparr>ap_Key = MetricName (sm_sample s), ap_Labels = dr_Metric (sm_sample s), ap_Timestamp = sm_ts s, ap_Value = sm_value s,
           ap_Severity = tr_Severity trigger, ap_Triggered = isTriggered, ap_Query = qe_fmt_query Q queries' trigger,
           ap_Values = values_text Q (sm_units s) (qe_ordVars Q (sm_m s)), ap_ValuesUnit = sm_units s,
           ap_JudgeType = tr_JudgeType trigger, ap_RecoverExp = tr_RecoverExp trigger, ap_TriggerType = []\<rparr>, sm_m s))"

fun group_loop ::
  "query_env \<Rightarrow> gval list \<Rightarrow> (string, string) gomap \<Rightarrow> series_store \<Rightarrow> Trigger \<Rightarrow> uint64 list list \<Rightarrow> AnomalyPoint list \<times> AnomalyPoint list \<Rightarrow>
   AnomalyPoint list \<times> AnomalyPoint list" where
  "group_loop Q queries unitMap seriesStore trigger [] acc = acc"
| "group_loop Q queries unitMap seriesStore trigger (hashes # rest) (points, recoverPoints) =
     (let (point, m) = group_point Q queries unitMap seriesStore trigger hashes in
      group_loop Q queries unitMap seriesStore trigger rest
        (if ap_Triggered point then (points @ [point], recoverPoints)
         else if tr_JudgeType trigger = RecoverOnCondition \<and> \<not> CalcWithRid Q (tr_RecoverExp trigger) m then (points, recoverPoints)
         else (points, recoverPoints @ [point])))"

fun trigger_loop ::
  "query_env \<Rightarrow> gval list \<Rightarrow> (string, string) gomap \<Rightarrow> series_store \<Rightarrow> (string, tag_index) gomap \<Rightarrow> Trigger list \<Rightarrow>
   AnomalyPoint list \<times> AnomalyPoint list \<Rightarrow> AnomalyPoint list \<times> AnomalyPoint list" where
  "trigger_loop Q queries unitMap seriesStore indexes [] acc = acc"
| "trigger_loop Q queries unitMap seriesStore indexes (trigger # rest) acc =
     trigger_loop Q queries unitMap seriesStore indexes rest
       (group_loop Q queries unitMap seriesStore trigger
          (map snd (je_ordTags (qe_join Q) (ProcessJoins (qe_join Q) trigger indexes seriesStore))) acc)"

section \<open>Series without data\<close>

definition nodata_point :: "query_env \<Rightarrow> NodataTrigger \<Rightarrow> int \<Rightarrow> DataResp \<Rightarrow> AnomalyPoint" where
  "nodata_point Q nt now lastSeries =
     \<lparr>ap_Key = MetricName lastSeries, ap_Labels = dr_Metric lastSeries, ap_Timestamp = now, ap_Value = 0,
      ap_Severity = nt_Severity nt, ap_Triggered = True, ap_Query = ''nodata check for '' @ qe_fmt_labels Q (dr_Metric lastSeries),
      ap_Values = ''nodata since '' @ qe_fmt_time Q now, ap_ValuesUnit = [], ap_JudgeType = 0, ap_RecoverExp = [],
      ap_TriggerType = TriggerTypeNodata\<rparr>"

text \<open>The loop over the series of earlier evaluations: the remembered series, without those that are resolved, and the points.\<close>

definition nodata_entry ::
  "query_env \<Rightarrow> NodataTrigger \<Rightarrow> int \<Rightarrow> series_store \<Rightarrow> uint64 \<Rightarrow> DataResp \<Rightarrow> series_store \<times> AnomalyPoint list \<Rightarrow> series_store \<times> AnomalyPoint list" where
  "nodata_entry Q nt now seriesStore h lastSeries acc =
     (let check = (if mget seriesStore h = None then (fst acc, snd acc @ [nodata_point Q nt now lastSeries]) else acc) in
      if nt_ResolveAfterEnable nt
      then (case dr_Last lastSeries of
              None \<Rightarrow> acc
            | Some (lastTs, v) \<Rightarrow> if now - trunc lastTs > nt_ResolveAfter nt then (mdel h (fst acc), snd acc) else check)
      else check)"

fun nodata_loop ::
  "query_env \<Rightarrow> NodataTrigger \<Rightarrow> int \<Rightarrow> series_store \<Rightarrow> series_store \<Rightarrow> series_store \<times> AnomalyPoint list \<Rightarrow> series_store \<times> AnomalyPoint list" where
  "nodata_loop Q nt now seriesStore [] acc = acc"
| "nodata_loop Q nt now seriesStore ((h, lastSeries) # rest) acc =
     nodata_loop Q nt now seriesStore rest (nodata_entry Q nt now seriesStore h lastSeries acc)"

definition remember :: "query_env \<Rightarrow> series_store \<Rightarrow> series_store \<Rightarrow> series_store" where
  "remember Q seriesStore remembered = fold (\<lambda>(h, s) m. mput h s m) (qe_ordStore Q seriesStore) remembered"

definition nodata_step :: "query_env \<Rightarrow> NodataTrigger \<Rightarrow> int \<Rightarrow> series_store \<Rightarrow> series_store \<Rightarrow> AnomalyPoint list \<times> series_store" where
  "nodata_step Q nt now seriesStore remembered =
     (let (remembered', points) = nodata_loop Q nt now seriesStore (qe_ordStore Q remembered) (remembered, [])
      in (points, remember Q seriesStore remembered'))"

section \<open>GetAnomalyPoint\<close>

text \<open>The result, the flag \<^verbatim>\<open>Inhibit\<close> and the remembered series (\<^verbatim>\<open>LastSeriesStore\<close>) of the worker. The templates are rendered into the
  decoded queries.\<close>

definition GetAnomalyPoint ::
  "query_env \<Rightarrow> (string \<Rightarrow> string + rule_query) \<Rightarrow> AlertRule \<Rightarrow> int \<Rightarrow> int \<Rightarrow> bool \<times> series_store \<Rightarrow>
   (string + AnomalyPoint list \<times> AnomalyPoint list) \<times> bool \<times> series_store" where
  "GetAnomalyPoint Q decode rule dsId now st =
     (let ruleConfig = TrimSpace (ar_RuleConfig rule) in
      if ruleConfig = [] then (Inl (''rule_eval:'' @ Itoa (ar_Id rule) @ '' ruleConfig is blank''), st)
      else case decode ruleConfig of
        Inl err \<Rightarrow> (Inl (''rule_eval:'' @ Itoa (ar_Id rule) @ '' promql parse error:'' @ err), st)
      | Inr ru \<Rightarrow>
          (let inhibit = ru_Inhibit ru;
               remembered = snd st;
               queries = map (qe_template Q (ar_Cate rule)) (ru_Queries ru) in
           if length queries = 0 then (Inr ([], []), inhibit, remembered)
           else case query_loop Q rule dsId queries [] [] of
             Inl err \<Rightarrow> (Inl err, inhibit, remembered)
           | Inr (seriesStore, indexes) \<Rightarrow>
               (let unitMap = unit_loop Q queries [];
                    (points, recoverPoints) =
                      (if ru_ExpTriggerDisable ru then ([], []) else trigger_loop Q queries unitMap seriesStore indexes (ru_Triggers ru) ([], []))
                in if nt_Enable (ru_NodataTrigger ru)
                   then let (nodata, remembered') = nodata_step Q (ru_NodataTrigger ru) now seriesStore remembered
                        in (Inr (points @ nodata, recoverPoints), inhibit, remembered')
                   else (Inr (points, recoverPoints), inhibit, remembered))))"

section \<open>Which series alert for want of data\<close>

definition nodata_run :: "query_env \<Rightarrow> NodataTrigger \<Rightarrow> (int \<times> series_store) list \<Rightarrow> series_store" where
  "nodata_run Q nt evals = fold (\<lambda>(now, S) r. snd (nodata_step Q nt now S r)) evals []"

text \<open>What the evaluations so far saw last of a series.\<close>

definition latest :: "(int \<times> series_store) list \<Rightarrow> uint64 \<Rightarrow> DataResp option" where
  "latest evals h = fold (\<lambda>(now, S) acc. case mget S h of None \<Rightarrow> acc | Some s \<Rightarrow> Some s) evals None"

definition alerts :: "NodataTrigger \<Rightarrow> int \<Rightarrow> DataResp \<Rightarrow> bool" where
  "alerts nt now s \<longleftrightarrow> (nt_ResolveAfterEnable nt \<longrightarrow> (\<exists>t v. dr_Last s = Some (t, v) \<and> now - trunc t \<le> nt_ResolveAfter nt))"

definition resolved :: "NodataTrigger \<Rightarrow> int \<Rightarrow> DataResp \<Rightarrow> bool" where
  "resolved nt now s \<longleftrightarrow> nt_ResolveAfterEnable nt \<and> (\<exists>t v. dr_Last s = Some (t, v) \<and> now - trunc t > nt_ResolveAfter nt)"

lemma resolved_mono: "resolved nt now s \<Longrightarrow> now \<le> later \<Longrightarrow> resolved nt later s"
  by (auto simp: resolved_def)

lemma resolved_silent: "resolved nt now s \<Longrightarrow> \<not> alerts nt now s"
  by (auto simp: resolved_def alerts_def)

lemma nodata_loop_points:
  "snd (nodata_loop Q nt now S xs (r, ps)) =
     ps @ map (\<lambda>(h, s). nodata_point Q nt now s) (filter (\<lambda>(h, s). mget S h = None \<and> alerts nt now s) xs)"
proof (induction xs arbitrary: r ps)
  case (Cons x xs)
  obtain h s where x: "x = (h, s)" by fastforce
  show ?case
  proof (cases "nt_ResolveAfterEnable nt")
    case False
    then show ?thesis using Cons by (simp add: x alerts_def nodata_entry_def Let_def)
  next
    case True
    show ?thesis
    proof (cases "dr_Last s")
      case None
      then show ?thesis using Cons True by (simp add: x alerts_def nodata_entry_def)
    next
      case (Some tv)
      obtain t v where "tv = (t, v)" by fastforce
      then show ?thesis using Cons True Some by (simp add: x alerts_def nodata_entry_def Let_def)
    qed
  qed
qed simp

lemma nodata_loop_store:
  "mwf r \<Longrightarrow> mwf (fst (nodata_loop Q nt now S xs (r, ps)))
     \<and> (\<forall>h. mget (fst (nodata_loop Q nt now S xs (r, ps))) h = (if \<exists>s. (h, s) \<in> set xs \<and> resolved nt now s then None else mget r h))"
proof (induction xs arbitrary: r ps)
  case (Cons x xs)
  obtain h s where x: "x = (h, s)" by fastforce
  show ?case
  proof (cases "resolved nt now s")
    case True
    then have step: "nodata_loop Q nt now S (x # xs) (r, ps) = nodata_loop Q nt now S xs (mdel h r, ps)"
      by (auto simp: x resolved_def nodata_entry_def Let_def)
    show ?thesis using Cons.IH [of "mdel h r" ps] Cons.prems True unfolding step by (auto simp: x)
  next
    case False
    have "\<exists>ps'. nodata_entry Q nt now S h s (r, ps) = (r, ps')"
      using False by (cases "dr_Last s") (auto simp: nodata_entry_def resolved_def Let_def)
    then obtain ps' where step: "nodata_loop Q nt now S (x # xs) (r, ps) = nodata_loop Q nt now S xs (r, ps')" by (auto simp: x)
    show ?thesis using Cons.IH [of r ps'] Cons.prems False unfolding step by (auto simp: x)
  qed
qed simp

lemma fold_mput:
  "mwf r \<Longrightarrow> distinct (map fst xs) \<Longrightarrow> mwf (fold (\<lambda>(h, s) m. mput h s m) xs r)
     \<and> (\<forall>h. mget (fold (\<lambda>(h, s) m. mput h s m) xs r) h = (case mget xs h of None \<Rightarrow> mget r h | Some s \<Rightarrow> Some s))"
proof (induction xs arbitrary: r)
  case (Cons x xs)
  obtain h s where x: "x = (h, s)" by fastforce
  have "mget xs h = None" using Cons.prems(2) by (simp add: x map_of_eq_None_iff)
  then show ?case using Cons.IH [of "mput h s r"] Cons.prems by (auto simp: x split: option.split)
qed simp

lemma nodata_step_spec:
  assumes "range_order (qe_ordStore Q)" "mwf S" "mwf r"
  shows "set (fst (nodata_step Q nt now S r)) = {nodata_point Q nt now s | h s. mget r h = Some s \<and> mget S h = None \<and> alerts nt now s}"
    and "length (fst (nodata_step Q nt now S r)) = card {h. \<exists>s. mget r h = Some s \<and> mget S h = None \<and> alerts nt now s}"
    and "mwf (snd (nodata_step Q nt now S r))"
    and "mget (snd (nodata_step Q nt now S r)) h =
           (case mget S h of Some s \<Rightarrow> Some s | None \<Rightarrow> (case mget r h of None \<Rightarrow> None | Some s \<Rightarrow> if resolved nt now s then None else Some s))"
proof -
  let ?xs = "qe_ordStore Q r" and ?ys = "qe_ordStore Q S"
  let ?P = "\<lambda>(h, s). mget S h = None \<and> alerts nt now s"
  have perm: "mset ?xs = mset r" "mset ?ys = mset S" using assms(1) by (simp_all add: range_order_def)
  then have mem: "(h, s) \<in> set ?xs \<longleftrightarrow> mget r h = Some s" for h s using assms(3) mset_eq_setD [OF perm(1)] by (simp add: mget_iff_mem)
  have step: "nodata_step Q nt now S r = (snd (nodata_loop Q nt now S ?xs (r, [])), remember Q S (fst (nodata_loop Q nt now S ?xs (r, []))))"
    by (simp add: nodata_step_def Let_def split_beta)
  have pts: "fst (nodata_step Q nt now S r) = map (\<lambda>(h, s). nodata_point Q nt now s) (filter ?P ?xs)"
    unfolding step fst_conv nodata_loop_points by simp
  show "set (fst (nodata_step Q nt now S r)) = {nodata_point Q nt now s | h s. mget r h = Some s \<and> mget S h = None \<and> alerts nt now s}"
    unfolding pts using mem by (auto simp: image_iff)
  have "distinct (map fst ?xs)" using assms(3) mwf_perm [OF perm(1)] by (simp add: mwf_def)
  then have "distinct (map fst (filter ?P ?xs))" by (rule distinct_map_filter)
  from distinct_card [OF this] have "length (filter ?P ?xs) = card (fst ` set (filter ?P ?xs))" by simp
  moreover have "fst ` set (filter ?P ?xs) = {h. \<exists>s. mget r h = Some s \<and> mget S h = None \<and> alerts nt now s}"
    using mem by (auto simp: image_iff)
  ultimately show "length (fst (nodata_step Q nt now S r)) = card {h. \<exists>s. mget r h = Some s \<and> mget S h = None \<and> alerts nt now s}"
    unfolding pts by simp
  have dist: "distinct (map fst ?ys)" using assms(2) mwf_perm [OF perm(2)] by (simp add: mwf_def)
  note loop = nodata_loop_store [OF assms(3), of Q nt now S ?xs "[]"]
  note rem = fold_mput [OF loop [THEN conjunct1] dist]
  have same: "mget ?ys h = mget S h" for h using mget_perm [OF perm(2) assms(2)] by simp
  show "mwf (snd (nodata_step Q nt now S r))" unfolding step snd_conv remember_def using rem by blast
  show "mget (snd (nodata_step Q nt now S r)) h =
      (case mget S h of Some s \<Rightarrow> Some s | None \<Rightarrow> (case mget r h of None \<Rightarrow> None | Some s \<Rightarrow> if resolved nt now s then None else Some s))"
    unfolding step snd_conv remember_def rem [THEN conjunct2, rule_format] loop [THEN conjunct2, rule_format] same
    by (auto simp: mem split: option.split)
qed

lemma latest_snoc: "latest (evals @ [(now, S)]) h = (case mget S h of None \<Rightarrow> latest evals h | Some s \<Rightarrow> Some s)"
  by (cases "mget S h") (simp_all add: latest_def)

lemma nodata_run_inv:
  assumes "range_order (qe_ordStore Q)" "\<forall>(t, S) \<in> set evals. mwf S"
  shows "mwf (nodata_run Q nt evals) \<and> (\<forall>h. mget (nodata_run Q nt evals) h = latest evals h
      \<or> mget (nodata_run Q nt evals) h = None \<and> (\<exists>s t. latest evals h = Some s \<and> t \<in> fst ` set evals \<and> resolved nt t s))"
  using assms(2)
proof (induction evals rule: rev_induct)
  case Nil
  show ?case by (simp add: nodata_run_def latest_def)
next
  case (snoc x evals)
  obtain now S where x: "x = (now, S)" by fastforce
  let ?r = "nodata_run Q nt evals"
  have S: "mwf S" and inv: "mwf ?r" "mget ?r h = latest evals h
      \<or> mget ?r h = None \<and> (\<exists>s t. latest evals h = Some s \<and> t \<in> fst ` set evals \<and> resolved nt t s)" for h
    using snoc by (auto simp: x)
  have run: "nodata_run Q nt (evals @ [x]) = snd (nodata_step Q nt now S ?r)" by (simp add: nodata_run_def x)
  note step = nodata_step_spec [OF assms(1) S inv(1), of nt now]
  have "mget (snd (nodata_step Q nt now S ?r)) h = latest (evals @ [x]) h
      \<or> mget (snd (nodata_step Q nt now S ?r)) h = None
        \<and> (\<exists>s t. latest (evals @ [x]) h = Some s \<and> t \<in> fst ` set (evals @ [x]) \<and> resolved nt t s)" for h
    unfolding step(4) x latest_snoc using inv(2) [of h] by (cases "mget S h"; cases "latest evals h") (auto split: option.splits)
  with step(3) show ?case unfolding run by blast
qed

text \<open>(C11) Alerts for missing data, over any history of evaluations that saw the given series at the given times: an evaluation reports
  exactly the series that an earlier evaluation saw and this one does not, each once, except those that are resolved, whose
  last value is older than the time to resolve, or has no time, where the trigger sets such a time.\<close>

theorem nodata_alerts_exact:
  assumes "range_order (qe_ordStore Q)" "\<forall>(t, S) \<in> set evals. mwf S" "mwf S" "\<forall>(t, S) \<in> set evals. t \<le> now"
  shows "let points = fst (nodata_step Q nt now S (nodata_run Q nt evals));
             missing = {h. \<exists>s. latest evals h = Some s \<and> mget S h = None \<and> alerts nt now s}
         in set points = {nodata_point Q nt now (the (latest evals h)) | h. h \<in> missing} \<and> length points = card missing"
proof -
  let ?r = "nodata_run Q nt evals"
  note inv = nodata_run_inv [OF assms(1,2), of nt]
  note step = nodata_step_spec [OF assms(1,3) inv [THEN conjunct1], of nt now]
  have same: "mget ?r h = Some s \<and> alerts nt now s \<longleftrightarrow> latest evals h = Some s \<and> alerts nt now s" for h s
  proof (cases "mget ?r h = latest evals h")
    case False
    then obtain s' t where s': "mget ?r h = None" "latest evals h = Some s'" "t \<in> fst ` set evals" "resolved nt t s'"
      using inv by blast
    then have "t \<le> now" using assms(4) by auto
    then have "\<not> alerts nt now s'" using resolved_silent [OF resolved_mono [OF s'(4)]] by blast
    then show ?thesis using s'(1,2) by auto
  qed simp
  have eq: "mget ?r h = Some s \<and> mget S h = None \<and> alerts nt now s \<longleftrightarrow> latest evals h = Some s \<and> mget S h = None \<and> alerts nt now s" for h s
    using same [of h s] by blast
  have "{nodata_point Q nt now s | h s. latest evals h = Some s \<and> mget S h = None \<and> alerts nt now s}
      = {nodata_point Q nt now (the (latest evals h)) | h. \<exists>s. latest evals h = Some s \<and> mget S h = None \<and> alerts nt now s}"
    by (intro set_eqI iffI; elim CollectE exE conjE; intro CollectI exI conjI; assumption?) simp_all
  then show ?thesis unfolding Let_def step(1,2) mem_Collect_eq eq by simp
qed

section \<open>Examples\<close>

definition small_query_env :: query_env where
  "small_query_env = \<lparr>qe_join = length_env, qe_Cate = (\<lambda>c d. None), qe_template = (\<lambda>c q. q), qe_expr = (\<lambda>s m. Inl ''expr''),
     qe_ref_unit = (\<lambda>q. ([], [])), qe_ValueFormatter = (\<lambda>u d v. \<lparr>fv_Value = v, fv_Unit = u, fv_Text = [], fv_Stat = v\<rparr>),
     qe_fmt_3f = (\<lambda>r. Itoa \<lfloor>r\<rfloor>), qe_fmt_time = Itoa, qe_fmt_query = (\<lambda>q t. []), qe_fmt_labels = (\<lambda>m. []),
     qe_ordMetric = (\<lambda>m. m), qe_ordVars = (\<lambda>m. m), qe_ordStore = rev\<rparr>"

definition resolve_after :: "int \<Rightarrow> NodataTrigger" where
  "resolve_after d = \<lparr>nt_Enable = True, nt_Severity = 2, nt_ResolveAfterEnable = True, nt_ResolveAfter = d\<rparr>"

theorem nodata_alerts_exact_witness:
  "length (fst (nodata_step small_query_env (resolve_after 100) 60 [(8, one_series ''A'' ''y'')]
     (nodata_run small_query_env (resolve_after 100) [(15, [(7, one_series ''A'' ''x'')]), (30, [(8, one_series ''A'' ''y'')])]))) = 1"
proof -
  let ?evals = "[(15, [(7, one_series ''A'' ''x'')]), (30, [(8, one_series ''A'' ''y'')])]"
  have pre: "range_order (qe_ordStore small_query_env)" "\<forall>(t, S) \<in> set ?evals. mwf S" "mwf [(8, one_series ''A'' ''y'')]"
      "\<forall>(t, S) \<in> set ?evals. t \<le> (60 :: int)"
    by (simp_all add: small_query_env_def mwf_def)
  have "alerts (resolve_after 100) 60 (one_series ''A'' ''x'')"
    by (simp add: alerts_def resolve_after_def one_series_def dr_Last_def trunc_def)
  then have "{h. \<exists>s. latest ?evals h = Some s \<and> mget [(8, one_series ''A'' ''y'')] h = None \<and> alerts (resolve_after 100) 60 s} = {7}"
    by (auto simp: latest_def split: if_splits)
  then show ?thesis
    using nodata_alerts_exact [OF pre, of "resolve_after 100"] by (simp add: Let_def)
qed

end
