(* ===== verification/Host_Rule.thy ===== *)
theory Host_Rule
  imports Event_Building
begin

text \<open>
  Rules on hosts: \<^verbatim>\<open>GetHostAnomalyPoint\<close> of \<^verbatim>\<open>alert/eval/eval.go\<close>, and what it reads of the cache of targets
  (\<^verbatim>\<open>memsto/target_cache.go\<close>) and of Redis (\<^verbatim>\<open>storage/redis.go\<close>), where agents leave the time of their last report, in batches of
  hundred keys.

  Redis is a function from keys to values, \<open>None\<close> for a missing key or a failed read; no Redis at all is \<open>None\<close>. The decoders of
  its values and the orders of the maps are arguments, in the record \<open>host_env\<close>. The percentage of missing hosts is computed in
  \<^verbatim>\<open>float64\<close>: each operation rounds its exact result to 53 significant bits, to even on a tie; the numbers involved are far
  from the ends of the range.
\<close>

section \<open>Targets\<close>

record host_target = Target +
  ht_TagsMap :: tags
  ht_UpdateAt :: int
  ht_Offset :: int
  ht_CpuNum :: int

record HostMeta =
  hm_Hostname :: string
  hm_CpuNum :: int
  hm_Offset :: int

type_synonym host_cache = "(string, host_target) gomap"

definition WrapIdent :: "string \<Rightarrow> string" where
  "WrapIdent ident = ''n9e_meta_'' @ ident"

definition WrapIdentUpdateTime :: "string \<Rightarrow> string" where
  "WrapIdentUpdateTime ident = ''n9e_meta_update_time_'' @ ident"

definition tc_Gets :: "host_cache \<Rightarrow> string list \<Rightarrow> host_target list" where
  "tc_Gets targets idents = List.map_filter (mget targets) idents"

fun GetOffsetHost :: "host_cache \<Rightarrow> host_target list \<Rightarrow> int \<Rightarrow> int \<Rightarrow> (string, int) gomap \<Rightarrow> (string, int) gomap" where
  "GetOffsetHost targets [] now offset hostOffset = hostOffset"
| "GetOffsetHost targets (t # ts) now offset hostOffset =
     GetOffsetHost targets ts now offset
       (case mget targets (tg_Ident t) of
          None \<Rightarrow> hostOffset
        | Some target \<Rightarrow>
            if ht_CpuNum target \<le> 0 \<or> now - ht_UpdateAt target > 120 then hostOffset
            else if \<bar>ht_Offset target\<bar> > offset then mput (tg_Ident target) (ht_Offset target) hostOffset
            else hostOffset)"

definition MGet :: "(string \<Rightarrow> string option) \<Rightarrow> string list \<Rightarrow> string list" where
  "MGet r keys = List.map_filter r keys"

record host_env =
  hv_redis :: "(string \<Rightarrow> string option) option"
  hv_time_of :: "string \<Rightarrow> (string \<times> int) option"
  hv_meta_of :: "string \<Rightarrow> HostMeta option"
  hv_TargetCache :: host_cache
  hv_TargetsOfAlertRule :: "(string, (int, string list) gomap) gomap"
  hv_IsCenter :: bool
  hv_EngineName :: string
  hv_ordTimes :: "(string, int) gomap \<Rightarrow> (string, int) gomap"
  hv_ordMetas :: "(string, HostMeta) gomap \<Rightarrow> (string, HostMeta) gomap"

section \<open>Reading Redis in batches\<close>

fun put_times :: "host_env \<Rightarrow> string list \<Rightarrow> (string, int) gomap \<Rightarrow> (string, int) gomap" where
  "put_times V [] metaMap = metaMap"
| "put_times V (val # vals) metaMap =
     (case hv_time_of V val of
        None \<Rightarrow> put_times V vals metaMap
      | Some (ident, updateTime) \<Rightarrow> put_times V vals (mput ident updateTime metaMap))"

fun time_batches :: "host_env \<Rightarrow> (string \<Rightarrow> string option) \<Rightarrow> string list \<Rightarrow> string list \<Rightarrow> nat \<Rightarrow> (string, int) gomap \<Rightarrow> (string, int) gomap" where
  "time_batches V r [] keys num metaMap = put_times V (MGet r keys) metaMap"
| "time_batches V r (t # ts) keys num metaMap =
     (let keys' = keys @ [WrapIdentUpdateTime t]; num' = num + 1 in
      if num' = 100 then time_batches V r ts [] 0 (put_times V (MGet r keys') metaMap)
      else time_batches V r ts keys' num' metaMap)"

fun cached_times :: "host_cache \<Rightarrow> string list \<Rightarrow> (string, int) gomap \<Rightarrow> (string, int) gomap" where
  "cached_times targets [] metaMap = metaMap"
| "cached_times targets (ident # idents) metaMap =
     cached_times targets idents
       (if mget metaMap ident = None
        then (case mget targets ident of None \<Rightarrow> metaMap | Some target \<Rightarrow> mput ident (ht_UpdateAt target) metaMap)
        else metaMap)"

definition GetHostUpdateTime :: "host_env \<Rightarrow> string list \<Rightarrow> (string, int) gomap" where
  "GetHostUpdateTime V targets =
     (case hv_redis V of
        None \<Rightarrow> []
      | Some r \<Rightarrow> cached_times (hv_TargetCache V) targets (time_batches V r targets [] 0 []))"

fun put_metas :: "host_env \<Rightarrow> string list \<Rightarrow> (string, HostMeta) gomap \<Rightarrow> (string, HostMeta) gomap" where
  "put_metas V [] metaMap = metaMap"
| "put_metas V (val # vals) metaMap =
     (case hv_meta_of V val of
        None \<Rightarrow> put_metas V vals metaMap
      | Some meta \<Rightarrow> put_metas V vals (mput (hm_Hostname meta) meta metaMap))"

fun meta_batches :: "host_env \<Rightarrow> (string \<Rightarrow> string option) \<Rightarrow> host_target list \<Rightarrow> string list \<Rightarrow> nat \<Rightarrow> (string, HostMeta) gomap \<Rightarrow> (string, HostMeta) gomap" where
  "meta_batches V r [] keys num metaMap = put_metas V (MGet r keys) metaMap"
| "meta_batches V r (t # ts) keys num metaMap =
     (let keys' = keys @ [WrapIdent (tg_Ident t)]; num' = num + 1 in
      if num' = 100 then meta_batches V r ts [] 0 (put_metas V (MGet r keys') metaMap)
      else meta_batches V r ts keys' num' metaMap)"

definition GetHostMetas :: "host_env \<Rightarrow> host_target list \<Rightarrow> (string, HostMeta) gomap" where
  "GetHostMetas V targets = (case hv_redis V of None \<Rightarrow> [] | Some r \<Rightarrow> meta_batches V r targets [] 0 [])"

section \<open>Rounding\<close>

fun scale :: "nat \<Rightarrow> rat \<Rightarrow> int \<Rightarrow> int" where
  "scale 0 x e = e"
| "scale (Suc n) x e =
     (if x < 2 ^ 52 then scale n (2 * x) (e - 1) else if x \<ge> 2 ^ 53 then scale n (x / 2) (e + 1) else e)"

definition half_even :: "rat \<Rightarrow> int" where
  "half_even x =
     (let f = \<lfloor>x\<rfloor> in if x - of_int f < 1 / 2 then f else if x - of_int f > 1 / 2 then f + 1 else if even f then f else f + 1)"

text \<open>The \<^verbatim>\<open>float64\<close> next to a number that is zero or not too far from one: 200 doublings or halvings reach the 53 bits.\<close>

definition fl :: "rat \<Rightarrow> rat" where
  "fl x =
     (if x = 0 then 0
      else let e = scale 200 x 0 in
        if e \<ge> 0 then of_int (half_even (x / 2 ^ nat e)) * 2 ^ nat e else of_int (half_even (x * 2 ^ nat (- e))) / 2 ^ nat (- e))"

definition miss_pct :: "nat \<Rightarrow> nat \<Rightarrow> rat" where
  "miss_pct miss n = fl (fl (of_nat miss / of_nat n) * 100)"

section \<open>GetHostAnomalyPoint\<close>

record HostTrigger =
  ho_Type :: string
  ho_Duration :: int
  ho_Percent :: int
  ho_Severity :: int

record HostRuleConfig =
  hc_Triggers :: "HostTrigger list"
  hc_Inhibit :: bool

definition NewAnomalyPoint :: "string \<Rightarrow> tags \<Rightarrow> int \<Rightarrow> rat \<Rightarrow> int \<Rightarrow> AnomalyPoint" where
  "NewAnomalyPoint key labels ts v severity =
     \<lparr>ap_Key = key, ap_Labels = mput ''__name__'' key labels, ap_Timestamp = ts, ap_Value = v, ap_Severity = severity,
      ap_Triggered = False, ap_Query = [], ap_Values = [], ap_ValuesUnit = [], ap_JudgeType = 0, ap_RecoverExp = [], ap_TriggerType = []\<rparr>"

definition targets_of :: "host_env \<Rightarrow> string \<Rightarrow> int \<Rightarrow> string list option" where
  "targets_of V engineName rid = (case mget (hv_TargetsOfAlertRule V) engineName of None \<Rightarrow> None | Some m \<Rightarrow> mget m rid)"

definition idents_of :: "string list option \<Rightarrow> string list" where
  "idents_of found = (case found of None \<Rightarrow> [] | Some idents \<Rightarrow> idents)"

definition miss_targets :: "host_env \<Rightarrow> string list \<Rightarrow> int \<Rightarrow> string list" where
  "miss_targets V idents t = map fst (filter (\<lambda>(ident, updateTime). updateTime < t) (hv_ordTimes V (GetHostUpdateTime V idents)))"

definition target_miss :: "host_env \<Rightarrow> int \<Rightarrow> int \<Rightarrow> HostTrigger \<Rightarrow> AnomalyPoint list" where
  "target_miss V rid now trigger =
     (let idents = (if hv_IsCenter V then idents_of (targets_of V [] rid) else []) @ idents_of (targets_of V (hv_EngineName V) rid) in
      if length idents = 0 then []
      else map (\<lambda>target. NewAnomalyPoint (ho_Type trigger) (mput ''ident'' (tg_Ident target) (ht_TagsMap target)) now
                  (of_int (now - ht_UpdateAt target)) (ho_Severity trigger))
             (tc_Gets (hv_TargetCache V) (miss_targets V idents (now - ho_Duration trigger))))"

definition offset_of :: "host_env \<Rightarrow> host_target list \<Rightarrow> int \<Rightarrow> int \<Rightarrow> string \<times> HostMeta \<Rightarrow> bool" where
  "offset_of V targets now duration im \<longleftrightarrow>
     hm_CpuNum (snd im) > 0
     \<and> (case find (\<lambda>t. tg_Ident t = fst im) (rev targets) of None \<Rightarrow> True | Some target \<Rightarrow> \<not> now - ht_UpdateAt target > 120)
     \<and> \<bar>hm_Offset (snd im)\<bar> > duration"

definition host_offset :: "host_env \<Rightarrow> int \<Rightarrow> int \<Rightarrow> HostTrigger \<Rightarrow> AnomalyPoint list" where
  "host_offset V rid now trigger =
     (case targets_of V (hv_EngineName V) rid of
        None \<Rightarrow> []
      | Some idents \<Rightarrow>
          (let targets = tc_Gets (hv_TargetCache V) idents;
               offsetIdents = filter (offset_of V targets now (ho_Duration trigger)) (hv_ordMetas V (GetHostMetas V targets))
           in map (\<lambda>(host, meta). NewAnomalyPoint (ho_Type trigger)
                     (mput ''ident'' host (case mget (hv_TargetCache V) host of None \<Rightarrow> [] | Some target \<Rightarrow> ht_TagsMap target))
                     now (of_int (hm_Offset meta)) (ho_Severity trigger)) offsetIdents))"

text \<open>With no targets the percentage is not a number, and no comparison with it holds.\<close>

definition pct_target_miss :: "host_env \<Rightarrow> int \<Rightarrow> int \<Rightarrow> HostTrigger \<Rightarrow> AnomalyPoint list" where
  "pct_target_miss V rid now trigger =
     (case targets_of V (hv_EngineName V) rid of
        None \<Rightarrow> []
      | Some idents \<Rightarrow>
          (let missTargets = miss_targets V idents (now - ho_Duration trigger);
               pct = miss_pct (length missTargets) (length idents)
           in if length idents \<noteq> 0 \<and> pct \<ge> of_int (ho_Percent trigger)
              then [NewAnomalyPoint (ho_Type trigger) [] now pct (ho_Severity trigger)] else []))"

definition host_trigger :: "host_env \<Rightarrow> int \<Rightarrow> int \<Rightarrow> HostTrigger \<Rightarrow> AnomalyPoint list" where
  "host_trigger V rid now trigger =
     (if ho_Type trigger = ''target_miss'' then target_miss V rid now trigger
      else if ho_Type trigger = ''offset'' then host_offset V rid now trigger
      else if ho_Type trigger = ''pct_target_miss'' then pct_target_miss V rid now trigger
      else [])"

text \<open>The decoded configuration is an argument: an error, or the rule, which is nil for the text \<^verbatim>\<open>null\<close>. The result comes with the flag
  \<^verbatim>\<open>Inhibit\<close> of the worker.\<close>

definition GetHostAnomalyPoint ::
  "host_env \<Rightarrow> string + HostRuleConfig option \<Rightarrow> int \<Rightarrow> int \<Rightarrow> bool \<Rightarrow> (string + AnomalyPoint list) \<times> bool" where
  "GetHostAnomalyPoint V decoded rid now inhibit =
     (case decoded of
        Inl err \<Rightarrow> (Inl err, inhibit)
      | Inr None \<Rightarrow> (Inl ''rule is nil'', inhibit)
      | Inr (Some config) \<Rightarrow> (Inr (concat (map (host_trigger V rid now) (hc_Triggers config))), hc_Inhibit config))"

section \<open>The last report of a host\<close>

lemma put_times_append: "put_times V (a @ b) m = put_times V b (put_times V a m)"
  by (induction V a m rule: put_times.induct) (auto split: option.split)

lemma MGet_append: "MGet r (a @ b) = MGet r a @ MGet r b"
  by (simp add: MGet_def map_filter_def)

text \<open>The batches do not show.\<close>

lemma time_batches_flat: "time_batches V r ts keys num m = put_times V (MGet r (keys @ map WrapIdentUpdateTime ts)) m"
proof (induction V r ts keys num m rule: time_batches.induct)
  case (2 V r t ts keys num m)
  show ?case
  proof (cases "num + 1 = 100")
    case True
    then have "time_batches V r (t # ts) keys num m = time_batches V r ts [] 0 (put_times V (MGet r (keys @ [WrapIdentUpdateTime t])) m)" by simp
    also have "\<dots> = put_times V (MGet r ([] @ map WrapIdentUpdateTime ts)) (put_times V (MGet r (keys @ [WrapIdentUpdateTime t])) m)"
      using True by (intro 2(1)) simp_all
    also have "\<dots> = put_times V (MGet r (keys @ map WrapIdentUpdateTime (t # ts))) m"
      by (simp add: put_times_append [symmetric] MGet_append [symmetric])
    finally show ?thesis .
  next
    case False
    then have "time_batches V r (t # ts) keys num m = time_batches V r ts (keys @ [WrapIdentUpdateTime t]) (num + 1) m" by simp
    also have "\<dots> = put_times V (MGet r ((keys @ [WrapIdentUpdateTime t]) @ map WrapIdentUpdateTime ts)) m"
      using False by (intro 2(2)) simp_all
    finally show ?thesis by simp
  qed
qed simp

text \<open>What Redis has of a host, and the contract of the agents: the value under the key of a host carries its name.\<close>

definition redis_time :: "host_env \<Rightarrow> (string \<Rightarrow> string option) \<Rightarrow> string \<Rightarrow> int option" where
  "redis_time V r ident = (case r (WrapIdentUpdateTime ident) of None \<Rightarrow> None | Some v \<Rightarrow> map_option snd (hv_time_of V v))"

definition redis_ok :: "host_env \<Rightarrow> (string \<Rightarrow> string option) \<Rightarrow> bool" where
  "redis_ok V r \<longleftrightarrow> (\<forall>ident v x. r (WrapIdentUpdateTime ident) = Some v \<longrightarrow> hv_time_of V v = Some x \<longrightarrow> fst x = ident)"

definition last_report :: "host_env \<Rightarrow> (string \<Rightarrow> string option) \<Rightarrow> string \<Rightarrow> int option" where
  "last_report V r ident =
     (case redis_time V r ident of Some t \<Rightarrow> Some t | None \<Rightarrow> map_option ht_UpdateAt (mget (hv_TargetCache V) ident))"

lemma put_times_get:
  assumes "redis_ok V r"
  shows "mget (put_times V (MGet r (map WrapIdentUpdateTime ids)) m) i =
      (if i \<in> set ids \<and> redis_time V r i \<noteq> None then redis_time V r i else mget m i)"
proof (induction ids arbitrary: m)
  case Nil
  show ?case by (simp add: MGet_def map_filter_def)
next
  case (Cons j ids)
  show ?case
  proof (cases "r (WrapIdentUpdateTime j)")
    case None
    then have "MGet r (map WrapIdentUpdateTime (j # ids)) = MGet r (map WrapIdentUpdateTime ids)" by (simp add: MGet_def map_filter_def)
    then show ?thesis using Cons None by (auto simp: redis_time_def)
  next
    case (Some v)
    then have get: "MGet r (map WrapIdentUpdateTime (j # ids)) = v # MGet r (map WrapIdentUpdateTime ids)" by (simp add: MGet_def map_filter_def)
    show ?thesis
    proof (cases "hv_time_of V v")
      case None
      then show ?thesis unfolding get using Cons Some by (auto simp: redis_time_def)
    next
      case (Some x)
      have "fst x = j" using assms Some \<open>r (WrapIdentUpdateTime j) = Some v\<close> unfolding redis_ok_def by blast
      then obtain t where x: "x = (j, t)" by (cases x) simp
      have "redis_time V r j = Some t" by (simp add: redis_time_def \<open>r (WrapIdentUpdateTime j) = Some v\<close> Some x)
      then show ?thesis unfolding get using Cons [of "mput j t m"] by (simp add: Some x)
    qed
  qed
qed

lemma cached_times_get:
  "mget (cached_times targets ids m) i =
     (case mget m i of Some t \<Rightarrow> Some t | None \<Rightarrow> if i \<in> set ids then map_option ht_UpdateAt (mget targets i) else None)"
proof (induction targets ids m rule: cached_times.induct)
  case (2 targets j ids m)
  then show ?case by (cases "mget m j"; cases "mget targets j"; cases "i = j") (auto split: option.split)
qed (simp split: option.split)

lemma GetHostUpdateTime_get:
  assumes "hv_redis V = Some r" "redis_ok V r"
  shows "mget (GetHostUpdateTime V ids) i = (if i \<in> set ids then last_report V r i else None)"
  using assms(1) by (simp add: GetHostUpdateTime_def cached_times_get time_batches_flat put_times_get [OF assms(2)] last_report_def split: option.split)

lemma put_times_wf: "mwf m \<Longrightarrow> mwf (put_times V vals m)"
  by (induction V vals m rule: put_times.induct) (auto split: option.splits)

lemma cached_times_wf: "mwf m \<Longrightarrow> mwf (cached_times targets ids m)"
  by (induction targets ids m rule: cached_times.induct) (auto split: option.splits)

lemma GetHostUpdateTime_wf: "mwf (GetHostUpdateTime V ids)"
  by (simp add: GetHostUpdateTime_def cached_times_wf time_batches_flat put_times_wf split: option.split)

lemma miss_targets_spec:
  assumes "hv_redis V = Some r" "redis_ok V r" "range_order (hv_ordTimes V)"
  shows "set (miss_targets V ids t) = {i \<in> set ids. \<exists>u. last_report V r i = Some u \<and> u < t}" and "distinct (miss_targets V ids t)"
proof -
  let ?m = "GetHostUpdateTime V ids"
  have mem: "(i, u) \<in> set (hv_ordTimes V ?m) \<longleftrightarrow> i \<in> set ids \<and> last_report V r i = Some u" for i u
    using range_order_set [OF assms(3)] mget_iff_mem [OF GetHostUpdateTime_wf] GetHostUpdateTime_get [OF assms(1,2), of ids i] by (metis option.discI)
  then show "set (miss_targets V ids t) = {i \<in> set ids. \<exists>u. last_report V r i = Some u \<and> u < t}"
    by (force simp: miss_targets_def)
  have "distinct (map fst (hv_ordTimes V ?m))"
    using assms(3) GetHostUpdateTime_wf [of V ids] unfolding mwf_def range_order_def by (metis mset_map mset_eq_imp_distinct_iff)
  then show "distinct (miss_targets V ids t)" unfolding miss_targets_def by (rule distinct_map_filter)
qed

definition cache_ok :: "host_cache \<Rightarrow> bool" where
  "cache_ok targets \<longleftrightarrow> (\<forall>i t. mget targets i = Some t \<longrightarrow> tg_Ident t = i)"

definition rule_hosts :: "host_env \<Rightarrow> int \<Rightarrow> string set" where
  "rule_hosts V rid = set (idents_of (targets_of V (hv_EngineName V) rid)) \<union> (if hv_IsCenter V then set (idents_of (targets_of V [] rid)) else {})"

definition miss_point :: "HostTrigger \<Rightarrow> int \<Rightarrow> host_target \<Rightarrow> AnomalyPoint" where
  "miss_point trigger now target = NewAnomalyPoint (ho_Type trigger) (mput ''ident'' (tg_Ident target) (ht_TagsMap target)) now
     (of_int (now - ht_UpdateAt target)) (ho_Severity trigger)"

text \<open>(C12) Missing hosts are found: a trigger \<^verbatim>\<open>target_miss\<close> gives one point for each host of the rule (in the centre also for the hosts
  without an engine) that the cache knows and whose last report, in Redis or else in the cache, is older than the duration,
  and no other point. The batches in which Redis is read do not matter.\<close>

theorem missing_hosts_alert:
  assumes "hv_redis V = Some r" "redis_ok V r" "range_order (hv_ordTimes V)" "cache_ok (hv_TargetCache V)" "ho_Type trigger = ''target_miss''"
  shows "let missing = {i \<in> rule_hosts V rid. mget (hv_TargetCache V) i \<noteq> None \<and> (\<exists>u. last_report V r i = Some u \<and> u < now - ho_Duration trigger)}
         in set (host_trigger V rid now trigger) = {miss_point trigger now (the (mget (hv_TargetCache V) i)) | i. i \<in> missing}
            \<and> length (host_trigger V rid now trigger) = card missing"
proof -
  let ?ids = "(if hv_IsCenter V then idents_of (targets_of V [] rid) else []) @ idents_of (targets_of V (hv_EngineName V) rid)"
  let ?miss = "miss_targets V ?ids (now - ho_Duration trigger)"
  let ?c = "hv_TargetCache V"
  note miss = miss_targets_spec [OF assms(1-3), of ?ids "now - ho_Duration trigger"]
  have ids: "set ?ids = rule_hosts V rid" by (auto simp: rule_hosts_def)
  have "?ids = [] \<Longrightarrow> ?miss = []" using miss(1) by simp
  then have run: "host_trigger V rid now trigger = map (miss_point trigger now) (tc_Gets ?c ?miss)"
    using assms(5) by (auto simp: host_trigger_def target_miss_def Let_def miss_point_def tc_Gets_def map_filter_def)
  let ?known = "filter (\<lambda>i. mget ?c i \<noteq> None) ?miss"
  have gets: "tc_Gets ?c ?miss = map (\<lambda>i. the (mget ?c i)) ?known" by (simp add: tc_Gets_def map_filter_def comp_def)
  have known: "set ?known = {i \<in> rule_hosts V rid. mget ?c i \<noteq> None \<and> (\<exists>u. last_report V r i = Some u \<and> u < now - ho_Duration trigger)}"
    using miss(1) ids by auto
  have "length (host_trigger V rid now trigger) = card (set ?known)"
    unfolding run gets using distinct_card [OF distinct_filter [OF miss(2)]] by simp
  moreover have "set (host_trigger V rid now trigger) = {miss_point trigger now (the (mget ?c i)) | i. i \<in> set ?known}"
    unfolding run gets by auto
  ultimately show ?thesis unfolding Let_def known by simp
qed

definition silent_host :: host_target where
  "silent_host = \<lparr>tg_Ident = ''db01'', tg_Note = [], tg_GroupIds = [], tg_GroupNames = [], tg_EngineName = ''default'', ht_TagsMap = [],
     ht_UpdateAt = 900, ht_Offset = 0, ht_CpuNum = 4\<rparr>"

definition two_hosts :: host_env where
  "two_hosts = \<lparr>hv_redis = Some (\<lambda>k. if k = ''n9e_meta_update_time_web01'' then Some ''980'' else None),
     hv_time_of = (\<lambda>v. Some (''web01'', 980)), hv_meta_of = (\<lambda>v. None),
     hv_TargetCache = [(''db01'', silent_host), (''web01'', silent_host\<lparr>tg_Ident := ''web01''\<rparr>)],
     hv_TargetsOfAlertRule = [(''default'', [(7, [''db01'', ''web01''])])], hv_IsCenter = True, hv_EngineName = ''default'',
     hv_ordTimes = rev, hv_ordMetas = (\<lambda>m. m)\<rparr>"

theorem missing_hosts_alert_witness:
  "length (host_trigger two_hosts 7 1000 \<lparr>ho_Type = ''target_miss'', ho_Duration = 60, ho_Percent = 0, ho_Severity = 1\<rparr>) = 1"
proof -
  let ?r = "\<lambda>k. if k = ''n9e_meta_update_time_web01'' then Some ''980'' else None"
  let ?t = "\<lparr>ho_Type = ''target_miss'', ho_Duration = 60, ho_Percent = 0, ho_Severity = 1\<rparr>"
  have r: "hv_redis two_hosts = Some ?r" and ord: "range_order (hv_ordTimes two_hosts)" and ty: "ho_Type ?t = ''target_miss''"
    by (simp_all add: two_hosts_def)
  have redis: "redis_ok two_hosts ?r" unfolding redis_ok_def
  proof (intro allI impI)
    fix ident v x
    assume "?r (WrapIdentUpdateTime ident) = Some v" "hv_time_of two_hosts v = Some x"
    then have "WrapIdentUpdateTime ident = WrapIdentUpdateTime ''web01''" "fst x = ''web01''"
      by (simp_all add: two_hosts_def WrapIdentUpdateTime_def split: if_split_asm) auto
    then show "fst x = ident" by (simp add: WrapIdentUpdateTime_def)
  qed
  have cache: "cache_ok (hv_TargetCache two_hosts)" by (simp add: cache_ok_def two_hosts_def silent_host_def)
  have hosts: "rule_hosts two_hosts 7 = {''db01'', ''web01''}" by (simp add: rule_hosts_def two_hosts_def targets_of_def idents_of_def)
  have rep: "last_report two_hosts ?r ''db01'' = Some 900" "last_report two_hosts ?r ''web01'' = Some 980"
    by (simp_all add: last_report_def redis_time_def two_hosts_def WrapIdentUpdateTime_def silent_host_def)
  have known: "mget (hv_TargetCache two_hosts) ''db01'' \<noteq> None" by (simp add: two_hosts_def)
  have "{i \<in> rule_hosts two_hosts 7. mget (hv_TargetCache two_hosts) i \<noteq> None \<and> (\<exists>u. last_report two_hosts ?r i = Some u \<and> u < 1000 - ho_Duration ?t)} = {''db01''}"
    (is "?missing = _")
  proof (rule set_eqI)
    fix i
    have "i \<in> ?missing \<longleftrightarrow> (i = ''db01'' \<or> i = ''web01'') \<and> mget (hv_TargetCache two_hosts) i \<noteq> None
        \<and> (\<exists>u. last_report two_hosts ?r i = Some u \<and> u < 940)" unfolding hosts by simp
    then show "i \<in> ?missing \<longleftrightarrow> i \<in> {''db01''}" using rep known by (cases "i = ''db01''"; cases "i = ''web01''") simp_all
  qed
  then show ?thesis using missing_hosts_alert [OF r redis ord cache ty, of 7 1000] unfolding Let_def by simp
qed

text \<open>Two kinds of keys meet: the data of a host whose name starts with \<^verbatim>\<open>update_time_\<close> is under the key of the last report of another one.\<close>

lemma redis_keys_meet: "WrapIdent (''update_time_'' @ ident) = WrapIdentUpdateTime ident"
  by (simp add: WrapIdent_def WrapIdentUpdateTime_def)

lemma scale_doubles:
  assumes "0 < x" "2 ^ 52 \<le> 2 ^ k * x" "2 ^ k * x < 2 ^ 53"
  shows "scale (k + Suc n) x e = e - int k"
  using assms
proof (induction k arbitrary: x e)
  case (Suc k)
  have "2 ^ k * x < 2 ^ 52" using Suc.prems(3) by (simp add: mult.commute)
  moreover have "x \<le> 2 ^ k * x" using Suc.prems(1) by (simp add: one_le_power)
  ultimately have "x < 2 ^ 52" by linarith
  then have "scale (Suc k + Suc n) x e = scale (k + Suc n) (2 * x) (e - 1)" by simp
  also have "\<dots> = e - 1 - int k" using Suc.prems by (intro Suc.IH) (simp_all add: mult.assoc mult.left_commute)
  finally show ?case by simp
qed simp

lemma fl_rounded:
  assumes "0 < x" "2 ^ 52 \<le> 2 ^ k * x" "2 ^ k * x < 2 ^ 53" "0 < k" "k < 200" "f = \<lfloor>2 ^ k * x\<rfloor>" "2 ^ k * x - of_int f < 1 / 2"
  shows "fl x = of_int f / 2 ^ k"
proof -
  have "scale (k + Suc (199 - k)) x 0 = - int k" using scale_doubles [OF assms(1-3), of "199 - k" 0] by simp
  then have "scale 200 x 0 = - int k" using assms(5) by simp
  then show ?thesis using assms by (simp add: fl_def Let_def half_even_def mult.commute)
qed

text \<open>Rounding loses an alert: with 29 of 100 hosts missing, a threshold of 29 percent is not reached.\<close>

lemma rounding_loses_alert: "miss_pct 29 100 < 29"
proof -
  have one: "fl (29 / 100) = 5224175567749775 / 2 ^ 54"
    using fl_rounded [of "29 / 100" 54 5224175567749775] by (simp add: floor_eq_iff)
  have two: "fl (5224175567749775 / 2 ^ 54 * 100) = 8162774324609023 / 2 ^ 48"
    using fl_rounded [of "5224175567749775 / 2 ^ 54 * 100" 48 8162774324609023] by (simp add: floor_eq_iff)
  have "of_nat 29 / of_nat 100 = (29 / 100 :: rat)" by simp
  then have "miss_pct 29 100 = 8162774324609023 / 2 ^ 48" by (simp only: miss_pct_def one two)
  then show ?thesis by simp
qed

end
