(* ===== verification/Prom_Vars.thy ===== *)
theory Prom_Vars
  imports Processors
begin

text \<open>
  Variables in the queries of a rule (\<^verbatim>\<open>alert/eval/eval.go\<close>): taking the matchers with variables out of a query (\<^verbatim>\<open>removeVal\<close>),
  finding which variable stands for which label (\<^verbatim>\<open>ExtractVarMapping\<close>), filling values in (\<^verbatim>\<open>fillVar\<close>), the combinations of the
  values of several variables (\<^verbatim>\<open>mapPermutation\<close>), and the two tests on queries. A panic is \<^const>\<open>None\<close>.
\<close>

section \<open>Removing matchers with variables\<close>

text \<open>\<^verbatim>\<open>WriteRune(rune(b))\<close> of a byte: a byte above 127 is written as the two bytes of the rune of that number.\<close>

definition write_rune :: "char \<Rightarrow> string" where
  "write_rune c = (let n = (of_char c :: nat) in if n < 128 then [c] else [char_of (192 + n div 64), char_of (128 + n mod 64)])"

function remove_loop :: "string \<Rightarrow> nat \<Rightarrow> bool \<Rightarrow> nat \<Rightarrow> bool \<Rightarrow> string \<Rightarrow> string" where
  "remove_loop promql curIdx start lastIdx isVar sb =
     (if curIdx < length promql then
        (let c = promql ! curIdx in
         if \<not> start
         then remove_loop promql (curIdx + 1) (c = CHR ''{'') (if c = CHR ''{'' then curIdx else lastIdx) isVar (sb @ write_rune c)
         else let isVar = (isVar \<or> c = CHR ''$'') in
           if c = CHR '','' \<or> c = CHR ''}''
           then let lastIdx = (if \<not> isVar \<and> last sb = CHR ''{'' then lastIdx + 1 else lastIdx);
                    sb = (if \<not> isVar then sb @ drop lastIdx (take curIdx promql) else sb)
                in remove_loop promql (curIdx + 1) (c \<noteq> CHR ''}'') curIdx False (if c = CHR ''}'' then sb @ write_rune c else sb)
           else remove_loop promql (curIdx + 1) start lastIdx isVar sb)
      else sb)"
  by pat_completeness auto
termination
  by (relation "measure (\<lambda>(promql, curIdx, _). length promql - curIdx)") auto

declare remove_loop.simps [simp del]

definition removeVal :: "string \<Rightarrow> string" where
  "removeVal promql = remove_loop promql 0 False 0 False []"

section \<open>The variables of a query\<close>

definition var_pair :: "string \<Rightarrow> string list" where
  "var_pair pair =
     (if Contains pair ''!='' then SplitStr ''!='' pair
      else if Contains pair ''=~'' then SplitStr ''=~'' pair
      else if Contains pair ''!~'' then SplitStr ''!~'' pair
      else SplitStr ''='' pair)"

definition strip :: "char \<Rightarrow> string \<Rightarrow> string" where
  "strip c s = rev (dropWhile (\<lambda>d. d = c) (rev (dropWhile (\<lambda>d. d = c) s)))"

definition add_pair :: "string \<Rightarrow> (string, string) gomap \<Rightarrow> (string, string) gomap" where
  "add_pair pair varMapping =
     (case var_pair pair of
        [k, v] \<Rightarrow>
          (let label = TrimSpace k;
               val = strip (CHR 0x27) (strip (CHR 0x22) (TrimSpace v))
           in if val \<noteq> [] \<and> hd val = CHR ''$'' then mput (tl val) label varMapping else varMapping)
      | _ \<Rightarrow> varMapping)"

definition brace_end :: "string \<Rightarrow> nat option" where
  "brace_end s = (if CHR ''}'' \<in> set s then Some (length (takeWhile (\<lambda>c. c \<noteq> CHR ''}'') s)) else None)"

definition brace_start :: "string \<Rightarrow> nat option" where
  "brace_start s = (if CHR ''{'' \<in> set s then Some (length (takeWhile (\<lambda>c. c \<noteq> CHR ''{'') s)) else None)"

function extract_loop :: "string \<Rightarrow> (string, string) gomap \<Rightarrow> (string, string) gomap option" where
  "extract_loop promql varMapping =
     (case brace_start promql of
        None \<Rightarrow> Some varMapping
      | Some s \<Rightarrow>
          (case brace_end promql of
             None \<Rightarrow> Some varMapping
           | Some e \<Rightarrow>
               if s + 1 > e then None
               else extract_loop (drop (e + 1) promql)
                      (fold add_pair (SplitStr '','' (drop (s + 1) (take e promql))) varMapping)))"
  by pat_completeness auto
termination
  by (relation "measure (\<lambda>(promql, _). length promql)") (auto simp: brace_end_def dest: length_pos_if_in_set split: if_splits)

declare extract_loop.simps [simp del]

definition ExtractVarMapping :: "string \<Rightarrow> (string, string) gomap option" where
  "ExtractVarMapping promql = extract_loop promql []"

definition fillVar :: "string \<Rightarrow> string \<Rightarrow> string \<Rightarrow> string" where
  "fillVar curRealQuery paramKey val =
     ReplaceAll (ReplaceAll curRealQuery ([CHR 0x27, CHR ''$''] @ paramKey @ [CHR 0x27]) ([CHR 0x27] @ val @ [CHR 0x27]))
       ([CHR 0x22, CHR ''$''] @ paramKey @ [CHR 0x22]) ([CHR 0x22] @ val @ [CHR 0x22])"

section \<open>Combinations\<close>

text \<open>The slice \<open>current\<close> is shared by all calls. The keys are those from the index on.\<close>

fun combine :: "(string, string list) gomap \<Rightarrow> string list \<Rightarrow> nat \<Rightarrow> string list \<times> string list list \<Rightarrow> string list \<times> string list list" where
  "combine paraMap [] index (current, result) = (current, result @ [current])"
| "combine paraMap (key # keys) index (current, result) =
     (let valueList = (case mget paraMap key of None \<Rightarrow> [] | Some vs \<Rightarrow> vs)
      in fold (\<lambda>v acc. combine paraMap keys (index + 1) ((fst acc)[index := v], snd acc)) valueList (current, result))"

definition mapPermutation :: "string list \<Rightarrow> (string, string list) gomap \<Rightarrow> string list list" where
  "mapPermutation paramKeys paraMap = snd (combine paraMap paramKeys 0 (replicate (length paramKeys) [], []))"

section \<open>Tests on queries\<close>

definition hasLabelLossAggregator :: "string \<Rightarrow> bool" where
  "hasLabelLossAggregator promQl =
     list_ex (\<lambda>fn. Contains (ToLower promQl) (fn @ ''(''))
       [''sum'', ''min'', ''max'', ''avg'', ''stddev'', ''stdvar'', ''count'', ''quantile'', ''group'']"

definition notExactMatch :: "string \<Rightarrow> bool" where
  "notExactMatch promQl =
     (Contains (ToLower promQl) ''!='' \<or> Contains (ToLower promQl) ''=~'' \<or> Contains (ToLower promQl) ''!~'')"

section \<open>All combinations\<close>

lemma list_update_take: "length cur = n \<Longrightarrow> index < n \<Longrightarrow> take (Suc index) (cur[index := v]) = take index cur @ [v]"
  by (simp add: take_Suc_conv_app_nth)

lemma combine_spec:
  assumes "length current = index + length keys"
  shows "length (fst (combine pm keys index (current, result))) = length current
     \<and> take index (fst (combine pm keys index (current, result))) = take index current
     \<and> snd (combine pm keys index (current, result)) =
       result @ map (\<lambda>ws. take index current @ ws) (product_lists (map (\<lambda>k. case mget pm k of None \<Rightarrow> [] | Some vs \<Rightarrow> vs) keys))"
  using assms
proof (induction keys arbitrary: index current result)
  case Nil
  then show ?case by simp
next
  case (Cons key keys)
  note IHk = Cons.IH
  let ?vs = "case mget pm key of None \<Rightarrow> [] | Some vs \<Rightarrow> vs"
  let ?P = "product_lists (map (\<lambda>k. case mget pm k of None \<Rightarrow> [] | Some vs \<Rightarrow> vs) keys)"
  let ?step = "\<lambda>v acc. combine pm keys (index + 1) ((fst acc)[index := v], snd acc)"
  have loop: "length (fst (fold ?step vs (c, r))) = length c \<and> take index (fst (fold ?step vs (c, r))) = take index c
      \<and> snd (fold ?step vs (c, r)) = r @ concat (map (\<lambda>v. map (\<lambda>ws. take index c @ v # ws) ?P) vs)"
    if "length c = index + length (key # keys)" for vs c r
    using that
  proof (induction vs arbitrary: c r)
    case (Cons v vs)
    let ?c = "c[index := v]"
    have len: "length ?c = (index + 1) + length keys" using Cons.prems by simp
    obtain c1 r1 where one: "combine pm keys (Suc index) (?c, r) = (c1, r1)" by fastforce
    from IHk [OF len, of r] one
    have c1: "length c1 = length c" "take (index + 1) c1 = take (index + 1) ?c" "r1 = r @ map (\<lambda>ws. take (index + 1) ?c @ ws) ?P"
      by simp_all
    have t: "take (Suc index) ?c = take index c @ [v]" using list_update_take [of c "length c" index v] Cons.prems by simp
    have "take index c1 = take index (take (index + 1) c1)" by simp
    also have "\<dots> = take index c" unfolding c1(2) using Cons.prems by (simp add: t)
    finally have ti: "take index c1 = take index c" .
    from Cons.IH [of c1 r1] c1 Cons.prems ti show ?case by (simp add: one t)
  qed simp
  from loop [OF Cons.prems, of ?vs result] show ?case by (simp add: Let_def map_concat comp_def)
qed

text \<open>Every combination of the values of the variables, in the order of the variables, each once.\<close>

lemma mapPermutation_product:
  "mapPermutation keys pm = product_lists (map (\<lambda>k. case mget pm k of None \<Rightarrow> [] | Some vs \<Rightarrow> vs) keys)"
  using combine_spec [of "replicate (length keys) []" 0 keys pm "[]"] by (simp add: mapPermutation_def)

section \<open>What is removed\<close>

text \<open>A query as text and matchers in braces: the text before a brace with the matchers in it, and the text at the end.\<close>

definition render :: "(string \<times> string list) list \<Rightarrow> string \<Rightarrow> string" where
  "render chunks tail = concat (map (\<lambda>(t, ps). t @ ''{'' @ Join '','' ps @ ''}'') chunks) @ tail"

definition plain_text :: "string \<Rightarrow> bool" where
  "plain_text t \<longleftrightarrow> CHR ''{'' \<notin> set t \<and> (\<forall>c \<in> set t. (of_char c :: nat) < 128)"

definition matcher :: "string \<Rightarrow> bool" where
  "matcher p \<longleftrightarrow> p \<noteq> [] \<and> CHR '','' \<notin> set p \<and> CHR ''}'' \<notin> set p \<and> CHR ''{'' \<notin> set p"

definition has_var :: "string \<Rightarrow> bool" where
  "has_var p \<longleftrightarrow> CHR ''$'' \<in> set p"

lemma remove_text:
  "plain_text t \<Longrightarrow> remove_loop (pre @ t @ post) (length pre) False l v sb = remove_loop (pre @ t @ post) (length (pre @ t)) False l v (sb @ t)"
proof (induction t arbitrary: pre sb)
  case (Cons c t)
  have "remove_loop (pre @ (c # t) @ post) (length pre) False l v sb = remove_loop ((pre @ [c]) @ t @ post) (length (pre @ [c])) False l v (sb @ [c])"
    using Cons.prems by (subst remove_loop.simps) (auto simp: plain_text_def write_rune_def)
  also have "\<dots> = remove_loop ((pre @ [c]) @ t @ post) (length ((pre @ [c]) @ t)) False l v ((sb @ [c]) @ t)"
    using Cons.prems by (intro Cons.IH) (simp add: plain_text_def)
  finally show ?case by simp
qed simp

lemma remove_matcher:
  "CHR '','' \<notin> set p \<Longrightarrow> CHR ''}'' \<notin> set p \<Longrightarrow>
   remove_loop (pre @ p @ post) (length pre) True l v sb = remove_loop (pre @ p @ post) (length (pre @ p)) True l (v \<or> has_var p) sb"
proof (induction p arbitrary: pre v)
  case (Cons c p)
  have "remove_loop (pre @ (c # p) @ post) (length pre) True l v sb = remove_loop ((pre @ [c]) @ p @ post) (length (pre @ [c])) True l (v \<or> c = CHR ''$'') sb"
    using Cons.prems by (subst remove_loop.simps) auto
  also have "\<dots> = remove_loop ((pre @ [c]) @ p @ post) (length ((pre @ [c]) @ p)) True l ((v \<or> c = CHR ''$'') \<or> has_var p) sb"
    using Cons.prems by (intro Cons.IH) simp_all
  finally show ?case by (simp add: has_var_def disj_assoc eq_commute [of c])
qed (simp add: has_var_def)

lemma remove_delim:
  assumes "d = CHR '','' \<or> d = CHR ''}''"
  shows "remove_loop (pre @ d # post) (length pre) True l v sb =
     remove_loop (pre @ d # post) (length (pre @ [d])) (d \<noteq> CHR ''}'') (length pre) False
       ((if v then sb else sb @ drop (if last sb = CHR ''{'' then l + 1 else l) pre) @ (if d = CHR ''}'' then ''}'' else []))"
  using assms by (subst remove_loop.simps) (auto simp: write_rune_def Let_def)

definition kept :: "bool \<Rightarrow> string list \<Rightarrow> string" where
  "kept first ps = (if first then Join '','' ps else concat (map (\<lambda>p. CHR '','' # p) ps))"

lemma kept_Cons: "kept first (p # ps) = (if first then p else '','' @ p) @ kept False ps"
proof -
  have "Join '','' (p # ps) = p @ concat (map (\<lambda>q. CHR '','' # q) ps)" for p :: string and ps
    by (induction ps arbitrary: p) simp_all
  then show ?thesis by (simp add: kept_def)
qed

lemma kept_Nil [simp]: "kept first [] = []"
  by (simp add: kept_def)

text \<open>One matcher and the character after it.\<close>

lemma remove_one:
  assumes "matcher p" "d = CHR '','' \<or> d = CHR ''}''" "pre \<noteq> []" "sb \<noteq> []" "last sb \<noteq> CHR ''{'' \<Longrightarrow> last pre = CHR '',''"
  shows "remove_loop (pre @ p @ d # post) (length pre) True (length pre - 1) False sb =
     remove_loop (pre @ p @ d # post) (length (pre @ p @ [d])) (d \<noteq> CHR ''}'') (length (pre @ p)) False
       (sb @ (if has_var p then [] else (if last sb = CHR ''{'' then p else '','' @ p)) @ (if d = CHR ''}'' then ''}'' else []))"
proof -
  have seg: "drop (if last sb = CHR ''{'' then length pre - 1 + 1 else length pre - 1) (pre @ p) = (if last sb = CHR ''{'' then p else '','' @ p)"
  proof (cases "last sb = CHR ''{''")
    case False
    obtain q where "pre = q @ [CHR '','']" using assms(3,5) False by (metis append_butlast_last_id)
    then show ?thesis using False by simp
  qed (use assms(3) in simp)
  have "remove_loop (pre @ p @ d # post) (length pre) True (length pre - 1) False sb =
      remove_loop (pre @ p @ d # post) (length (pre @ p)) True (length pre - 1) (has_var p) sb"
    using assms(1) remove_matcher [of p pre "d # post" "length pre - 1" False sb] by (simp add: matcher_def)
  also have "\<dots> = remove_loop ((pre @ p) @ d # post) (length ((pre @ p) @ [d])) (d \<noteq> CHR ''}'') (length (pre @ p)) False
      ((if has_var p then sb else sb @ drop (if last sb = CHR ''{'' then length pre - 1 + 1 else length pre - 1) (pre @ p))
       @ (if d = CHR ''}'' then ''}'' else []))"
    using remove_delim [OF assms(2), of "pre @ p" post "length pre - 1" "has_var p" sb] by simp
  finally show ?thesis unfolding seg by simp
qed

lemma remove_matchers:
  assumes "ps \<noteq> []" "\<forall>p \<in> set ps. matcher p" "pre \<noteq> []" "sb \<noteq> []" "last sb \<noteq> CHR ''{'' \<Longrightarrow> last pre = CHR '',''"
  shows "\<exists>l. remove_loop (pre @ Join '','' ps @ ''}'' @ post) (length pre) True (length pre - 1) False sb =
     remove_loop (pre @ Join '','' ps @ ''}'' @ post) (length (pre @ Join '','' ps @ ''}'')) False l False
       (sb @ kept (last sb = CHR ''{'') (filter (\<lambda>p. \<not> has_var p) ps) @ ''}'')"
  using assms
proof (induction ps arbitrary: pre sb)
  case (Cons p ps)
  have p: "matcher p" using Cons.prems(2) by simp
  show ?case
  proof (cases ps)
    case Nil
    show ?thesis using remove_one [OF p _ Cons.prems(3-5), of "CHR ''}''" post] by (auto simp: Nil kept_Cons)
  next
    case (Cons q qs)
    let ?sb = "sb @ (if has_var p then [] else (if last sb = CHR ''{'' then p else '','' @ p))"
    let ?pre = "pre @ p @ '',''"
    have one: "remove_loop (pre @ Join '','' (p # ps) @ ''}'' @ post) (length pre) True (length pre - 1) False sb =
        remove_loop (?pre @ Join '','' ps @ ''}'' @ post) (length ?pre) True (length ?pre - 1) False ?sb"
      using remove_one [OF p _ Cons.prems(3-5), of "CHR '',''" "Join '','' ps @ ''}'' @ post"] by (simp add: Cons)
    have last: "last ?sb = CHR ''{'' \<longleftrightarrow> has_var p \<and> last sb = CHR ''{''"
    proof (cases "has_var p")
      case False
      have "p \<noteq> []" "CHR ''{'' \<notin> set p" using p by (simp_all add: matcher_def)
      then have "last p \<noteq> CHR ''{''" "p \<noteq> []" by (metis last_in_set)+
      then show ?thesis using False by simp
    qed simp
    have "\<exists>l. remove_loop (?pre @ Join '','' ps @ ''}'' @ post) (length ?pre) True (length ?pre - 1) False ?sb =
        remove_loop (?pre @ Join '','' ps @ ''}'' @ post) (length (?pre @ Join '','' ps @ ''}'')) False l False
          (?sb @ kept (last ?sb = CHR ''{'') (filter (\<lambda>p. \<not> has_var p) ps) @ ''}'')"
      using Cons Cons.prems by (intro Cons.IH) auto
    moreover have "?sb @ kept (last ?sb = CHR ''{'') (filter (\<lambda>p. \<not> has_var p) ps) = sb @ kept (last sb = CHR ''{'') (filter (\<lambda>p. \<not> has_var p) (p # ps))"
      unfolding last by (simp add: kept_Cons)
    moreover have "?pre @ Join '','' ps @ ''}'' @ post = pre @ Join '','' (p # ps) @ ''}'' @ post"
        "length (?pre @ Join '','' ps @ ''}'') = length (pre @ Join '','' (p # ps) @ ''}'')" by (simp_all add: Cons)
    ultimately show ?thesis unfolding one by (metis append_assoc)
  qed
qed simp

definition query_ok :: "(string \<times> string list) list \<Rightarrow> bool" where
  "query_ok chunks \<longleftrightarrow> (\<forall>(t, ps) \<in> set chunks. plain_text t \<and> ps \<noteq> [] \<and> (\<forall>p \<in> set ps. matcher p))"

definition without_vars :: "(string \<times> string list) list \<Rightarrow> (string \<times> string list) list" where
  "without_vars chunks = map (\<lambda>(t, ps). (t, filter (\<lambda>p. \<not> has_var p) ps)) chunks"

lemma remove_open:
  "remove_loop (pre @ ''{'' @ post) (length pre) False l False sb = remove_loop (pre @ ''{'' @ post) (length (pre @ ''{'')) True (length pre) False (sb @ ''{'')"
  by (subst remove_loop.simps) (simp add: write_rune_def Let_def)

lemma remove_chunks:
  assumes "query_ok chunks" "plain_text tail"
  shows "remove_loop (pre @ render chunks tail) (length pre) False l False sb = sb @ render (without_vars chunks) tail"
  using assms(1)
proof (induction chunks arbitrary: pre l sb)
  case Nil
  have "remove_loop (pre @ tail @ []) (length pre) False l False sb = remove_loop (pre @ tail @ []) (length (pre @ tail)) False l False (sb @ tail)"
    by (rule remove_text [OF assms(2)])
  also have "\<dots> = sb @ tail" by (subst remove_loop.simps) simp
  finally show ?case by (simp add: render_def without_vars_def)
next
  case (Cons x chunks)
  obtain t ps where x: "x = (t, ps)" by fastforce
  have ok: "plain_text t" "ps \<noteq> []" "\<forall>p \<in> set ps. matcher p" "query_ok chunks" using Cons.prems by (simp_all add: query_ok_def x)
  let ?rest = "render chunks tail" and ?F = "filter (\<lambda>p. \<not> has_var p) ps"
  let ?s = "pre @ t @ ''{'' @ Join '','' ps @ ''}'' @ ?rest"
  have "remove_loop ?s (length pre) False l False sb = remove_loop ?s (length (pre @ t)) False l False (sb @ t)"
    by (rule remove_text [OF ok(1)])
  also have "\<dots> = remove_loop ?s (length ((pre @ t) @ ''{'')) True (length (pre @ t)) False ((sb @ t) @ ''{'')"
    using remove_open [of "pre @ t" "Join '','' ps @ ''}'' @ ?rest" l "sb @ t"] by simp
  finally have open_brace: "remove_loop ?s (length pre) False l False sb
      = remove_loop ?s (length ((pre @ t) @ ''{'')) True (length (pre @ t)) False ((sb @ t) @ ''{'')" .
  obtain k where "remove_loop ((pre @ t @ ''{'') @ Join '','' ps @ ''}'' @ ?rest) (length (pre @ t @ ''{'')) True (length (pre @ t @ ''{'') - 1) False ((sb @ t) @ ''{'')
      = remove_loop ((pre @ t @ ''{'') @ Join '','' ps @ ''}'' @ ?rest) (length ((pre @ t @ ''{'') @ Join '','' ps @ ''}'')) False k False
          (((sb @ t) @ ''{'') @ kept (last ((sb @ t) @ ''{'') = CHR ''{'') ?F @ ''}'')"
    using remove_matchers [OF ok(2,3), of "pre @ t @ ''{''" "(sb @ t) @ ''{''" ?rest] by auto
  moreover have "remove_loop ((pre @ t @ ''{'' @ Join '','' ps @ ''}'') @ ?rest) (length (pre @ t @ ''{'' @ Join '','' ps @ ''}'')) False k False
      ((sb @ t @ ''{'') @ Join '','' ?F @ ''}'') = ((sb @ t @ ''{'') @ Join '','' ?F @ ''}'') @ render (without_vars chunks) tail"
    by (rule Cons.IH [OF ok(4)])
  ultimately have "remove_loop ?s (length pre) False l False sb = sb @ t @ ''{'' @ Join '','' ?F @ ''}'' @ render (without_vars chunks) tail"
    unfolding open_brace by (simp add: kept_def)
  then show ?case by (simp add: x render_def without_vars_def)
qed

text \<open>(C34) \<^verbatim>\<open>removeVal\<close> takes out of a query exactly the matchers that contain a variable, keeps the others in their order with the
  commas between them, and leaves the text around the braces as it is. The query is made of ASCII text without opening braces
  and of matchers that are not empty and contain neither a comma nor a brace.\<close>

theorem removeVal_correct:
  assumes "query_ok chunks" "plain_text tail"
  shows "removeVal (render chunks tail) = render (without_vars chunks) tail"
  using remove_chunks [OF assms, of "[]" 0 "[]"] by (simp add: removeVal_def)

theorem removeVal_correct_witness:
  "removeVal ''mem{a=$a,b=x} > 1 and cpu{c=y,d=$d,e=z}'' = ''mem{b=x} > 1 and cpu{c=y,e=z}''"
proof -
  have "query_ok [(''mem'', [''a=$a'', ''b=x'']), ('' > 1 and cpu'', [''c=y'', ''d=$d'', ''e=z''])]" "plain_text []"
    by (simp_all add: query_ok_def plain_text_def matcher_def)
  from removeVal_correct [OF this] show ?thesis by (simp add: render_def without_vars_def has_var_def)
qed

text \<open>A dollar sign that ends a regular expression counts as a variable, and bytes above 127 outside of braces are doubled.\<close>

lemma anchored_matcher_lost: "removeVal ''mem{host=~web$,b=x}'' = ''mem{b=x}''"
  using remove_chunks [of "[(''mem'', [''host=~web$'', ''b=x''])]" "[]" "[]" 0 "[]"]
  by (simp add: removeVal_def query_ok_def plain_text_def matcher_def render_def without_vars_def has_var_def)

lemma high_byte_doubled: "removeVal [CHR 0xC3] = [char_of (195 :: nat), char_of (131 :: nat)]"
  by (simp add: removeVal_def remove_loop.simps [of _ 0] remove_loop.simps [of _ "Suc 0"] write_rune_def)

section \<open>The variables that are found\<close>

lemma first_of: "c \<notin> set t \<Longrightarrow> takeWhile (\<lambda>d. d \<noteq> c) (t @ c # post) = t"
  by (induction t) auto

lemma Join_chars: "c \<in> set (Join '','' ps) \<Longrightarrow> c = CHR '','' \<or> (\<exists>p \<in> set ps. c \<in> set p)"
  by (induction "'',''" ps rule: Join.induct) auto

text \<open>On such a query, with no closing brace in the text either, the function returns, and has looked at every matcher.\<close>

lemma ExtractVarMapping_render:
  assumes "query_ok chunks" "\<forall>(t, ps) \<in> set chunks. CHR ''}'' \<notin> set t" "CHR ''{'' \<notin> set tail"
  shows "ExtractVarMapping (render chunks tail) = Some (fold add_pair (concat (map snd chunks)) [])"
proof -
  have "extract_loop (render chunks tail) m = Some (fold add_pair (concat (map snd chunks)) m)" for m
    using assms(1,2)
  proof (induction chunks arbitrary: m)
    case Nil
    then show ?case using assms(3) by (subst extract_loop.simps) (simp add: render_def brace_start_def)
  next
    case (Cons x chunks)
    obtain t ps where x: "x = (t, ps)" by fastforce
    have ok: "plain_text t" "ps \<noteq> []" "\<forall>p \<in> set ps. matcher p" "query_ok chunks" "CHR ''}'' \<notin> set t"
      using Cons.prems by (simp_all add: query_ok_def x)
    let ?J = "Join '','' ps" and ?rest = "render chunks tail"
    have J: "CHR ''}'' \<notin> set ?J" using Join_chars [of "CHR ''}''" ps] ok(3) by (auto simp: matcher_def)
    have s: "render (x # chunks) tail = t @ CHR ''{'' # ?J @ CHR ''}'' # ?rest" by (simp add: x render_def)
    have st: "brace_start (render (x # chunks) tail) = Some (length t)"
      using ok(1) by (simp add: brace_start_def s first_of plain_text_def)
    have "takeWhile (\<lambda>d. d \<noteq> CHR ''}'') ((t @ CHR ''{'' # ?J) @ CHR ''}'' # ?rest) = t @ CHR ''{'' # ?J"
      using ok(5) J by (intro first_of) simp
    then have en: "brace_end (render (x # chunks) tail) = Some (length t + 1 + length ?J)" by (simp add: brace_end_def s)
    have "SplitStr '','' ?J = ps" using ok(2,3) by (intro SplitStr_Join) (auto simp: matcher_def)
    then have "extract_loop (render (x # chunks) tail) m = extract_loop ?rest (fold add_pair ps m)"
      by (subst extract_loop.simps) (simp add: st en, simp add: s)
    then show ?case using Cons.IH [OF ok(4)] Cons.prems by (simp add: x)
  qed
  then show ?thesis by (simp add: ExtractVarMapping_def)
qed

section \<open>Panics\<close>

text \<open>A closing brace before the first opening one is a slice with bounds out of order.\<close>

lemma extract_panics: "ExtractVarMapping ''}{'' = None"
  by (simp add: ExtractVarMapping_def extract_loop.simps brace_start_def brace_end_def)

end
