(* ===== verification/Spec2Isabelle.thy ===== *)
theory Spec2Isabelle
  imports Incident_Cache Custom_Api Restart Rule_Query Host_Rule Prom_Vars
begin

text \<open>
  A verification of the alert engine of Nightingale with the custom noise-reduction modules.

  \<^bold>\<open>The program.\<close> A worker per alert rule and data source queries the data source, turns the series that alert
  into events, runs the events through pipelines, drops the muted ones, keeps track of what fires and what
  recovers, and hands events to a dispatcher, which sends them by notify rules. The custom modules under
  \<^verbatim>\<open>src/internal/custom\<close> hook into this: cron windows and an emergency switch mute events, an inhibitor suppresses
  events while a root cause is alive, and a pipeline processor merges events into incidents. A management
  interface edits their rules, providers reload them, and a sink records what was suppressed.

  \<^bold>\<open>Theories, in the order of the data.\<close> All source names are below \<^verbatim>\<open>src/\<close>.

  \<^item> \<^verbatim>\<open>N9e_Prelude\<close>: strings, Go maps, clock times, 64-bit integers, with their generic lemmas.
  \<^item> \<^verbatim>\<open>Tag_Filter\<close>: \<^verbatim>\<open>models/alert_mute.go\<close> (tag filters) and \<^verbatim>\<open>alert/common/key.go\<close>, the native matcher.
    \<^verbatim>\<open>Tag_Matchers\<close>: the three copies of the custom matcher, \<^verbatim>\<open>internal/custom/{mute,suppress,denoise}/tagfilter.go\<close>,
    under one contract (locale \<open>tag_matcher\<close>), and where they agree with the native one.
  \<^item> \<^verbatim>\<open>Alert_Event\<close>: events, rules and targets (\<^verbatim>\<open>models/alert_cur_event.go\<close>, \<^verbatim>\<open>alert_rule.go\<close>, \<^verbatim>\<open>target.go\<close>).
  \<^item> \<^verbatim>\<open>Series_Join\<close>, \<^verbatim>\<open>Rule_Query\<close>, \<^verbatim>\<open>Host_Rule\<close>, \<^verbatim>\<open>Prom_Vars\<close>: \<^verbatim>\<open>alert/eval/eval.go\<close> with \<^verbatim>\<open>pkg/hash\<close>,
    \<^verbatim>\<open>pkg/parser/calc.go\<close>, \<^verbatim>\<open>memsto/target_cache.go\<close> and \<^verbatim>\<open>storage/redis.go\<close>. The joins of query results are the relational
    joins; no-data alerts and alerts on missing hosts are raised exactly when they should; the character loop
    that takes variables out of a query removes exactly the matchers that use one.
  \<^item> \<^verbatim>\<open>Event_Building\<close>, \<^verbatim>\<open>Alert_Process\<close>, \<^verbatim>\<open>Alert_Recovery\<close>, \<^verbatim>\<open>Alert_Handle\<close>, \<^verbatim>\<open>Restart\<close>: \<^verbatim>\<open>alert/process\<close>. The
    processor is a record with a heap of events, since its maps and the queue share pointers. Shown: what
    \<^verbatim>\<open>BuildEvent\<close> builds and when it panics; that \<^verbatim>\<open>fireEvent\<close> on the heap refines its specification on values; the
    bound on repeated notifications; which series fire after an evaluation and which recover; what a restart
    restores and what it forgets.
  \<^item> \<^verbatim>\<open>Native_Mute\<close>: \<^verbatim>\<open>alert/mute/mute.go\<close>, \<^verbatim>\<open>models/alert_mute.go\<close> and the cache of \<^verbatim>\<open>memsto/alert_mute_cache.go\<close>, under
    the contract of a cache that reloads when the statistics of its table change (locale \<open>stat_cache\<close>).
  \<^item> \<^verbatim>\<open>Workflow\<close>, \<^verbatim>\<open>Relabel\<close>, \<^verbatim>\<open>Processors\<close>: the pipeline engine \<^verbatim>\<open>alert/pipeline/engine\<close>, the relabelling of
    \<^verbatim>\<open>pushgw/writer/relabel.go\<close> and the processors of \<^verbatim>\<open>alert/pipeline/processor\<close>. Nodes run once, in an order that respects
    the connections, and exactly when all their incoming connections were followed.
  \<^item> \<^verbatim>\<open>Dispatch\<close>: pipelines and notify rules of \<^verbatim>\<open>alert/dispatch/dispatch.go\<close>: every message sent is due.
  \<^item> \<^verbatim>\<open>Custom_Mute\<close>, \<^verbatim>\<open>Ttl_Index\<close>, \<^verbatim>\<open>Suppress\<close>, \<^verbatim>\<open>Suppress_Record\<close>: \<^verbatim>\<open>internal/custom/mute\<close>, \<^verbatim>\<open>suppress\<close> and
    \<^verbatim>\<open>suppressrec\<close>. The decisions of evaluator and inhibitor against their specification; the sink, a transition
    system of callers and a worker, loses no record without counting it, and stops.
  \<^item> \<^verbatim>\<open>Denoise\<close>, \<^verbatim>\<open>Aggregator\<close>, \<^verbatim>\<open>Incident_History\<close>, \<^verbatim>\<open>Incident_Cache\<close>: \<^verbatim>\<open>internal/custom/denoise\<close>. Invariants of the
    incident tables over all histories with restarts and data base failures, one page per window, one storm
    report per incident, and that the in-memory index is transparent.
  \<^item> \<^verbatim>\<open>Custom_Wiring\<close>, \<^verbatim>\<open>Custom_Api\<close>: \<^verbatim>\<open>internal/custom/bootstrap\<close>, \<^verbatim>\<open>refresher\<close> and \<^verbatim>\<open>router\<close>. The chain of hooks, what
    the providers serve (locale \<open>rule_loader\<close>), and that the audit log tells the tables (locale \<open>rule_api\<close>).

  \<^bold>\<open>Conventions.\<close> A struct is a record with the field names of the code behind a short prefix, a method is a
  definition with its name (behind a prefix where names meet), a loop is a recursive function beside it.
  Mutable state is passed and returned. A map is an association list with distinct keys; the order in which
  Go visits it is an argument, and the theorems hold for every order (\<open>range_order\<close>). An error is a left
  summand, a panic is \<open>None\<close>, a nil pointer the code tests for is \<open>None\<close>. The clock is an argument. Integers are
  unbounded except where wrap-around is possible and matters (durations of cron windows), where it is
  written out. Logging and metrics are left out.

  \<^bold>\<open>Bounds.\<close> No loop of the model has fuel except \<open>scale\<close> of \<^verbatim>\<open>Host_Rule\<close>, which finds the binary exponent
  for rounding to \<^verbatim>\<open>float64\<close> in at most 200 steps in each direction: quotients of two host counts below
  \<open>2 ^ 64\<close>, times hundred, need fewer. The workflow engine is driven by its queue; that a node enters the
  queue at most once gives its termination. The two character loops of \<^verbatim>\<open>Prom_Vars\<close> end by the length of the text.

  \<^bold>\<open>Parameters.\<close> Code outside the repository is an argument: regular expressions, templates, JSON decoders,
  the cron parser, the expression language, murmur3 and MD5, the clients of data sources, Redis and the data
  base (rows or an error). The hypotheses about them are stated in the theorems, and each theorem with a hypothesis is followed by
  an instance at concrete values.

  \<^bold>\<open>Not modelled.\<close> The evaluation of PromQL rules around the functions of \<^verbatim>\<open>Prom_Vars\<close> (goroutines that query
  Prometheus); the clients of data sources (\<^verbatim>\<open>datasource\<close>, \<^verbatim>\<open>dskit\<close>, \<^verbatim>\<open>dscache\<close>, \<^verbatim>\<open>prom\<close>) and the senders (\<^verbatim>\<open>alert/sender\<close>), which talk
  to services; the web interface of Nightingale itself (\<^verbatim>\<open>center\<close>) and its tables (the other files of \<^verbatim>\<open>models\<close> and
  \<^verbatim>\<open>memsto\<close>), which move rows between HTTP and the data base; the ingestion of series (\<^verbatim>\<open>pushgw\<close> without
  relabelling); recording rules; the distribution of rules over engines (\<^verbatim>\<open>alert/naming\<close>); start-up, configuration, migration
  and tools (\<^verbatim>\<open>cmd\<close>, \<^verbatim>\<open>cli\<close>, \<^verbatim>\<open>conf\<close>, \<^verbatim>\<open>cron\<close>, \<^verbatim>\<open>dumper\<close>); and the notification path older than notify rules.
\<close>

end
